(* ===== verification/Ppp_Prelude.thy ===== *)
theory Ppp_Prelude
  imports Main "HOL-Library.Word"
begin

text \<open>
  Shared vocabulary of the development: the machine types of the 32-bit target, buffer
  accesses by offset, and the control flow of a task that may call \<open>exit\<close> or fail to come back.

  A C function that works on the task's state \<open>'s\<close> and returns a value \<open>'a\<close> is an
  action \<open>'s \<Rightarrow> ('a, 's) res\<close>: it returns, ends the task (\<open>exit\<close>), or control never comes back
  to the caller (an endless loop or an unbounded recursion). \<open>steps\<close> is the sequence of
  statements of a body, \<open>bnd\<close> a call whose value is used, \<open>wp\<close> the weakest precondition
  in the sense of total correctness.
\<close>

unbundle bit_operations_syntax

type_synonym u8 = "8 word"
type_synonym u16 = "16 word"
type_synonym u32 = "32 word"
type_synonym bytes = "8 word list"

named_theorems act_simps \<open>evaluation of actions\<close>
named_theorems frame_simps \<open>what an operation leaves unchanged\<close>

section \<open>Actions\<close>

datatype ('a, 's) res = Ret 'a 's | Exit 's | Stuck

type_synonym ('s, 'a) act = "'s \<Rightarrow> ('a, 's) res"

definition ret :: "'a \<Rightarrow> ('s, 'a) act" where
  "ret a s = Ret a s"

definition skip :: "('s, unit) act" where
  "skip s = Ret () s"

definition upd :: "('s \<Rightarrow> 's) \<Rightarrow> ('s, unit) act" where
  "upd f s = Ret () (f s)"

definition bnd :: "('s, 'a) act \<Rightarrow> ('a \<Rightarrow> ('s, 'b) act) \<Rightarrow> ('s, 'b) act" where
  "bnd f g s = (case f s of Ret a t \<Rightarrow> g a t | Exit t \<Rightarrow> Exit t | Stuck \<Rightarrow> Stuck)"

primrec steps :: "('s, unit) act list \<Rightarrow> ('s, unit) act" where
  "steps [] = skip"
| "steps (f # fs) = bnd f (\<lambda>_. steps fs)"

text \<open>A call through a function pointer that may be NULL.\<close>

definition call :: "('s, unit) act option \<Rightarrow> ('s, unit) act" where
  "call p s = (case p of None \<Rightarrow> Ret () s | Some f \<Rightarrow> f s)"

text \<open>The rest of a body that ends by returning a value.\<close>

definition finally_ret :: "('s, unit) act \<Rightarrow> 'a \<Rightarrow> ('s, 'a) act" where
  "finally_ret f a = bnd f (\<lambda>_. ret a)"

lemma ret_apply [act_simps, simp]: "ret a s = Ret a s"
  by (simp add: ret_def)

lemma skip_apply [act_simps, simp]: "skip s = Ret () s"
  by (simp add: skip_def)

lemma upd_apply [act_simps, simp]: "upd f s = Ret () (f s)"
  by (simp add: upd_def)

lemma call_None [act_simps, simp]: "call None s = Ret () s"
  by (simp add: call_def)

lemma call_Some [act_simps, simp]: "call (Some f) s = f s"
  by (simp add: call_def)

lemma bnd_Ret: "f s = Ret a t \<Longrightarrow> bnd f g s = g a t"
  by (simp add: bnd_def)

lemma bnd_ret [act_simps, simp]: "bnd (ret a) g s = g a s"
  by (simp add: bnd_def)

lemma bnd_assoc: "bnd (bnd f g) k = bnd f (\<lambda>a. bnd (g a) k)"
  by (rule ext) (simp add: bnd_def split: res.split)

lemma steps_append:
  "steps (fs @ gs) s = bnd (steps fs) (\<lambda>_. steps gs) s"
  by (induction fs arbitrary: s) (auto simp: bnd_def split: res.split)

section \<open>Weakest preconditions\<close>

text \<open>
  \<open>wp (f s) Q X\<close>: run from \<open>s\<close>, the action returns in a state satisfying \<open>Q\<close> or ends the
  task in a state satisfying \<open>X\<close>; it always does one of the two. The liberal version \<open>wlp\<close>
  says nothing of a call that does not return.
\<close>

definition wp :: "('a, 's) res \<Rightarrow> ('a \<Rightarrow> 's \<Rightarrow> bool) \<Rightarrow> ('s \<Rightarrow> bool) \<Rightarrow> bool" where
  "wp r Q X = (case r of Ret a t \<Rightarrow> Q a t | Exit t \<Rightarrow> X t | Stuck \<Rightarrow> False)"

definition wlp :: "('a, 's) res \<Rightarrow> ('a \<Rightarrow> 's \<Rightarrow> bool) \<Rightarrow> bool" where
  "wlp r Q \<longleftrightarrow> (\<forall>a t. r = Ret a t \<longrightarrow> Q a t)"

lemma wp_simps [simp]:
  "wp (Ret a s) Q X = Q a s" "wp (Exit s) Q X = X s" "wp Stuck Q X = False"
  by (simp_all add: wp_def)

lemma wp_bnd [simp]: "wp (bnd f g s) Q X = wp (f s) (\<lambda>a t. wp (g a t) Q X) X"
  by (simp add: wp_def bnd_def split: res.split)

lemma wp_mono:
  assumes "wp r Q X" and "\<And>a t. Q a t \<Longrightarrow> Q' a t" and "\<And>t. X t \<Longrightarrow> X' t"
  shows "wp r Q' X'"
  using assms by (simp add: wp_def split: res.splits)

lemma wp_RetD: "wp (f s) Q X \<Longrightarrow> f s = Ret a t \<Longrightarrow> Q a t"
  by (simp add: wp_def)

lemma wp_not_Stuck: "wp r Q X \<Longrightarrow> r \<noteq> Stuck"
  by (auto simp: wp_def)

lemma wlpI: "(\<And>a t. r = Ret a t \<Longrightarrow> Q a t) \<Longrightarrow> wlp r Q"
  by (simp add: wlp_def)

lemma wlpD: "wlp r Q \<Longrightarrow> r = Ret a t \<Longrightarrow> Q a t"
  by (simp add: wlp_def)

lemma wlp_wp: "wp r Q X \<Longrightarrow> wlp r Q"
  by (auto simp: wlp_def)

lemma wlp_simps [simp]: "wlp (Ret a s) Q = Q a s" "wlp (Exit s) Q" "wlp Stuck Q"
  by (simp_all add: wlp_def)

lemma wlp_bnd [simp]: "wlp (bnd f g s) Q = wlp (f s) (\<lambda>a t. wlp (g a t) Q)"
  by (auto simp: wlp_def bnd_def split: res.split)

lemma wlp_mono: "wlp r Q \<Longrightarrow> (\<And>a t. Q a t \<Longrightarrow> Q' a t) \<Longrightarrow> wlp r Q'"
  by (simp add: wlp_def)

text \<open>An action that keeps a predicate, whichever way it ends.\<close>

definition keeps :: "('s, 'a) act \<Rightarrow> ('s \<Rightarrow> bool) \<Rightarrow> bool" where
  "keeps f P \<longleftrightarrow> (\<forall>s. P s \<longrightarrow> wp (f s) (\<lambda>_. P) P)"

lemma keepsI: "(\<And>s. P s \<Longrightarrow> wp (f s) (\<lambda>_. P) P) \<Longrightarrow> keeps f P"
  by (simp add: keeps_def)

lemma keepsD: "keeps f P \<Longrightarrow> P s \<Longrightarrow> wp (f s) (\<lambda>_. P) P"
  by (simp add: keeps_def)

lemma keeps_bnd: "keeps f P \<Longrightarrow> (\<And>a. keeps (g a) P) \<Longrightarrow> keeps (bnd f g) P"
  by (auto simp: keeps_def elim!: wp_mono)

lemma keeps_steps: "(\<And>f. f \<in> set fs \<Longrightarrow> keeps f P) \<Longrightarrow> keeps (steps fs) P"
proof (induction fs)
  case Nil
  show ?case by (simp add: keeps_def)
next
  case (Cons f fs)
  then show ?case by (auto intro!: keeps_bnd)
qed

section \<open>Buffers\<close>

text \<open>
  A \<open>u_char *\<close> into a packet buffer is the list of the bytes from there to the end of the
  buffer; the length the code carries along may be smaller. Reading is total (0 beyond the
  modelled buffer); the theorems that matter assume the carried length fits in the buffer.
\<close>

definition rd :: "bytes \<Rightarrow> nat \<Rightarrow> u8" where
  "rd p i = (if i < length p then p ! i else 0)"

text \<open>Overwrite part of a buffer, and \<open>BCOPY\<close> within one.\<close>

definition put_at :: "nat \<Rightarrow> bytes \<Rightarrow> bytes \<Rightarrow> bytes" where
  "put_at pos bs buf = take pos buf @ bs @ drop (pos + length bs) buf"

definition bcopy_in :: "nat \<Rightarrow> nat \<Rightarrow> nat \<Rightarrow> bytes \<Rightarrow> bytes" where
  "bcopy_in src dst n buf = put_at dst (take n (drop src buf)) buf"

lemma rd_Cons_0 [simp]: "rd (b # p) 0 = b"
  by (simp add: rd_def)

lemma rd_Cons_Suc [simp]: "rd (b # p) (Suc i) = rd p i"
  by (simp add: rd_def)

lemma rd_append_left: "i < length p \<Longrightarrow> rd (p @ q) i = rd p i"
  by (simp add: rd_def nth_append)

lemma rd_append_right: "length p \<le> i \<Longrightarrow> rd (p @ q) i = rd q (i - length p)"
  by (auto simp: rd_def nth_append)

lemma rd_drop: "n \<le> length p \<Longrightarrow> rd (drop n p) i = rd p (n + i)"
  by (auto simp: rd_def)

lemma rd_take: "i < n \<Longrightarrow> rd (take n p) i = rd p i"
  by (simp add: rd_def)

lemma length_put_at [simp]:
  "pos + length bs \<le> length buf \<Longrightarrow> length (put_at pos bs buf) = length buf"
  by (simp add: put_at_def)

lemma take_put_at: "pos \<le> length buf \<Longrightarrow> take (pos + length bs) (put_at pos bs buf) = take pos buf @ bs"
  by (simp add: put_at_def)

lemma drop_put_at:
  "pos + length bs \<le> k \<Longrightarrow> k \<le> length buf \<Longrightarrow> drop k (put_at pos bs buf) = drop k buf"
  by (simp add: put_at_def)

lemma take_put_at_before: "k \<le> pos \<Longrightarrow> pos \<le> length buf \<Longrightarrow> take k (put_at pos bs buf) = take k buf"
  by (simp add: put_at_def)

end
