(* ===== verification/In_Cksum.thy ===== *)
theory In_Cksum
  imports Ppp_Prelude
begin

text \<open>
  \<open>in_cksum.c\<close>: the checksum of IP, TCP, UDP and ICMP, the portable version. It sums 16 bit words as the
  machine reads them, through mbufs of any length and at odd addresses, swapping the bytes of the sum
  instead of those of the words. Shown: the result is the Internet checksum of the bytes, however they
  lie in mbufs and in memory.
\<close>

section \<open>The program\<close>

text \<open>An mbuf: whether its data begins at an odd address, and the data.\<close>

record cmbuf =
  at_odd :: bool
  cdata :: bytes

text \<open>The union \<open>s_util\<close>: two bytes as a \<open>u_short\<close>, on a machine that is big-endian or not.\<close>

definition short :: "bool \<Rightarrow> u8 \<Rightarrow> u8 \<Rightarrow> nat" where
  "short be c0 c1 = (if be then 256 * unat c0 + unat c1 else unat c0 + 256 * unat c1)"

text \<open>\<open>sum\<close> has 32 bits.\<close>

definition add32 :: "nat \<Rightarrow> nat \<Rightarrow> nat" where
  "add32 s w = (s + w) mod 2 ^ 32"

definition shl8 :: "nat \<Rightarrow> nat" where
  "shl8 s = (s * 256) mod 2 ^ 32"

definition ADDCARRY :: "nat \<Rightarrow> nat" where
  "ADDCARRY x = (if x > 65535 then x - 65535 else x)"

definition REDUCE :: "nat \<Rightarrow> nat" where
  "REDUCE s = ADDCARRY (s mod 65536 + s div 65536)"

text \<open>\<open>k\<close> words from \<open>w\<close> on, and the loop that adds \<open>k\<close> words at a time while there are as many.\<close>

fun add_words :: "bool \<Rightarrow> nat \<Rightarrow> nat \<Rightarrow> bytes \<Rightarrow> nat" where
  "add_words be (Suc k) s (a # b # w) = add_words be k (add32 s (short be a b)) w"
| "add_words be _ s w = s"

function unrolled :: "bool \<Rightarrow> nat \<Rightarrow> nat \<Rightarrow> bytes \<Rightarrow> nat \<times> bytes" where
  "unrolled be k s w =
     (if k > 0 \<and> 2 * k \<le> length w then unrolled be k (add_words be k s w) (drop (2 * k) w) else (s, w))"
  by auto
termination
  by (relation "measure (\<lambda>(be, k, s, w). length w)") auto

declare unrolled.simps [simp del]

text \<open>\<open>c_pending\<close>: \<open>mlen\<close> is -1, the first byte of a word is in \<open>s_util.c[0]\<close>.\<close>

record cksum =
  c_sum :: nat
  c_byte :: u8
  c_pending :: bool
  c_len :: nat

text \<open>The first byte of an mbuf as second half of a word that spans two mbufs.\<close>

definition first_half :: "bool \<Rightarrow> cmbuf \<Rightarrow> cksum \<Rightarrow> nat \<times> bool \<times> bytes \<times> nat" where
  "first_half be m st =
     (if c_pending st then (add32 (c_sum st) (short be (c_byte st) (hd (cdata m))), \<not> at_odd m, tl (cdata m), c_len st - 1)
      else (c_sum st, at_odd m, cdata m, c_len st))"

text \<open>The words of one mbuf: \<open>oddw\<close> tells that they begin at an odd address, \<open>c0\<close> is \<open>s_util.c[0]\<close>.\<close>

definition cksum_words :: "bool \<Rightarrow> nat \<Rightarrow> bool \<Rightarrow> u8 \<Rightarrow> bytes \<Rightarrow> nat \<Rightarrow> cksum" where
  "cksum_words be s oddw c0 d len =
     (let swapped = (oddw \<and> d \<noteq> []);
          s3 = (if swapped then shl8 (REDUCE s) else s);
          c = (if swapped then hd d else c0);
          d3 = (if swapped then tl d else d);
          (s4, d4) = unrolled be 16 s3 d3;
          (s5, d5) = unrolled be 4 s4 d4
      in if d5 = [] \<and> \<not> swapped then \<lparr>c_sum = s5, c_byte = c, c_pending = False, c_len = len\<rparr>
         else let (s6, d6) = unrolled be 1 (REDUCE s5) d5 in
           if swapped then
             let s7 = shl8 (REDUCE s6) in
             (case d6 of
                [] \<Rightarrow> \<lparr>c_sum = s7, c_byte = c, c_pending = True, c_len = len\<rparr>
              | x # _ \<Rightarrow> \<lparr>c_sum = add32 s7 (short be c x), c_byte = c, c_pending = False, c_len = len\<rparr>)
           else
             (case d6 of
                [] \<Rightarrow> \<lparr>c_sum = s6, c_byte = c, c_pending = False, c_len = len\<rparr>
              | x # _ \<Rightarrow> \<lparr>c_sum = s6, c_byte = x, c_pending = True, c_len = len\<rparr>))"

definition cksum_mbuf :: "bool \<Rightarrow> cmbuf \<Rightarrow> cksum \<Rightarrow> cksum" where
  "cksum_mbuf be m st =
     (if cdata m = [] then st
      else let (s, oddw, d, len) = first_half be m st; d' = take len d
           in cksum_words be s oddw (c_byte st) d' (len - length d'))"

primrec cksum_loop :: "bool \<Rightarrow> cmbuf list \<Rightarrow> cksum \<Rightarrow> cksum" where
  "cksum_loop be [] st = st"
| "cksum_loop be (m # ms) st = (if c_len st = 0 then st else cksum_loop be ms (cksum_mbuf be m st))"

definition in_cksum :: "bool \<Rightarrow> cmbuf list \<Rightarrow> nat \<Rightarrow> nat" where
  "in_cksum be ms len =
     (let st = cksum_loop be ms \<lparr>c_sum = 0, c_byte = 0, c_pending = False, c_len = len\<rparr>;
          s = (if c_pending st then add32 (c_sum st) (short be (c_byte st) 0) else c_sum st)
      in 65535 - REDUCE s)"

section \<open>Ones' complement sums\<close>

text \<open>The words of a byte sequence, the last one filled with 0.\<close>

definition weight :: "bool \<Rightarrow> bool \<Rightarrow> nat" where
  "weight be second = (if be = second then 1 else 256)"

primrec wsum_from :: "bool \<Rightarrow> bool \<Rightarrow> bytes \<Rightarrow> nat" where
  "wsum_from be second [] = 0"
| "wsum_from be second (x # w) = weight be second * unat x + wsum_from be (\<not> second) w"

fun wsum :: "bool \<Rightarrow> bytes \<Rightarrow> nat" where
  "wsum be (a # b # w) = short be a b + wsum be w"
| "wsum be [a] = short be a 0"
| "wsum be [] = 0"

text \<open>The ones' complement sum: 65535 stands for every positive multiple of 65535.\<close>

definition ones :: "nat \<Rightarrow> nat" where
  "ones n = (if n = 0 then 0 else (n - 1) mod 65535 + 1)"

definition same_ones :: "nat \<Rightarrow> nat \<Rightarrow> bool" where
  "same_ones s v \<longleftrightarrow> s mod 65535 = v mod 65535 \<and> (s = 0 \<longleftrightarrow> v = 0)"

lemma same_refl: "same_ones s s"
  by (simp add: same_ones_def)

lemma same_sym: "same_ones s v \<Longrightarrow> same_ones v s"
  by (auto simp: same_ones_def)

lemma same_trans: "same_ones a b \<Longrightarrow> same_ones b c \<Longrightarrow> same_ones a c"
  by (simp add: same_ones_def)

lemma same_add: "same_ones a b \<Longrightarrow> same_ones c d \<Longrightarrow> same_ones (a + c) (b + d)"
  by (auto simp: same_ones_def intro: mod_add_cong)

lemma same_mult: "same_ones a b \<Longrightarrow> 0 < k \<Longrightarrow> same_ones (k * a) (k * b)"
  by (auto simp: same_ones_def intro: mod_mult_cong)

lemma same_65536: "same_ones (65536 * n) n"
proof -
  have "65536 * n = 65535 * n + n" by simp
  then have "(65536 * n) mod 65535 = n mod 65535" by (metis mod_mult_self4)
  then show ?thesis by (simp add: same_ones_def)
qed

lemma same_ADDCARRY: "x \<le> 131070 \<Longrightarrow> same_ones (ADDCARRY x) x"
  by (auto simp: same_ones_def ADDCARRY_def le_mod_geq)

lemma halves_le: "s < 2 ^ 32 \<Longrightarrow> s mod 65536 + s div 65536 \<le> (131070::nat)"
proof -
  assume "s < 2 ^ 32"
  then have "s div 65536 < 65536" by (simp add: less_mult_imp_div_less)
  moreover have "s mod 65536 < 65536" by simp
  ultimately show ?thesis by linarith
qed

lemma same_REDUCE: "s < 2 ^ 32 \<Longrightarrow> same_ones (REDUCE s) s"
proof -
  assume s: "s < 2 ^ 32"
  have "same_ones (s mod 65536 + s div 65536) (s mod 65536 + 65536 * (s div 65536))"
    by (intro same_add same_refl same_sym [OF same_65536])
  then have "same_ones (s mod 65536 + s div 65536) s" by simp
  then show ?thesis unfolding REDUCE_def using same_ADDCARRY [OF halves_le [OF s]] same_trans by blast
qed

lemma REDUCE_le: "s < 2 ^ 32 \<Longrightarrow> REDUCE s \<le> 65535"
  using halves_le [of s] by (auto simp: REDUCE_def ADDCARRY_def)

lemma ones_le: "ones v \<le> 65535"
proof -
  have "(v - 1) mod 65535 < 65535" by simp
  then have "(v - 1) mod 65535 \<le> 65534" by linarith
  then show ?thesis by (simp add: ones_def)
qed

lemma same_ones_ones: "same_ones (ones v) v"
proof (cases v)
  case (Suc k)
  have "(k mod 65535 + 1) mod 65535 = (k + 1) mod 65535" by (rule mod_add_left_eq)
  then show ?thesis by (simp add: same_ones_def ones_def Suc)
qed (simp add: same_ones_def ones_def)

lemma same_small: "same_ones r v \<Longrightarrow> r \<le> 65535 \<Longrightarrow> v \<le> 65535 \<Longrightarrow> r = v"
proof (cases "r = 65535 \<or> v = 65535")
  case True
  assume "same_ones r v" and "r \<le> 65535" and "v \<le> 65535"
  with True show "r = v" by (cases "r = 65535"; cases "v = 65535") (auto simp: same_ones_def)
next
  case False
  assume "same_ones r v" and "r \<le> 65535" and "v \<le> 65535"
  with False show "r = v" by (simp add: same_ones_def)
qed

lemma same_ones_eq: "same_ones r v \<Longrightarrow> r \<le> 65535 \<Longrightarrow> r = ones v"
  using same_small [OF _ _ ones_le] same_trans same_sym [OF same_ones_ones] by blast

section \<open>Sums of words\<close>

lemma wsum_weights: "wsum be w = wsum_from be False w"
  by (induction be w rule: wsum.induct) (auto simp: short_def weight_def)

lemma wsum_from_append [simp]: "wsum_from be p (u @ w) = wsum_from be p u + wsum_from be (p \<noteq> odd (length u)) w"
proof (induction u arbitrary: p)
  case (Cons x u)
  then show ?case by (cases p) auto
qed simp

lemma same_swap: "same_ones (256 * wsum_from be p w) (wsum_from be (\<not> p) w)"
proof (induction w arbitrary: p)
  case (Cons x w)
  have "same_ones (256 * (weight be p * unat x)) (weight be (\<not> p) * unat x)"
    using same_65536 [of "unat x"] by (auto simp: weight_def same_refl)
  then show ?case using same_add [OF _ Cons.IH [of "\<not> p"]] by (simp add: distrib_left)
qed (simp add: same_refl)

lemma short_weights: "short be a b = weight be False * unat a + weight be True * unat b"
  by (simp add: short_def weight_def)

lemma short_le: "short be a b \<le> 65535"
proof -
  have l: "unat x < 256" for x :: u8 using unsigned_less [where w = x and 'a = nat] by simp
  have "unat a < 256" "unat b < 256" by (rule l)+
  then show ?thesis by (auto simp: short_def)
qed

lemma wsum_le: "wsum be w \<le> 65535 * ((length w + 1) div 2)"
proof (induction be w rule: wsum.induct)
  case (1 be a b w)
  then show ?case using short_le [of be a b] by simp
next
  case (2 be a)
  then show ?case using short_le [of be a 0] by simp
qed simp

lemma add_words_wsum:
  "2 * k \<le> length w \<Longrightarrow> s + wsum be w < 2 ^ 32 \<Longrightarrow> add_words be k s w + wsum be (drop (2 * k) w) = s + wsum be w"
proof (induction be k s w rule: add_words.induct)
  case (1 be k s a b w)
  then have "add32 s (short be a b) = s + short be a b" by (simp add: add32_def)
  with 1 show ?case by simp
qed (auto simp: le_Suc_eq)

lemma unrolled_wsum:
  assumes "unrolled be k s w = (s', w')" and "s + wsum be w < 2 ^ 32" and "0 < k"
  shows "s' + wsum be w' = s + wsum be w \<and> length w' < 2 * k \<and> odd (length w') = odd (length w)
         \<and> w' = drop (length w - length w') w \<and> length w' \<le> length w"
  using assms
proof (induction be k s w rule: unrolled.induct)
  case (1 be k s w)
  show ?case
  proof (cases "2 * k \<le> length w")
    case True
    have a: "add_words be k s w + wsum be (drop (2 * k) w) = s + wsum be w" using True "1.prems"(2) by (rule add_words_wsum)
    have u: "unrolled be k (add_words be k s w) (drop (2 * k) w) = (s', w')"
      using "1.prems"(1,3) True by (simp add: unrolled.simps [of be k s w])
    have "s' + wsum be w' = add_words be k s w + wsum be (drop (2 * k) w) \<and> length w' < 2 * k
        \<and> odd (length w') = odd (length (drop (2 * k) w))
        \<and> w' = drop (length (drop (2 * k) w) - length w') (drop (2 * k) w) \<and> length w' \<le> length (drop (2 * k) w)"
      by (rule "1.IH") (use True "1.prems" u a in auto)
    then show ?thesis using a True by (auto simp: add.commute)
  next
    case False
    then show ?thesis using "1.prems" by (auto simp: unrolled.simps [of be k s w])
  qed
qed

section \<open>The sum so far\<close>

text \<open>After the bytes \<open>p\<close>: the sum, with the byte that waits for its second half, is that of their words, and
  there is room for the words of a packet of 65535 bytes.\<close>

definition summed :: "bool \<Rightarrow> bytes \<Rightarrow> cksum \<Rightarrow> bool" where
  "summed be p st \<longleftrightarrow>
     c_pending st = odd (length p)
     \<and> same_ones (c_sum st + (if c_pending st then weight be False * unat (c_byte st) else 0)) (wsum_from be False p)
     \<and> c_sum st \<le> 65535 * (256 + length p div 2)"

text \<open>The three loops of an mbuf.\<close>

lemma loops:
  assumes u: "unrolled be 16 s d = (s4, d4)" "unrolled be 4 s4 d4 = (s5, d5)" and r: "s + wsum be d < 2 ^ 32"
  shows "s5 + wsum be d5 = s + wsum be d" and "length d5 < 8" and "odd (length d5) = odd (length d)"
    and "length d5 \<le> length d"
proof -
  have a: "s4 + wsum be d4 = s + wsum be d \<and> odd (length d4) = odd (length d) \<and> length d4 \<le> length d"
    using unrolled_wsum [OF u(1) r] by simp
  then have "s4 + wsum be d4 < 2 ^ 32" using r by simp
  from unrolled_wsum [OF u(2) this] a
  show "s5 + wsum be d5 = s + wsum be d" and "length d5 < 8" and "odd (length d5) = odd (length d)"
    and "length d5 \<le> length d" by simp_all
qed

lemma last_loop:
  assumes u: "unrolled be 1 (REDUCE s5) d5 = (s6, d6)" and s5: "s5 < 2 ^ 32" and l: "length d5 < 8"
  shows "same_ones (s6 + wsum be d6) (s5 + wsum be d5)" and "s6 \<le> 65535 * 5"
    and "(d6 = [] \<and> even (length d5)) \<or> (\<exists>x. d6 = [x] \<and> odd (length d5))"
proof -
  have w: "wsum be d5 \<le> 65535 * 4"
  proof -
    have "65535 * ((length d5 + 1) div 2) \<le> 65535 * (4::nat)" using l by (intro mult_left_mono) auto
    then show ?thesis using wsum_le [of be d5] by linarith
  qed
  have q: "REDUCE s5 \<le> 65535" using s5 by (rule REDUCE_le)
  then have a: "s6 + wsum be d6 = REDUCE s5 + wsum be d5 \<and> length d6 < 2 \<and> odd (length d6) = odd (length d5)"
    using unrolled_wsum [OF u] w by simp
  then show "s6 \<le> 65535 * 5" using q w by linarith
  show "same_ones (s6 + wsum be d6) (s5 + wsum be d5)"
    using a same_add [OF same_REDUCE [OF s5] same_refl] by simp
  show "(d6 = [] \<and> even (length d5)) \<or> (\<exists>x. d6 = [x] \<and> odd (length d5))"
    using a by (cases d6; cases "tl d6") auto
qed

lemma shl8_REDUCE: "s < 2 ^ 32 \<Longrightarrow> shl8 (REDUCE s) = 256 * REDUCE s \<and> 256 * REDUCE s \<le> 65535 * 256"
  using REDUCE_le [of s] by (simp add: shl8_def)

lemma words_aligned:
  assumes s: "same_ones s (wsum_from be False p)" "even (length p)" "s \<le> 65535 * (256 + length p div 2)"
    and n: "length p + length d \<le> 65535"
  shows "summed be (p @ d) (cksum_words be s False c d len)"
proof -
  obtain s4 d4 s5 d5 s6 d6
    where u: "unrolled be 16 s d = (s4, d4)" "unrolled be 4 s4 d4 = (s5, d5)" "unrolled be 1 (REDUCE s5) d5 = (s6, d6)"
    by (metis surj_pair)
  have w: "wsum be d \<le> 65535 * ((length d + 1) div 2)" by (rule wsum_le)
  have r: "s + wsum be d < 2 ^ 32" using w s(3) n by simp
  note l = loops [OF u(1,2) r]
  have s5: "s5 < 2 ^ 32" using l(1) r by linarith
  note l6 = last_loop [OF u(3) s5 l(2)]
  have v: "same_ones (s + wsum be d) (wsum_from be False (p @ d))"
    using same_add [OF s(1) same_refl] s(2) by (simp add: wsum_weights)
  show ?thesis
  proof (cases "d5 = []")
    case True
    then have "even (length d)" using l(3) by simp
    then have "s5 \<le> 65535 * (256 + length (p @ d) div 2)" using l(1) True w s(2,3) by simp
    with True l(1) v \<open>even (length d)\<close> s(2) u show ?thesis
      by (simp add: summed_def cksum_words_def)
  next
    case False
    have v6: "same_ones (s6 + wsum be d6) (wsum_from be False (p @ d))" using l6(1) l(1) v same_trans by metis
    have b6: "s6 \<le> 65535 * (256 + length (p @ d) div 2)" using l6(2) by simp
    from l6(3) show ?thesis
    proof
      assume "d6 = [] \<and> even (length d5)"
      with v6 b6 False u l(3) s(2) show ?thesis by (simp add: summed_def cksum_words_def)
    next
      assume "\<exists>x. d6 = [x] \<and> odd (length d5)"
      then obtain x where "d6 = [x]" "odd (length d5)" by blast
      with v6 b6 False u l(3) s(2) show ?thesis by (simp add: summed_def cksum_words_def short_weights)
    qed
  qed
qed

lemma words_swapped:
  assumes s: "same_ones s (wsum_from be False p)" "even (length p)" "s \<le> 65535 * (256 + length p div 2)"
    and n: "length p + length (c # d) \<le> 65535"
  shows "summed be (p @ c # d) (cksum_words be s True c0 (c # d) len)"
proof -
  define t where "t = shl8 (REDUCE s)"
  have s32: "s < 2 ^ 32" using s(3) n by simp
  have t: "t = 256 * REDUCE s" "t \<le> 65535 * 256" using shl8_REDUCE [OF s32] by (simp_all add: t_def)
  obtain s4 d4 s5 d5 s6 d6
    where u: "unrolled be 16 t d = (s4, d4)" "unrolled be 4 s4 d4 = (s5, d5)" "unrolled be 1 (REDUCE s5) d5 = (s6, d6)"
    by (metis surj_pair)
  have w: "wsum be d \<le> 65535 * ((length d + 1) div 2)" by (rule wsum_le)
  have r: "t + wsum be d < 2 ^ 32" using w t(2) n by simp
  note l = loops [OF u(1,2) r]
  have s5: "s5 < 2 ^ 32" using l(1) r by linarith
  note l6 = last_loop [OF u(3) s5 l(2)]
  define s7 where "s7 = shl8 (REDUCE s6)"
  have s6: "s6 < 2 ^ 32" using l6(2) by simp
  have s7: "s7 = 256 * REDUCE s6" "s7 \<le> 65535 * 256" using shl8_REDUCE [OF s6] by (simp_all add: s7_def)
  have "same_ones (s6 + wsum be d6) (256 * s + wsum be d)"
    by (rule same_trans [OF l6(1)])
       (use l(1) same_add [OF same_mult [OF same_REDUCE [OF s32], of 256] same_refl, of "wsum be d"] t(1) in simp)
  then have "same_ones (256 * (s6 + wsum be d6)) (65536 * s + 256 * wsum be d)"
    using same_mult [of "s6 + wsum be d6" "256 * s + wsum be d" 256] by (simp add: distrib_left)
  moreover have "same_ones (s7 + wsum_from be True d6) (256 * (s6 + wsum be d6))"
    using same_add [OF same_mult [OF same_REDUCE [OF s6], of 256] same_sym [OF same_swap [of be False d6]]]
    by (simp add: s7 wsum_weights distrib_left)
  moreover have "same_ones (65536 * s + 256 * wsum be d) (wsum_from be False p + wsum_from be True d)"
    using same_add [OF same_trans [OF same_65536 s(1)] same_swap [of be False d]] by (simp add: wsum_weights)
  ultimately have "same_ones (s7 + wsum_from be True d6) (wsum_from be False p + wsum_from be True d)"
    using same_trans by blast
  from same_add [OF this same_refl [of "weight be False * unat c"]]
  have v: "same_ones (s7 + wsum_from be True d6 + weight be False * unat c) (wsum_from be False (p @ c # d))"
    using s(2) by (simp add: ac_simps)
  from l6(3) show ?thesis
  proof
    assume d6: "d6 = [] \<and> even (length d5)"
    then have "cksum_words be s True c0 (c # d) len = \<lparr>c_sum = s7, c_byte = c, c_pending = True, c_len = len\<rparr>"
      using u by (simp add: cksum_words_def t_def [symmetric] s7_def [symmetric])
    with v d6 s7(2) l(3) s(2) show ?thesis by (simp add: summed_def)
  next
    assume "\<exists>x. d6 = [x] \<and> odd (length d5)"
    then obtain x where x: "d6 = [x]" "odd (length d5)" by blast
    have a: "add32 s7 (short be c x) = s7 + short be c x" using s7(2) short_le [of be c x] by (simp add: add32_def)
    then have "cksum_words be s True c0 (c # d) len = \<lparr>c_sum = s7 + short be c x, c_byte = c, c_pending = False, c_len = len\<rparr>"
      using u x by (simp add: cksum_words_def t_def [symmetric] s7_def [symmetric])
    moreover have "0 < length d" using x l(4) by (cases d5) auto
    ultimately show ?thesis using v x s7(2) l(3) s(2) short_le [of be c x]
      by (simp add: summed_def short_weights ac_simps)
  qed
qed

lemma words_summed:
  assumes "same_ones s (wsum_from be False p)" "even (length p)" "s \<le> 65535 * (256 + length p div 2)"
    and "length p + length d \<le> 65535"
  shows "summed be (p @ d) (cksum_words be s oddw c d len)"
proof (cases "oddw \<and> d \<noteq> []")
  case True
  then obtain x w where "d = x # w" by (cases d) auto
  with True assms show ?thesis by (auto intro: words_swapped)
next
  case False
  then have "cksum_words be s oddw c d len = cksum_words be s False c d len" by (auto simp: cksum_words_def)
  then show ?thesis using words_aligned [OF assms] by simp
qed

lemma cksum_words_len [simp]: "c_len (cksum_words be s oddw c d len) = len"
  by (simp add: cksum_words_def Let_def split: prod.split list.split)

lemma first_half_summed:
  assumes s: "summed be p st" and p: "c_pending st" and n: "length p < 65535"
  shows "same_ones (add32 (c_sum st) (short be (c_byte st) x)) (wsum_from be False (p @ [x]))"
    and "even (length (p @ [x]))"
    and "add32 (c_sum st) (short be (c_byte st) x) \<le> 65535 * (256 + length (p @ [x]) div 2)"
proof -
  have o: "odd (length p)" and b: "c_sum st \<le> 65535 * (256 + length p div 2)"
    using s p by (simp_all add: summed_def)
  have a: "add32 (c_sum st) (short be (c_byte st) x) = c_sum st + short be (c_byte st) x"
    using b n short_le [of be "c_byte st" x] by (simp add: add32_def)
  have "same_ones (c_sum st + weight be False * unat (c_byte st)) (wsum_from be False p)"
    using s p by (simp add: summed_def)
  from same_add [OF this same_refl [of "weight be True * unat x"]]
  show "same_ones (add32 (c_sum st) (short be (c_byte st) x)) (wsum_from be False (p @ [x]))"
    unfolding a using o by (simp add: short_weights ac_simps)
  show "even (length (p @ [x]))" using o by simp
  have "Suc (length p) div 2 = Suc (length p div 2)" using o by (auto elim!: oddE)
  then show "add32 (c_sum st) (short be (c_byte st) x) \<le> 65535 * (256 + length (p @ [x]) div 2)"
    using b short_le [of be "c_byte st" x] by (simp add: a)
qed

lemma mbuf_summed:
  assumes s: "summed be p st" and l: "c_len st \<noteq> 0" and n: "length p + c_len st \<le> 65535"
  shows "summed be (p @ take (c_len st) (cdata m)) (cksum_mbuf be m st)"
    and "c_len (cksum_mbuf be m st) = c_len st - length (cdata m)"
proof -
  consider (e) "cdata m = []" | (c) x d where "cdata m = x # d" "c_pending st" | (w) "cdata m \<noteq> []" "\<not> c_pending st"
    by (cases "cdata m") auto
  then have "summed be (p @ take (c_len st) (cdata m)) (cksum_mbuf be m st)
    \<and> c_len (cksum_mbuf be m st) = c_len st - length (cdata m)"
  proof cases
    case e
    then show ?thesis using s by (simp add: cksum_mbuf_def)
  next
    case (c x d)
    have "summed be ((p @ [x]) @ take (c_len st - 1) d)
        (cksum_words be (add32 (c_sum st) (short be (c_byte st) x)) (\<not> at_odd m) (c_byte st) (take (c_len st - 1) d) k)" for k
      by (rule words_summed [OF first_half_summed [OF s c(2)]]) (use n l in auto)
    moreover have "take (c_len st) (x # d) = x # take (c_len st - 1) d" using l by (cases "c_len st") auto
    ultimately show ?thesis using c by (simp add: cksum_mbuf_def first_half_def)
  next
    case w
    have "summed be (p @ take (c_len st) (cdata m))
        (cksum_words be (c_sum st) (at_odd m) (c_byte st) (take (c_len st) (cdata m)) k)" for k
      by (rule words_summed) (use s w n in \<open>auto simp: summed_def\<close>)
    then show ?thesis using w by (simp add: cksum_mbuf_def first_half_def)
  qed
  then show "summed be (p @ take (c_len st) (cdata m)) (cksum_mbuf be m st)"
    and "c_len (cksum_mbuf be m st) = c_len st - length (cdata m)" by blast+
qed

lemma loop_summed:
  "summed be p st \<Longrightarrow> length p + c_len st \<le> 65535 \<Longrightarrow>
   summed be (p @ take (c_len st) (concat (map cdata ms))) (cksum_loop be ms st)"
proof (induction ms arbitrary: p st)
  case (Cons m ms)
  show ?case
  proof (cases "c_len st = 0")
    case False
    note s = mbuf_summed [OF Cons.prems(1) False Cons.prems(2), of m]
    have "summed be ((p @ take (c_len st) (cdata m)) @ take (c_len (cksum_mbuf be m st)) (concat (map cdata ms)))
        (cksum_loop be ms (cksum_mbuf be m st))"
      by (rule Cons.IH) (use s Cons.prems(2) in auto)
    then show ?thesis using False s(2) by simp
  qed (use Cons.prems in simp)
qed simp

section \<open>The checksum\<close>

lemma in_cksum_ones:
  assumes len: "len \<le> 65535"
  shows "in_cksum be ms len = 65535 - ones (wsum be (take len (concat (map cdata ms))))"
proof -
  define st where "st = cksum_loop be ms \<lparr>c_sum = 0, c_byte = 0, c_pending = False, c_len = len\<rparr>"
  define d where "d = take len (concat (map cdata ms))"
  define s where "s = (if c_pending st then add32 (c_sum st) (short be (c_byte st) 0) else c_sum st)"
  have "summed be ([] @ take (c_len \<lparr>c_sum = 0, c_byte = 0, c_pending = False, c_len = len\<rparr>) (concat (map cdata ms))) st"
    unfolding st_def by (rule loop_summed) (use len in \<open>simp_all add: summed_def same_refl\<close>)
  then have "summed be d st" by (simp add: d_def)
  moreover have "length d \<le> 65535" using len by (simp add: d_def)
  ultimately have b: "c_sum st \<le> 65535 * (256 + length d div 2)" "length d div 2 \<le> 32767"
    and v: "same_ones (c_sum st + (if c_pending st then weight be False * unat (c_byte st) else 0)) (wsum be d)"
    by (auto simp: summed_def wsum_weights)
  have "s = c_sum st + (if c_pending st then weight be False * unat (c_byte st) else 0)" and s32: "s < 2 ^ 32"
    using b short_le [of be "c_byte st" 0] by (simp_all add: s_def add32_def short_weights)
  then have "same_ones (REDUCE s) (wsum be d)" using same_trans [OF same_REDUCE [OF s32]] v by simp
  then have "REDUCE s = ones (wsum be d)" using REDUCE_le [OF s32] by (rule same_ones_eq)
  moreover have "in_cksum be ms len = 65535 - REDUCE s" by (simp only: in_cksum_def Let_def st_def s_def)
  ultimately show ?thesis by (simp add: d_def)
qed

text \<open>C13. For at most 65535 bytes the result of \<open>in_cksum\<close> is the Internet checksum of RFC 1071: the complement of
  the ones' complement sum of the bytes taken two by two, an odd last byte filled with 0. It depends
  neither on how the bytes are spread over mbufs, nor on the addresses they lie at, nor on the loop
  unrolling, and the 32 bit sum never overflows.\<close>

theorem in_cksum_rfc1071:
  assumes "len \<le> 65535"
  shows "in_cksum be ms len = 65535 - ones (wsum be (take len (concat (map cdata ms))))"
  using assms by (rule in_cksum_ones)

theorem in_cksum_rfc1071_witness:
  "(7::nat) \<le> 65535 \<and>
   in_cksum True [\<lparr>at_odd = True, cdata = [0x45, 0, 1]\<rparr>, \<lparr>at_odd = False, cdata = [2, 3, 4, 5, 6]\<rparr>] 7
     = 65535 - ones (wsum True [0x45, 0, 1, 2, 3, 4, 5])
   \<and> ones (wsum True [0x45, 0, 1, 2, 3, 4, 5]) = 0x4e06"
  using in_cksum_rfc1071 [of 7 True "[\<lparr>at_odd = True, cdata = [0x45, 0, 1]\<rparr>, \<lparr>at_odd = False, cdata = [2, 3, 4, 5, 6]\<rparr>]"]
  by (simp add: ones_def short_def)

lemma ones_complement: "ones (v + (65535 - ones v)) = 65535"
proof -
  have "same_ones (v + (65535 - ones v)) (ones v + (65535 - ones v))"
    by (rule same_add [OF same_sym [OF same_ones_ones] same_refl])
  then have "same_ones 65535 (v + (65535 - ones v))" using ones_le [of v] same_sym by simp
  then show ?thesis using same_ones_eq [of 65535] by simp
qed

text \<open>C14. A packet verifies: with the checksum of a packet whose checksum field is 0 stored in that field, in the
  byte order of the machine and at an even offset, the checksum of the whole is 0, however sender and
  receiver lay the packet out in mbufs.\<close>

theorem in_cksum_verifies:
  assumes hs: "concat (map cdata ms) = h @ [0, 0] @ t" "even (length h)" "length (h @ [0, 0] @ t) \<le> 65535"
    and ck: "short be a b = in_cksum be ms (length (h @ [0, 0] @ t))"
    and rs: "concat (map cdata ms') = h @ [a, b] @ t"
  shows "in_cksum be ms' (length (h @ [a, b] @ t)) = 0"
proof -
  have "wsum be (h @ [a, b] @ t) = wsum be (h @ [0, 0] @ t) + short be a b"
    using hs(2) by (simp add: wsum_weights short_weights)
  then have "wsum be (h @ [a, b] @ t) = wsum be (h @ [0, 0] @ t) + (65535 - ones (wsum be (h @ [0, 0] @ t)))"
    using ck in_cksum_ones [OF hs(3), of be ms] hs(1) by simp
  moreover have "in_cksum be ms' (length (h @ [a, b] @ t)) = 65535 - ones (wsum be (h @ [a, b] @ t))"
    using in_cksum_ones [of "length (h @ [a, b] @ t)" be ms'] hs(3) rs by simp
  ultimately show ?thesis using ones_complement by simp
qed

theorem in_cksum_verifies_witness:
  "short True 0xb3 0xff = in_cksum True [\<lparr>at_odd = False, cdata = [0x45, 0, 0, 0, 7]\<rparr>] 5
   \<and> in_cksum True [\<lparr>at_odd = True, cdata = [0x45, 0, 0xb3]\<rparr>, \<lparr>at_odd = False, cdata = [0xff, 7]\<rparr>] 5 = 0"
proof -
  have n: "length ([0x45, 0] @ [0, 0] @ [7 :: u8]) = 5" "length ([0x45, 0] @ [0xb3, 0xff] @ [7 :: u8]) = 5" by simp_all
  have ck: "short True 0xb3 0xff = in_cksum True [\<lparr>at_odd = False, cdata = [0x45, 0, 0, 0, 7]\<rparr>] 5"
    using in_cksum_ones [of 5 True "[\<lparr>at_odd = False, cdata = [0x45, 0, 0, 0, 7]\<rparr>]"] by (simp add: ones_def short_def)
  have "in_cksum True [\<lparr>at_odd = True, cdata = [0x45, 0, 0xb3]\<rparr>, \<lparr>at_odd = False, cdata = [0xff, 7]\<rparr>]
      (length ([0x45, 0] @ [0xb3, 0xff] @ [7 :: u8])) = 0"
    by (rule in_cksum_verifies [OF _ _ _ ck [folded n(1)]]) simp_all
  with ck show ?thesis unfolding n by blast
qed

end
