(* ===== verification/Uipc_Mbuf.thy ===== *)
theory Uipc_Mbuf
  imports Ppp_Prelude
begin

text \<open>
  \<open>uipc_mbuf.c\<close>: the operations on chains of mbufs that the protocols use, \<open>m_prepend\<close>, \<open>m_cat\<close>, \<open>m_adj\<close>,
  \<open>m_pullup\<close> and \<open>m_devget\<close>. An mbuf has a cluster of a size, the offset of its data there, the data, and,
  when \<open>M_PKTHDR\<close> is set, the length in its packet header. The pool is a function from the size asked for
  to the cluster it gives. Shown: what each operation does to the bytes of a chain, that no copy leaves
  its cluster, and that \<open>m_pullup\<close> and \<open>m_devget\<close> come to an end.
\<close>

section \<open>Chains\<close>

record mblk =
  b_size :: nat
  b_off :: nat
  b_dat :: bytes
  b_pkt :: "int option"

type_synonym mchain = "mblk list"

definition contents :: "mchain \<Rightarrow> bytes" where
  "contents c = concat (map b_dat c)"

lemma contents_simps [simp]:
  "contents [] = []" "contents (b # c) = b_dat b @ contents c" "contents (c @ d) = contents c @ contents d"
  by (simp_all add: contents_def)

text \<open>The data of an mbuf lies inside its cluster.\<close>

definition blk_ok :: "mblk \<Rightarrow> bool" where
  "blk_ok b \<longleftrightarrow> b_off b + length (b_dat b) \<le> b_size b"

text \<open>\<open>mBufClGet\<close>: a new mbuf at the start of its cluster. The contents of the cluster do not matter: \<open>m_len\<close> is set
  by the callers before the data is read.\<close>

definition mBufClGet :: "(nat \<Rightarrow> nat option) \<Rightarrow> nat \<Rightarrow> mblk option" where
  "mBufClGet pool n = map_option (\<lambda>k. \<lparr>b_size = k, b_off = 0, b_dat = [], b_pkt = None\<rparr>) (pool n)"

text \<open>With \<open>bestFit\<close> the cluster has at least the size asked for.\<close>

definition best_fit :: "(nat \<Rightarrow> nat option) \<Rightarrow> bool" where
  "best_fit pool \<longleftrightarrow> (\<forall>n k. pool n = Some k \<longrightarrow> n \<le> k)"

definition not_empty :: "(nat \<Rightarrow> nat option) \<Rightarrow> bool" where
  "not_empty pool \<longleftrightarrow> (\<forall>n k. pool n = Some k \<longrightarrow> 0 < k)"

definition m_cat :: "mchain \<Rightarrow> mchain \<Rightarrow> mchain" where
  "m_cat m n = m @ n"

text \<open>\<open>m_prepend\<close>: room for \<open>len\<close> bytes in front. \<open>junk\<close> are the bytes that are there, \<open>align\<close> is the macro
  \<open>MH_ALIGN\<close>: the offset for \<open>len\<close> bytes in a cluster.\<close>

definition m_prepend :: "(nat \<Rightarrow> nat option) \<Rightarrow> (nat \<Rightarrow> nat \<Rightarrow> nat) \<Rightarrow> bytes \<Rightarrow> mchain \<Rightarrow> nat \<Rightarrow> mchain option" where
  "m_prepend pool align junk c len =
     (case c of
        [] \<Rightarrow> None
      | m # ms \<Rightarrow>
          (case mBufClGet pool len of
             None \<Rightarrow> None
           | Some mn \<Rightarrow>
               let off = (if len < b_size mn then align (b_size mn) len else b_off mn)
               in Some (mn\<lparr>b_pkt := b_pkt m, b_off := off, b_dat := take len junk\<rparr> # m\<lparr>b_pkt := None\<rparr> # ms)))"

subsection \<open>\<open>m_adj\<close>\<close>

text \<open>From the head: the chain and what is left of \<open>len\<close>.\<close>

primrec trim_head :: "mchain \<Rightarrow> int \<Rightarrow> mchain \<times> int" where
  "trim_head [] len = ([], len)"
| "trim_head (b # c) len =
     (if len \<le> 0 then (b # c, len)
      else if int (length (b_dat b)) \<le> len then
        let (c', l) = trim_head c (len - int (length (b_dat b))) in (b\<lparr>b_dat := []\<rparr> # c', l)
      else (b\<lparr>b_off := b_off b + nat len, b_dat := drop (nat len) (b_dat b)\<rparr> # c, 0))"

text \<open>From the tail: \<open>count\<close> bytes stay.\<close>

primrec keep_count :: "mchain \<Rightarrow> int \<Rightarrow> mchain" where
  "keep_count [] count = []"
| "keep_count (b # c) count =
     (if int (length (b_dat b)) \<ge> count then b\<lparr>b_dat := take (nat count) (b_dat b)\<rparr> # map (b_dat_update (\<lambda>_. [])) c
      else b # keep_count c (count - int (length (b_dat b))))"

definition pkt_len :: "(int \<Rightarrow> int) \<Rightarrow> mchain \<Rightarrow> mchain" where
  "pkt_len f c = (case c of [] \<Rightarrow> [] | b # bs \<Rightarrow> b\<lparr>b_pkt := map_option f (b_pkt b)\<rparr> # bs)"

definition m_adj :: "mchain \<Rightarrow> int \<Rightarrow> mchain" where
  "m_adj mp req_len =
     (if mp = [] then mp
      else if req_len \<ge> 0 then
        let (c, len) = trim_head mp req_len in pkt_len (\<lambda>l. l - (req_len - len)) c
      else
        let len = - req_len; count = sum_list (map (\<lambda>b. int (length (b_dat b))) mp); m = last mp in
        if int (length (b_dat m)) \<ge> len then
          pkt_len (\<lambda>l. l - len) (butlast mp @ [m\<lparr>b_dat := take (nat (int (length (b_dat m)) - len)) (b_dat m)\<rparr>])
        else
          let count = (if count - len < 0 then 0 else count - len)
          in keep_count (pkt_len (\<lambda>_. count) mp) count)"

subsection \<open>\<open>m_pullup\<close>\<close>

text \<open>The loop: \<open>len\<close> bytes still wanted, \<open>space\<close> bytes free behind the data of \<open>m\<close>. The chain is not empty
  when the loop begins.\<close>

partial_function (option) pull :: "int \<Rightarrow> int \<Rightarrow> int \<Rightarrow> mblk \<Rightarrow> mchain \<Rightarrow> (int \<times> mblk \<times> mchain) option" where
  "pull max_protohdr len space m ns =
     (case ns of
        [] \<Rightarrow> Some (len, m, [])
      | n # rest \<Rightarrow>
          let count = min (min (max len max_protohdr) space) (int (length (b_dat n)));
              m' = m\<lparr>b_dat := b_dat m @ take (nat count) (b_dat n)\<rparr>;
              left = drop (nat count) (b_dat n);
              ns' = (if left \<noteq> [] then n\<lparr>b_off := b_off n + nat count, b_dat := left\<rparr> # rest else rest)
          in if len - count > 0 \<and> ns' \<noteq> [] then pull max_protohdr (len - count) (space - count) m' ns'
             else Some (len - count, m', ns'))"

definition free_space :: "mblk \<Rightarrow> int" where
  "free_space m = int (b_size m) - int (b_off m + length (b_dat m))"

text \<open>Outer \<open>None\<close>: the call does not return. Inner \<open>None\<close>: the result is \<open>NULL\<close>, and the chain is freed.\<close>

definition pull_up :: "int \<Rightarrow> int \<Rightarrow> mblk \<Rightarrow> mchain \<Rightarrow> mchain option option" where
  "pull_up max_protohdr len m n =
     map_option (\<lambda>(len', m', n'). if len' > 0 then None else Some (m' # n')) (pull max_protohdr len (free_space m) m n)"

definition m_pullup :: "(nat \<Rightarrow> nat option) \<Rightarrow> int \<Rightarrow> mchain \<Rightarrow> int \<Rightarrow> mchain option option" where
  "m_pullup pool max_protohdr ns len =
     (case ns of
        [] \<Rightarrow> Some None
      | n # rest \<Rightarrow>
          if int (b_off n) + len < int (b_size n) \<and> rest \<noteq> [] then
            if int (length (b_dat n)) \<ge> len then Some (Some ns)
            else pull_up max_protohdr (len - int (length (b_dat n))) n rest
          else
            (case mBufClGet pool (nat len) of
               None \<Rightarrow> Some None
             | Some m \<Rightarrow> pull_up max_protohdr len (m\<lparr>b_pkt := b_pkt n\<rparr>) (n\<lparr>b_pkt := None\<rparr> # rest)))"

subsection \<open>\<open>m_devget\<close>\<close>

text \<open>The bytes of the device, \<open>totlen\<close> in number, are copied to new mbufs; \<open>ch\<close> is the chain \<open>top\<close> so far. With the
  wrong \<open>width\<close> and no \<open>copy\<close> function the routine panics. Here the pool may give smaller clusters.\<close>

datatype devget = Chain mchain | No_mbufs | Panic

definition dev_len :: "nat \<Rightarrow> nat \<Rightarrow> bool \<Rightarrow> nat \<Rightarrow> nat \<Rightarrow> nat \<times> nat" where
  "dev_len max_hdr max_linkhdr is_top totlen sz =
     (if is_top \<and> max_hdr < sz then (max_linkhdr, min (min totlen sz) (sz - max_linkhdr)) else (0, min totlen sz))"

partial_function (option) devget_loop ::
    "(nat \<Rightarrow> nat option) \<Rightarrow> nat \<Rightarrow> nat \<Rightarrow> bool \<Rightarrow> (bytes \<Rightarrow> bytes) \<Rightarrow> mchain \<Rightarrow> bytes \<Rightarrow> devget option" where
  "devget_loop pool max_hdr max_linkhdr width_ok copy ch cp =
     (if cp = [] then Some (Chain ch)
      else case mBufClGet pool (length cp) of
        None \<Rightarrow> Some No_mbufs
      | Some m \<Rightarrow>
          let (off, len) = dev_len max_hdr max_linkhdr (ch = []) (length cp) (b_size m);
              pkt = (if ch = [] then Some (int (length cp)) else None)
          in if \<not> width_ok then Some Panic
             else devget_loop pool max_hdr max_linkhdr width_ok copy
               (ch @ [m\<lparr>b_off := off, b_dat := copy (take len cp), b_pkt := pkt\<rparr>]) (drop len cp))"

definition m_devget ::
    "(nat \<Rightarrow> nat option) \<Rightarrow> nat \<Rightarrow> nat \<Rightarrow> int \<Rightarrow> int \<Rightarrow> (bytes \<Rightarrow> bytes) option \<Rightarrow> bytes \<Rightarrow> devget option" where
  "m_devget pool max_hdr max_linkhdr none width copy buf =
     (case copy of
        Some f \<Rightarrow> devget_loop pool max_hdr max_linkhdr True f [] buf
      | None \<Rightarrow> devget_loop pool max_hdr max_linkhdr (width \<in> {none, 1, 2, 4}) (\<lambda>d. d) [] buf)"

section \<open>What the operations do to the bytes\<close>

text \<open>The length in the packet header is that of the chain.\<close>

definition chain_ok :: "mchain \<Rightarrow> bool" where
  "chain_ok c \<longleftrightarrow> list_all blk_ok c \<and> (c \<noteq> [] \<longrightarrow> b_pkt (hd c) \<in> {None, Some (int (length (contents c)))})"

lemma pkt_len_simps [simp]:
  "contents (pkt_len f c) = contents c" "list_all blk_ok (pkt_len f c) = list_all blk_ok c"
  "pkt_len f c = [] \<longleftrightarrow> c = []" "length (pkt_len f c) = length c"
  by (auto simp: pkt_len_def blk_ok_def split: list.split)

lemma pkt_len_hd: "c \<noteq> [] \<Longrightarrow> b_pkt (hd (pkt_len f c)) = map_option f (b_pkt (hd c))"
  by (auto simp: pkt_len_def split: list.split)

lemma trim_head_len: "0 \<le> k \<Longrightarrow> snd (trim_head c k) = max 0 (k - int (length (contents c)))"
  by (induction c arbitrary: k) (auto simp: Let_def split_beta)

lemma trim_head_contents: "contents (fst (trim_head c k)) = drop (nat k) (contents c)"
  by (induction c arbitrary: k) (auto simp: Let_def split_beta nat_diff_distrib)

lemma trim_head_keeps:
  "list_all blk_ok c \<Longrightarrow> list_all blk_ok (fst (trim_head c k)) \<and> length (fst (trim_head c k)) = length c
     \<and> map b_pkt (fst (trim_head c k)) = map b_pkt c"
proof (induction c arbitrary: k)
  case (Cons b c)
  then show ?case using Cons.IH [of "k - int (length (b_dat b))"]
    by (auto simp: blk_ok_def split_beta)
qed simp

lemma keep_count_contents: "0 \<le> k \<Longrightarrow> contents (keep_count c k) = take (nat k) (contents c)"
proof (induction c arbitrary: k)
  case (Cons b c)
  have "contents (map (b_dat_update (\<lambda>_. [])) c) = []" by (induction c) auto
  with Cons show ?case by (auto simp: nat_diff_distrib)
qed simp

lemma keep_count_keeps:
  "list_all blk_ok c \<Longrightarrow> list_all blk_ok (keep_count c k) \<and> length (keep_count c k) = length c \<and> map b_pkt (keep_count c k) = map b_pkt c"
proof (induction c arbitrary: k)
  case (Cons b c)
  have e: "list_all blk_ok (map (b_dat_update (\<lambda>_. [])) c)" using Cons.prems by (auto simp: list_all_iff blk_ok_def)
  show ?case using Cons e by (auto simp: comp_def list_all_iff) (auto simp: blk_ok_def)
qed simp

lemma sum_lengths: "sum_list (map (\<lambda>b. int (length (b_dat b))) c) = int (length (contents c))"
  by (induction c) auto

lemma m_adj_contents:
  "contents (m_adj c k) = (if k \<ge> 0 then drop (nat k) (contents c) else take (nat (int (length (contents c)) + k)) (contents c))"
proof (cases "c = [] \<or> k \<ge> 0")
  case True
  then show ?thesis by (auto simp: m_adj_def Let_def trim_head_contents split_beta)
next
  case False
  then obtain bs b where c: "c = bs @ [b]" by (metis rev_exhaust)
  show ?thesis
  proof (cases "int (length (b_dat b)) \<ge> - k")
    case True
    then have "nat (int (length (contents c)) + k) = length (contents bs) + nat (int (length (b_dat b)) + k)" using c by simp
    then show ?thesis using True False c by (simp add: m_adj_def Let_def take_append)
  next
    case l: False
    then show ?thesis using False c by (auto simp: m_adj_def Let_def sum_lengths keep_count_contents take_append nat_diff_distrib)
  qed
qed

lemma m_adj_nil [simp]: "m_adj c k = [] \<longleftrightarrow> c = []" "m_adj [] k = []"
proof -
  have "trim_head c k = ([], l) \<Longrightarrow> c = []" for l by (cases c) (auto simp: split_beta split: if_splits)
  moreover have "keep_count d n = [] \<longleftrightarrow> d = []" for d n by (cases d) auto
  ultimately show "m_adj c k = [] \<longleftrightarrow> c = []" "m_adj [] k = []"
    by (auto simp: m_adj_def Let_def split_beta) (metis prod.collapse)
qed

lemma hd_map_eq: "map f c = map f d \<Longrightarrow> c \<noteq> [] \<Longrightarrow> f (hd d) = f (hd c)"
  by (cases c; cases d) auto

lemma m_adj_ok:
  assumes "chain_ok c"
  shows "chain_ok (m_adj c k)"
proof (cases "c = []")
  case False
  have b: "list_all blk_ok c" and p: "b_pkt (hd c) \<in> {None, Some (int (length (contents c)))}"
    using assms False by (auto simp: chain_ok_def)
  have l: "b_pkt (hd (m_adj c k)) \<in> {None, Some (int (length (contents (m_adj c k))))} \<and> list_all blk_ok (m_adj c k)"
  proof (cases "k \<ge> 0")
    case True
    note t = trim_head_keeps [OF b, of k]
    have "fst (trim_head c k) \<noteq> []" using t False by auto
    moreover have "b_pkt (hd (fst (trim_head c k))) = b_pkt (hd c)" using t False by (metis hd_map_eq)
    ultimately show ?thesis using True False p t trim_head_len [OF True, of c]
      by (auto simp: m_adj_def Let_def split_beta pkt_len_hd trim_head_contents)
  next
    case neg: False
    obtain bs b' where c: "c = bs @ [b']" using False by (metis rev_exhaust)
    show ?thesis
    proof (cases "int (length (b_dat b')) \<ge> - k")
      case True
      have "b_pkt (hd (bs @ [b'\<lparr>b_dat := take (nat (int (length (b_dat b')) + k)) (b_dat b')\<rparr>])) = b_pkt (hd c)"
        using c by (cases bs) auto
      then show ?thesis using True neg c p b by (auto simp: m_adj_def Let_def pkt_len_hd blk_ok_def)
    next
      case l: False
      define n where "n = (if int (length (contents c)) + k < 0 then 0 else int (length (contents c)) + k)"
      have m: "m_adj c k = keep_count (pkt_len (\<lambda>_. n) c) n" using l neg c by (simp add: m_adj_def Let_def sum_lengths n_def)
      have q: "list_all blk_ok (keep_count (pkt_len (\<lambda>_. n) c) n)"
        "map b_pkt (keep_count (pkt_len (\<lambda>_. n) c) n) = map b_pkt (pkt_len (\<lambda>_. n) c)"
        using keep_count_keeps [of "pkt_len (\<lambda>_. n) c" n] b by simp_all
      have "b_pkt (hd (m_adj c k)) = map_option (\<lambda>_. n) (b_pkt (hd c))"
        using q(2) False m by (metis hd_map_eq pkt_len_hd pkt_len_simps(3) map_is_Nil_conv)
      moreover have "int (length (contents (m_adj c k))) = n" using neg by (auto simp: m_adj_contents n_def)
      ultimately show ?thesis using q(1) m by (cases "b_pkt (hd c)") auto
    qed
  qed
  then show ?thesis by (auto simp: chain_ok_def)
qed (simp add: chain_ok_def)

text \<open>The loop of \<open>m_pullup\<close>, when there is room for the bytes wanted: it returns, moves bytes from the chain to \<open>m\<close>
  without leaving the cluster, and stops only with enough bytes or without a chain.\<close>

lemma pull_moves:
  assumes "0 < len" and "len \<le> space" and "list_all blk_ok ns"
  shows "\<exists>len' d ns'. pull mp len space m ns = Some (len', m\<lparr>b_dat := b_dat m @ d\<rparr>, ns') \<and>
    d @ contents ns' = contents ns \<and> len' = len - int (length d) \<and> int (length d) \<le> space \<and>
    (len' \<le> 0 \<or> ns' = []) \<and> list_all blk_ok ns'"
  using assms
proof (induction ns arbitrary: len space m)
  case Nil
  have "pull mp len space m [] = Some (len, m\<lparr>b_dat := b_dat m @ []\<rparr>, [])" by (subst pull.simps) simp
  with Nil show ?case by (intro exI [of _ len] exI [of _ "[]"]) auto
next
  case (Cons n rest)
  define count where "count = min (min (max len mp) space) (int (length (b_dat n)))"
  define t where "t = take (nat count) (b_dat n)"
  define left where "left = drop (nat count) (b_dat n)"
  define ns' where "ns' = (if left \<noteq> [] then n\<lparr>b_off := b_off n + nat count, b_dat := left\<rparr> # rest else rest)"
  have c: "0 \<le> count" "count \<le> int (length (b_dat n))" "count \<le> space" using Cons.prems by (auto simp: count_def)
  have lt: "int (length t) = count" using c by (simp add: t_def)
  have ok: "list_all blk_ok ns'" using Cons.prems(3) c by (auto simp: ns'_def left_def) (auto simp: blk_ok_def)
  have con: "t @ contents ns' = contents (n # rest)"
    by (cases "left = []") (simp_all add: t_def ns'_def left_def)
  have step: "pull mp len space m (n # rest) =
      (if len - count > 0 \<and> ns' \<noteq> [] then pull mp (len - count) (space - count) (m\<lparr>b_dat := b_dat m @ t\<rparr>) ns'
       else Some (len - count, m\<lparr>b_dat := b_dat m @ t\<rparr>, ns'))"
    unfolding count_def t_def left_def ns'_def by (subst pull.simps) (simp only: Let_def list.case)
  show ?case
  proof (cases "len - count > 0 \<and> ns' \<noteq> []")
    case True
    then have "count = int (length (b_dat n))" using Cons.prems by (auto simp: count_def)
    then have ns: "ns' = rest" by (simp add: ns'_def left_def)
    have "0 < len - count" "len - count \<le> space - count" "list_all blk_ok rest" using True Cons.prems by auto
    from Cons.IH [OF this, of "m\<lparr>b_dat := b_dat m @ t\<rparr>"] obtain len' d ns2 where
      p: "pull mp (len - count) (space - count) (m\<lparr>b_dat := b_dat m @ t\<rparr>) rest = Some (len', m\<lparr>b_dat := b_dat m @ t @ d\<rparr>, ns2)"
      and q: "d @ contents ns2 = contents rest" "len' = len - count - int (length d)" "int (length d) \<le> space - count"
        "len' \<le> 0 \<or> ns2 = []" "list_all blk_ok ns2"
      by (auto simp: append_assoc)
    have "pull mp len space m (n # rest) = Some (len', m\<lparr>b_dat := b_dat m @ t @ d\<rparr>, ns2)" unfolding step if_P [OF True] unfolding ns by (rule p)
    moreover have "(t @ d) @ contents ns2 = contents (n # rest)" using q(1) con ns by simp
    moreover have "len' = len - int (length (t @ d))" "int (length (t @ d)) \<le> space" using q(2,3) lt by simp_all
    ultimately show ?thesis using q(4,5) by blast
  next
    case False
    then have "pull mp len space m (n # rest) = Some (len - count, m\<lparr>b_dat := b_dat m @ t\<rparr>, ns')"
      unfolding step by (rule if_not_P)
    moreover have "len - count = len - int (length t)" "int (length t) \<le> space" using lt c by simp_all
    moreover have "len - count \<le> 0 \<or> ns' = []" using False by linarith
    ultimately show ?thesis using con ok by blast
  qed
qed

lemma pull_up_moves:
  assumes len: "0 < len" "len \<le> free_space m" and ok: "list_all blk_ok ns" "blk_ok m"
  shows "\<exists>r. pull_up mp len m ns = Some r \<and>
    (case r of
       None \<Rightarrow> int (length (contents ns)) < len
     | Some c \<Rightarrow> contents c = b_dat m @ contents ns \<and> list_all blk_ok c \<and> c \<noteq> [] \<and> b_pkt (hd c) = b_pkt m \<and>
         int (length (b_dat (hd c))) \<ge> int (length (b_dat m)) + len)"
proof -
  from pull_moves [OF len ok(1), of mp m] obtain len' d ns' where
    p: "pull mp len (free_space m) m ns = Some (len', m\<lparr>b_dat := b_dat m @ d\<rparr>, ns')"
    and q: "d @ contents ns' = contents ns" "len' = len - int (length d)" "int (length d) \<le> free_space m"
      "len' \<le> 0 \<or> ns' = []" "list_all blk_ok ns'"
    by blast
  show ?thesis
  proof (cases "len' > 0")
    case True
    then have "int (length (contents ns)) < len" using q by auto
    with True p show ?thesis by (simp add: pull_up_def)
  next
    case False
    have "blk_ok (m\<lparr>b_dat := b_dat m @ d\<rparr>)" using q(3) by (simp add: blk_ok_def free_space_def)
    with False p q show ?thesis by (simp add: pull_up_def)
  qed
qed

text \<open>C6. \<open>m_pullup\<close> on a proper chain always returns. The result has the same bytes, packet header and all mbufs inside
  their clusters, and the first \<open>len\<close> bytes lie in the first mbuf; \<open>NULL\<close> is returned only when the chain is
  shorter than \<open>len\<close> or the pool has no cluster.\<close>

theorem m_pullup_contiguous:
  assumes ok: "chain_ok c" "c \<noteq> []" and len: "0 < len" and pool: "best_fit pool"
  shows "\<exists>r. m_pullup pool mp c len = Some r \<and>
    (case r of
       None \<Rightarrow> int (length (contents c)) < len \<or> pool (nat len) = None
     | Some c' \<Rightarrow> contents c' = contents c \<and> chain_ok c' \<and> c' \<noteq> [] \<and> b_pkt (hd c') = b_pkt (hd c) \<and>
         len \<le> int (length (b_dat (hd c'))))"
proof -
  obtain n rest where c: "c = n # rest" using ok(2) by (cases c) auto
  have b: "blk_ok n" "list_all blk_ok rest" "b_pkt n \<in> {None, Some (int (length (contents c)))}" using ok c by (auto simp: chain_ok_def)
  consider (enough) "int (b_off n) + len < int (b_size n) \<and> rest \<noteq> []" "int (length (b_dat n)) \<ge> len"
    | (more) "int (b_off n) + len < int (b_size n) \<and> rest \<noteq> []" "int (length (b_dat n)) < len"
    | (copy) "\<not> (int (b_off n) + len < int (b_size n) \<and> rest \<noteq> [])" by linarith
  then show ?thesis
  proof cases
    case enough
    then show ?thesis using c ok by (simp add: m_pullup_def)
  next
    case more
    have "0 < len - int (length (b_dat n))" "len - int (length (b_dat n)) \<le> free_space n" using more by (auto simp: free_space_def)
    from pull_up_moves [OF this b(2,1), of mp] obtain r where
      r: "pull_up mp (len - int (length (b_dat n))) n rest = Some r" and
      v: "case r of None \<Rightarrow> int (length (contents rest)) < len - int (length (b_dat n))
        | Some c' \<Rightarrow> contents c' = b_dat n @ contents rest \<and> list_all blk_ok c' \<and> c' \<noteq> [] \<and> b_pkt (hd c') = b_pkt n \<and>
            int (length (b_dat (hd c'))) \<ge> int (length (b_dat n)) + (len - int (length (b_dat n)))" by blast
    have "m_pullup pool mp c len = Some r" using more r c by (simp add: m_pullup_def)
    then show ?thesis using v b(3) c by (cases r) (auto simp: chain_ok_def)
  next
    case copy
    show ?thesis
    proof (cases "pool (nat len)")
      case None
      then have "m_pullup pool mp c len = Some None" using copy c by (auto simp: m_pullup_def mBufClGet_def)
      then show ?thesis using None by simp
    next
      case (Some k)
      define m where "m = \<lparr>b_size = k, b_off = 0, b_dat = [], b_pkt = b_pkt n\<rparr>"
      have "nat len \<le> k" using pool Some by (auto simp: best_fit_def)
      then have f: "len \<le> free_space m" "blk_ok m" using len by (auto simp: free_space_def m_def blk_ok_def)
      have "list_all blk_ok (n\<lparr>b_pkt := None\<rparr> # rest)" using b by (simp add: blk_ok_def)
      from pull_up_moves [OF len f(1) this f(2), of mp] obtain r where
        r: "pull_up mp len m (n\<lparr>b_pkt := None\<rparr> # rest) = Some r" and
        v: "case r of None \<Rightarrow> int (length (contents (n\<lparr>b_pkt := None\<rparr> # rest))) < len
          | Some c' \<Rightarrow> contents c' = b_dat m @ contents (n\<lparr>b_pkt := None\<rparr> # rest) \<and> list_all blk_ok c' \<and> c' \<noteq> [] \<and>
              b_pkt (hd c') = b_pkt m \<and> int (length (b_dat (hd c'))) \<ge> int (length (b_dat m)) + len" by blast
      have "m_pullup pool mp c len = Some r" using copy Some r c by (auto simp: m_pullup_def mBufClGet_def m_def)
      then show ?thesis using v b(3) c by (cases r) (auto simp: chain_ok_def m_def)
    qed
  qed
qed

theorem m_pullup_contiguous_witness:
  "\<exists>r. m_pullup Some 40 [\<lparr>b_size = 4, b_off = 1, b_dat = [1, 2, 3], b_pkt = Some 5\<rparr>, \<lparr>b_size = 4, b_off = 0, b_dat = [4, 5], b_pkt = None\<rparr>] 4 = Some r \<and>
    (case r of
       None \<Rightarrow> False
     | Some c' \<Rightarrow> contents c' = [1, 2, 3, 4, 5] \<and> 4 \<le> length (b_dat (hd c')))"
proof -
  let ?c = "[\<lparr>b_size = 4, b_off = 1, b_dat = [1, 2, 3], b_pkt = Some 5\<rparr>, \<lparr>b_size = 4, b_off = 0, b_dat = [4, 5], b_pkt = None\<rparr>] :: mchain"
  have "chain_ok ?c" "?c \<noteq> []" "(0::int) < 4" "best_fit Some"
    by (simp_all add: chain_ok_def blk_ok_def best_fit_def)
  from m_pullup_contiguous [OF this, of 40] show ?thesis by (auto split: option.splits)
qed

text \<open>The loop of \<open>m_devget\<close>.\<close>

lemma devget_loop_copies:
  assumes pool: "not_empty pool" and hdr: "max_linkhdr \<le> max_hdr"
  shows "devget_loop pool max_hdr max_linkhdr True (\<lambda>d. d) ch cp = Some No_mbufs \<and> (\<exists>n. pool n = None) \<or>
    (\<exists>c. devget_loop pool max_hdr max_linkhdr True (\<lambda>d. d) ch cp = Some (Chain (ch @ c)) \<and> contents c = cp \<and> list_all blk_ok c
      \<and> (ch = [] \<and> cp \<noteq> [] \<longrightarrow> b_pkt (hd c) = Some (int (length cp))) \<and> (cp \<noteq> [] \<longrightarrow> c \<noteq> []))"
    (is "?P ch cp")
proof (induction "length cp" arbitrary: ch cp rule: less_induct)
  case less
  show ?case
  proof (cases "cp = [] \<or> pool (length cp) = None")
    case True
    then show ?thesis by (subst (1 2) devget_loop.simps) (auto simp: mBufClGet_def)
  next
    case False
    then obtain k where k: "pool (length cp) = Some k" by auto
    obtain off len where ol: "dev_len max_hdr max_linkhdr (ch = []) (length cp) k = (off, len)" by force
    define m where "m = \<lparr>b_size = k, b_off = off, b_dat = take len cp, b_pkt = if ch = [] then Some (int (length cp)) else None\<rparr>"
    have l: "0 < len" "len \<le> length cp" "off + len \<le> k"
      using ol pool k hdr False by (auto simp: dev_len_def not_empty_def split: if_splits)
    have step: "devget_loop pool max_hdr max_linkhdr True (\<lambda>d. d) ch cp =
        devget_loop pool max_hdr max_linkhdr True (\<lambda>d. d) (ch @ [m]) (drop len cp)"
      using False k ol by (subst devget_loop.simps) (simp add: mBufClGet_def m_def Let_def)
    have "?P (ch @ [m]) (drop len cp)" using l False by (intro less) simp
    then show ?thesis
    proof
      assume "\<exists>c. devget_loop pool max_hdr max_linkhdr True (\<lambda>d. d) (ch @ [m]) (drop len cp) = Some (Chain ((ch @ [m]) @ c))
        \<and> contents c = drop len cp \<and> list_all blk_ok c
        \<and> (ch @ [m] = [] \<and> drop len cp \<noteq> [] \<longrightarrow> b_pkt (hd c) = Some (int (length (drop len cp)))) \<and> (drop len cp \<noteq> [] \<longrightarrow> c \<noteq> [])"
      then obtain c where c: "devget_loop pool max_hdr max_linkhdr True (\<lambda>d. d) (ch @ [m]) (drop len cp) = Some (Chain (ch @ m # c))"
        "contents c = drop len cp" "list_all blk_ok c" by auto
      have "blk_ok m" using l by (simp add: blk_ok_def m_def)
      with c step show ?thesis by (intro disjI2 exI [of _ "m # c"]) (auto simp: m_def)
    qed (simp add: step)
  qed
qed

text \<open>With a pool whose clusters are not empty, \<open>m_devget\<close> (without a copy function of the driver, and with a proper
  width) returns: either the chain holds exactly the bytes of the device, its header says how many, and each
  mbuf stays inside its cluster, or the pool ran out.\<close>

theorem m_devget_copies:
  assumes "not_empty pool" and "max_linkhdr \<le> max_hdr" and "width \<in> {none, 1, 2, 4}" and "buf \<noteq> []"
  shows "(m_devget pool max_hdr max_linkhdr none width None buf = Some No_mbufs \<and> (\<exists>n. pool n = None)) \<or>
    (\<exists>c. m_devget pool max_hdr max_linkhdr none width None buf = Some (Chain c) \<and> contents c = buf \<and> chain_ok c
      \<and> b_pkt (hd c) = Some (int (length buf)))"
  using devget_loop_copies [OF assms(1,2), of "[]" buf] assms(3,4)
  by (auto simp: m_devget_def chain_ok_def)

theorem m_devget_copies_witness:
  "\<exists>c. m_devget (\<lambda>n. Some 64) 56 16 0 2 None (replicate 100 (7 :: u8)) = Some (Chain c) \<and> contents c = replicate 100 7
     \<and> b_pkt (hd c) = Some 100"
proof -
  have "not_empty (\<lambda>n. Some 64)" "(16::nat) \<le> 56" "(2::int) \<in> {0, 1, 2, 4}" "replicate 100 (7 :: u8) \<noteq> []"
    by (auto simp: not_empty_def)
  from m_devget_copies [OF this] show ?thesis by auto
qed

text \<open>C7. \<open>m_adj\<close> removes bytes from the head of a chain, or for a negative argument from its tail, all of them when
  there are fewer; the length in the packet header and the bounds of the clusters stay right.\<close>

theorem m_adj_trims:
  assumes "chain_ok c"
  shows "contents (m_adj c k) = (if k \<ge> 0 then drop (nat k) (contents c) else take (nat (int (length (contents c)) + k)) (contents c))
    \<and> chain_ok (m_adj c k)"
  using m_adj_contents m_adj_ok [OF assms] by blast

theorem m_adj_trims_witness:
  "contents (m_adj [\<lparr>b_size = 4, b_off = 1, b_dat = [1, 2, 3], b_pkt = Some 5\<rparr>, \<lparr>b_size = 4, b_off = 0, b_dat = [4, 5], b_pkt = None\<rparr>] (- 3)) = [1, 2]
   \<and> chain_ok (m_adj [\<lparr>b_size = 4, b_off = 1, b_dat = [1, 2, 3], b_pkt = Some 5\<rparr>, \<lparr>b_size = 4, b_off = 0, b_dat = [4, 5], b_pkt = None\<rparr>] (- 3))"
proof -
  let ?c = "[\<lparr>b_size = 4, b_off = 1, b_dat = [1, 2, 3], b_pkt = Some 5\<rparr>, \<lparr>b_size = 4, b_off = 0, b_dat = [4, 5], b_pkt = None\<rparr>] :: mchain"
  have "chain_ok ?c" by (simp add: chain_ok_def blk_ok_def)
  note m = m_adj_trims [OF this, of "- 3"]
  from m have "contents (m_adj ?c (- 3)) = [1, 2]" by simp
  with m show ?thesis by blast
qed

end
