(* ===== verification/Ip_Reass.thy ===== *)
theory Ip_Reass
  imports Uipc_Mbuf
begin

text \<open>
  \<open>ip_input.c\<close>: fragments of IP datagrams. The part of \<open>ipintr\<close> at the label \<open>ours\<close>, \<open>ipReAssemble\<close>, \<open>ip_freef\<close>,
  \<open>ip_slowtimo\<close> and \<open>ip_drain\<close>. The list \<open>ipq\<close> has one entry for each datagram that is being put together; an entry
  has its fragments by offset. The header of a fragment is overlaid with \<open>struct ipasfrag\<close>: its members
  are fields of the fragment here. Shown: fragments of a datagram that arrive in any order, overlapping or
  repeated, and mixed with those of other datagrams give back the datagram when, and only when,
  they cover it.
\<close>

section \<open>The program\<close>

text \<open>What names a datagram: \<open>ip_id\<close>, \<open>ip_src\<close>, \<open>ip_dst\<close>, \<open>ip_p\<close>.\<close>

type_synonym dkey = "u16 \<times> u32 \<times> u32 \<times> u8"

record ipfrag =
  f_key :: dkey
  f_hl :: nat
  f_off :: u16
  f_len :: u16
  f_mff :: bool
  f_mb :: mchain

record ipq =
  q_ttl :: u8
  q_key :: dkey
  q_frags :: "ipfrag list"

record ipstate =
  ipqs :: "ipq list"
  ips_fragments :: nat
  ips_reassembled :: nat
  ips_fragdropped :: nat
  ips_fragtimeout :: nat
  ips_delivered :: nat

text \<open>The value of \<open>ip_len\<close> or \<open>ip_off\<close>. Whether the members are \<open>short\<close> or \<open>u_short\<close> is said in a header that is not in
  the repository; \<open>sv\<close> tells that they are signed. A cast to \<open>USHORT\<close> is \<open>unat\<close>.\<close>

definition ival :: "bool \<Rightarrow> u16 \<Rightarrow> int" where
  "ival sv w = (if sv then sint w else int (unat w))"

text \<open>End of a fragment.\<close>

definition fend :: "bool \<Rightarrow> ipfrag \<Rightarrow> int" where
  "fend sv f = int (unat (f_off f)) + ival sv (f_len f)"

definition trim_tail :: "int \<Rightarrow> ipfrag \<Rightarrow> ipfrag" where
  "trim_tail len f = f\<lparr>f_len := f_len f - word_of_int len, f_mb := m_adj (f_mb f) (- len)\<rparr>"

text \<open>The new fragment \<open>n\<close> in front of \<open>fs\<close>, whose offsets are not smaller: the fragments it covers are dropped, and it
  is cut where the next one begins (there \<open>ip_off\<close> is used without the cast).\<close>

definition put_before :: "bool \<Rightarrow> ipfrag \<Rightarrow> ipfrag list \<Rightarrow> ipfrag list" where
  "put_before sv n fs =
     (case dropWhile (\<lambda>f. fend sv n \<ge> fend sv f) fs of
        [] \<Rightarrow> [n]
      | f # fs' \<Rightarrow>
          let len = fend sv n - ival sv (f_off f)
          in (if len > 0 then trim_tail len n else n) # f # fs')"

text \<open>The search for the place of \<open>n\<close>. The result tells whether it was inserted; if not it is dropped.\<close>

fun place :: "bool \<Rightarrow> ipfrag \<Rightarrow> ipfrag list \<Rightarrow> bool \<times> ipfrag list" where
  "place sv n [] = (True, [])"
| "place sv n (f # fs) =
     (if unat (f_off n) > unat (f_off f) then
        let len = fend sv f - int (unat (f_off n)) in
        if len > 0 \<and> len \<ge> ival sv (f_len n) then (False, f # fs)
        else
          let f' = (if len > 0 then trim_tail len f else f) in
          if fs = [] then (True, [f', n])
          else let (ins, fs') = place sv n fs in (ins, f' # fs')
      else (True, put_before sv n (f # fs)))"

text \<open>\<open>ipChkReAssembly\<close>: the length when there is no gap.\<close>

fun gather :: "bool \<Rightarrow> int \<Rightarrow> ipfrag list \<Rightarrow> int option" where
  "gather sv len [] = Some len"
| "gather sv len (f # fs) = (if int (unat (f_off f)) \<noteq> len then None else gather sv (len + ival sv (f_len f)) fs)"

definition strip_hdr :: "ipfrag \<Rightarrow> mchain" where
  "strip_hdr f =
     (case f_mb f of
        [] \<Rightarrow> []
      | b # bs \<Rightarrow> b\<lparr>b_off := b_off b + 4 * f_hl f, b_dat := drop (4 * f_hl f) (b_dat b)\<rparr> # bs)"

primrec cat_all :: "mchain \<Rightarrow> ipfrag list \<Rightarrow> mchain" where
  "cat_all m [] = m"
| "cat_all m (f # fs) = cat_all (m_cat m (strip_hdr f)) fs"

definition join :: "int \<Rightarrow> ipfrag list \<Rightarrow> ipfrag" where
  "join len fs =
     (let f = hd fs; m = cat_all (f_mb f) (tl fs);
          total = sum_list (map (\<lambda>b. int (length (b_dat b))) m)
      in f\<lparr>f_len := word_of_int len, f_mff := False, f_mb := pkt_len (\<lambda>_. total) m\<rparr>)"

definition chk_reassembly :: "bool \<Rightarrow> ipfrag list \<Rightarrow> ipfrag option" where
  "chk_reassembly sv fs =
     (case gather sv 0 fs of
        None \<Rightarrow> None
      | Some len \<Rightarrow> if f_mff (last fs) then None else Some (join len fs))"

text \<open>The queue of the datagram is \<open>q\<close>, if there is one, in the list \<open>before @ q # after\<close>; a new one goes to the front.
  \<open>pool\<close> tells whether there is an mbuf for it, \<open>ttl\<close> is \<open>ipfragttl\<close>.\<close>

fun split_queue :: "dkey \<Rightarrow> ipq list \<Rightarrow> (ipq list \<times> ipq \<times> ipq list) option" where
  "split_queue k [] = None"
| "split_queue k (q # qs) =
     (if k = q_key q then Some ([], q, qs)
      else map_option (\<lambda>(a, p, b). (q # a, p, b)) (split_queue k qs))"

definition drop_frag :: "ipstate \<Rightarrow> ipstate" where
  "drop_frag s = s\<lparr>ips_fragdropped := ips_fragdropped s + 1\<rparr>"

definition ipReAssemble ::
    "bool \<Rightarrow> bool \<Rightarrow> u8 \<Rightarrow> ipfrag \<Rightarrow> (ipq list \<times> ipq \<times> ipq list) option \<Rightarrow> ipstate \<Rightarrow> ipfrag option \<times> ipstate" where
  "ipReAssemble sv pool ttl n found s =
     (case found of
        None \<Rightarrow>
          if \<not> pool then (None, drop_frag s)
          else (case chk_reassembly sv [n] of
                  None \<Rightarrow> (None, s\<lparr>ipqs := \<lparr>q_ttl = ttl, q_key = f_key n, q_frags = [n]\<rparr> # ipqs s\<rparr>)
                | Some r \<Rightarrow> (Some r, s))
      | Some (a, q, b) \<Rightarrow>
          let (ins, fs) = place sv n (q_frags q); s1 = s\<lparr>ipqs := a @ q\<lparr>q_frags := fs\<rparr> # b\<rparr> in
          if \<not> ins then (None, drop_frag s1)
          else (case chk_reassembly sv fs of
                  None \<Rightarrow> (None, s1)
                | Some r \<Rightarrow> (Some r, s\<lparr>ipqs := a @ b\<rparr>)))"

text \<open>A packet for this host: \<open>i_off\<close> with the flags, \<open>i_len\<close> with the header. \<open>IP_DF\<close> and \<open>IP_MF\<close> are those of RFC 791.\<close>

record ippkt =
  i_key :: dkey
  i_hl :: nat
  i_off :: u16
  i_len :: u16
  i_mb :: mchain

definition IP_DF :: u16 where "IP_DF = 0x4000"
definition IP_MF :: u16 where "IP_MF = 0x2000"

definition to_frag :: "ippkt \<Rightarrow> ipfrag" where
  "to_frag m = \<lparr>f_key = i_key m, f_hl = i_hl m, f_off = push_bit 3 (i_off m), f_len = i_len m - of_nat (4 * i_hl m),
     f_mff = (i_off m AND IP_MF \<noteq> 0), f_mb = i_mb m\<rparr>"

text \<open>The result is what \<open>pr_input\<close> is called with, the packet and \<open>hlen\<close>.\<close>

definition ip_ours :: "bool \<Rightarrow> bool \<Rightarrow> u8 \<Rightarrow> ippkt \<Rightarrow> ipstate \<Rightarrow> (ipfrag \<times> nat) option \<times> ipstate" where
  "ip_ours sv pool ttl m s =
     (let hlen = 4 * i_hl m; f = to_frag m;
          (r, s') =
            (if i_off m AND NOT IP_DF \<noteq> 0 then
               let found = split_queue (i_key m) (ipqs s) in
               if f_mff f \<or> f_off f \<noteq> 0 then
                 let s1 = s\<lparr>ips_fragments := ips_fragments s + 1\<rparr> in
                 (case ipReAssemble sv pool ttl f found s1 of
                    (None, s2) \<Rightarrow> (None, s2)
                  | (Some g, s2) \<Rightarrow> (Some g, s2\<lparr>ips_reassembled := ips_reassembled s2 + 1\<rparr>))
               else (Some f, (case found of None \<Rightarrow> s | Some (a, q, b) \<Rightarrow> s\<lparr>ipqs := a @ b\<rparr>))
             else (Some (f\<lparr>f_off := i_off m\<rparr>), s))
      in case r of
           None \<Rightarrow> (None, s')
         | Some g \<Rightarrow> (Some (g, hlen), s'\<lparr>ips_delivered := ips_delivered s' + 1\<rparr>))"

text \<open>\<open>ip_slowtimo\<close> and \<open>ip_drain\<close>.\<close>

fun tick_queues :: "ipq list \<Rightarrow> ipq list \<times> nat" where
  "tick_queues [] = ([], 0)"
| "tick_queues (q # qs) =
     (let q' = q\<lparr>q_ttl := q_ttl q - 1\<rparr>; (qs', n) = tick_queues qs
      in if q_ttl q' = 0 then (qs', n + 1) else (q' # qs', n))"

definition ip_slowtimo :: "ipstate \<Rightarrow> ipstate" where
  "ip_slowtimo s = (let (qs, n) = tick_queues (ipqs s) in s\<lparr>ipqs := qs, ips_fragtimeout := ips_fragtimeout s + n\<rparr>)"

definition ip_drain :: "ipstate \<Rightarrow> ipstate" where
  "ip_drain s = s\<lparr>ipqs := [], ips_fragdropped := ips_fragdropped s + length (ipqs s)\<rparr>"

section \<open>Fragments of a datagram\<close>

text \<open>How long a datagram may be for the arithmetic on \<open>ip_off\<close> and \<open>ip_len\<close> to be exact.\<close>

definition len_limit :: "bool \<Rightarrow> nat" where
  "len_limit sv = (if sv then 32767 else 65535)"

definition fo :: "ipfrag \<Rightarrow> nat" where "fo f = unat (f_off f)"
definition fl :: "ipfrag \<Rightarrow> nat" where "fl f = unat (f_len f)"

definition payload :: "ipfrag \<Rightarrow> bytes" where
  "payload f = drop (4 * f_hl f) (contents (f_mb f))"

text \<open>A fragment of the datagram \<open>d\<close>: its header lies in the first mbuf, its data is the part of \<open>d\<close> that offset and length
  name, and it has the flag unless it reaches the end.\<close>

definition frag_of :: "bytes \<Rightarrow> ipfrag \<Rightarrow> bool" where
  "frag_of d f \<longleftrightarrow>
     f_mb f \<noteq> [] \<and> 4 * f_hl f \<le> length (b_dat (hd (f_mb f))) \<and> chain_ok (f_mb f) \<and>
     payload f = take (fl f) (drop (fo f) d) \<and> fo f + fl f \<le> length d \<and> f_mff f = (fo f + fl f < length d)"

definition span :: "ipfrag \<Rightarrow> nat set" where
  "span f = {fo f ..< fo f + fl f}"

definition covered :: "ipfrag list \<Rightarrow> nat set" where
  "covered fs = (\<Union>f \<in> set fs. span f)"

lemma covered_simps [simp]: "covered [] = {}" "covered (f # fs) = span f \<union> covered fs" "covered (fs @ gs) = covered fs \<union> covered gs"
  by (auto simp: covered_def)

text \<open>Fragments by offset, without overlap, from \<open>p\<close> on.\<close>

primrec linked :: "nat \<Rightarrow> ipfrag list \<Rightarrow> bool" where
  "linked p [] = True"
| "linked p (f # fs) = (p \<le> fo f \<and> linked (fo f + fl f) fs)"

lemma linked_mono: "linked p fs \<Longrightarrow> q \<le> p \<Longrightarrow> linked q fs"
  by (cases fs) auto

lemma sint_small: "unat (w :: u16) \<le> 32767 \<Longrightarrow> sint w = int (unat w)"
proof -
  assume w: "unat w \<le> 32767"
  have u: "uint w = int (unat w)" by (rule uint_nat)
  then have "uint w \<le> 32767" using w by linarith
  then have b: "- (2 ^ 15) \<le> uint w" "uint w < 2 ^ 15" using order_trans [of "- (2 ^ 15)" 0 "uint w"] by simp_all
  have "sint w = signed_take_bit 15 (uint w)" by (simp add: sint_uint)
  also have "\<dots> = uint w" using b by (rule signed_take_bit_int_eq_self)
  finally show ?thesis unfolding u .
qed

lemma sint_large: "32768 \<le> unat (w :: u16) \<Longrightarrow> sint w = int (unat w) - 65536"
proof -
  assume w: "32768 \<le> unat w"
  have u: "uint w = int (unat w)" by (rule uint_nat)
  have b: "32768 \<le> uint w" using w u by linarith
  have b': "uint w < 65536" using unsigned_less [where w = w and 'a = int] by simp
  have "sint w = signed_take_bit 15 (uint w)" by (simp add: sint_uint)
  also have "\<dots> = (uint w + 32768) mod 65536 - 32768" by (simp add: signed_take_bit_eq_take_bit_shift take_bit_eq_mod)
  also have "(uint w + 32768) mod 65536 = uint w - 32768"
    using b b' by (subst mod_pos_geq) (simp_all add: mod_pos_pos_trivial)
  finally show ?thesis unfolding u by simp
qed

lemma ival_exact: "unat w \<le> len_limit sv \<Longrightarrow> ival sv w = int (unat w)"
  by (auto simp: ival_def len_limit_def sint_small)

lemma fend_exact: "frag_of d f \<Longrightarrow> length d \<le> len_limit sv \<Longrightarrow> fend sv f = int (fo f + fl f) \<and> ival sv (f_len f) = int (fl f) \<and> ival sv (f_off f) = int (fo f)"
  by (simp add: fend_def frag_of_def ival_exact fo_def fl_def)

text \<open>Cutting a fragment at its tail.\<close>

lemma m_adj_hd:
  assumes "c \<noteq> []" and "0 < k" and "n \<le> length (b_dat (hd c))" and "n + k \<le> length (contents c)"
  shows "n \<le> length (b_dat (hd (m_adj c (- int k))))"
proof -
  obtain bs b where c: "c = bs @ [b]" using assms(1) by (metis rev_exhaust)
  show ?thesis
  proof (cases "k \<le> length (b_dat b)")
    case True
    then show ?thesis using assms c by (cases bs) (auto simp: m_adj_def Let_def pkt_len_def nat_diff_distrib)
  next
    case False
    obtain a as where a: "c = a # as" using assms(1) by (cases c) auto
    have "m_adj c (- int k) = keep_count (pkt_len (\<lambda>_. int (length (contents c)) - int k) c) (int (length (contents c)) - int k)"
      using False assms c by (simp add: m_adj_def Let_def sum_lengths)
    then show ?thesis using assms a by (auto simp: pkt_len_def)
  qed
qed

lemma trim_tail_frag:
  assumes f: "frag_of d f" and k: "0 < k" "k \<le> fl f" and e: "fo f + fl f < length d"
  shows "frag_of d (trim_tail (int k) f) \<and> fo (trim_tail (int k) f) = fo f \<and> fl (trim_tail (int k) f) = fl f - k"
proof -
  have l: "unat (f_len f - word_of_int (int k)) = fl f - k"
  proof -
    have "fl f < 65536" using unsigned_less [where w = "f_len f" and 'a = nat] by (simp add: fl_def)
    then have "unat (word_of_nat k :: u16) = k" using k by (simp add: unat_of_nat)
    then show ?thesis using k by (simp add: unat_sub word_le_nat_alt fl_def)
  qed
  have h: "4 * f_hl f \<le> length (b_dat (hd (f_mb f)))" "f_mb f \<noteq> []" "chain_ok (f_mb f)" using f by (auto simp: frag_of_def)
  have p: "payload f = take (fl f) (drop (fo f) d)" "fo f + fl f \<le> length d" using f by (auto simp: frag_of_def)
  have "4 * f_hl f \<le> length (contents (f_mb f))" using h by (cases "f_mb f") auto
  moreover have "length (payload f) = fl f" using p by simp
  ultimately have n: "length (contents (f_mb f)) = 4 * f_hl f + fl f" by (simp add: payload_def)
  have m: "nat (int (length (contents (f_mb f))) + - int k) = 4 * f_hl f + (fl f - k)" using k n by linarith
  have "drop (4 * f_hl f) (contents (m_adj (f_mb f) (- int k))) = take (fl f - k) (payload f)"
    using k(1) unfolding m_adj_contents m by (simp add: payload_def drop_take)
  also have "\<dots> = take (fl f - k) (drop (fo f) d)" by (simp add: p)
  finally have "payload (trim_tail (int k) f) = take (fl f - k) (drop (fo f) d)" by (simp add: payload_def trim_tail_def)
  moreover have "4 * f_hl f \<le> length (b_dat (hd (m_adj (f_mb f) (- int k))))" using h k n by (intro m_adj_hd) auto
  moreover have "unat (f_off f) + (unat (f_len f) - k) < length d" using e k(1) by (simp add: fo_def fl_def)
  ultimately show ?thesis using f l e by (simp add: frag_of_def trim_tail_def fo_def fl_def m_adj_ok)
qed

text \<open>Inserting in front keeps fragments of the datagram, sorted and without overlap, and covers what they covered.\<close>

lemma put_before_frags:
  assumes n: "frag_of d n" and fs: "list_all (frag_of d) fs" "linked q fs" "fo n \<le> q" and d: "length d \<le> len_limit sv"
    and p: "p \<le> fo n"
  shows "list_all (frag_of d) (put_before sv n fs) \<and> linked p (put_before sv n fs) \<and>
    covered (put_before sv n fs) = covered fs \<union> span n \<and> put_before sv n fs \<noteq> []"
  using fs
proof (induction fs arbitrary: q)
  case Nil
  then show ?case using n p by (simp add: put_before_def)
next
  case (Cons f fs)
  have f: "frag_of d f" "fend sv f = int (fo f + fl f)" "ival sv (f_off f) = int (fo f)" "fo n \<le> fo f"
    using Cons.prems fend_exact [OF _ d] by auto
  have en: "fend sv n = int (fo n + fl n)" using fend_exact [OF n d] by simp
  show ?case
  proof (cases "fo f + fl f \<le> fo n + fl n")
    case True
    then have "put_before sv n (f # fs) = put_before sv n fs" using f en by (simp add: put_before_def)
    moreover have "span f \<subseteq> span n" using True f(4) by (auto simp: span_def)
    ultimately show ?thesis using Cons.IH [of "fo f + fl f"] Cons.prems f(4) by auto
  next
    case False
    define k where "k = fo n + fl n - fo f"
    have e: "fo f + fl f \<le> length d" using f(1) by (simp add: frag_of_def)
    have "put_before sv n (f # fs) = (if fo n + fl n > fo f then trim_tail (int k) n else n) # f # fs"
      using False f en by (auto simp: put_before_def Let_def k_def of_nat_diff)
    moreover have "fo n + fl n > fo f \<Longrightarrow> frag_of d (trim_tail (int k) n) \<and> fo (trim_tail (int k) n) = fo n \<and> fl (trim_tail (int k) n) = fl n - k"
      using False e f(4) by (intro trim_tail_frag [OF n]) (auto simp: k_def)
    ultimately show ?thesis using n p f(4) False Cons.prems by (auto simp: span_def k_def)
  qed
qed

text \<open>So does the search; a fragment is dropped only when one that is there covers it.\<close>

lemma place_frags:
  assumes n: "frag_of d n" and d: "length d \<le> len_limit sv"
  shows "list_all (frag_of d) fs \<Longrightarrow> linked p fs \<Longrightarrow> p \<le> fo n \<Longrightarrow> fs \<noteq> [] \<Longrightarrow> place sv n fs = (ins, fs') \<Longrightarrow>
    list_all (frag_of d) fs' \<and> linked p fs' \<and> covered fs' = covered fs \<union> span n \<and> fs' \<noteq> []"
proof (induction fs arbitrary: p ins fs')
  case (Cons f fs)
  have f: "frag_of d f" "fend sv f = int (fo f + fl f)" and fs: "list_all (frag_of d) fs" "linked (fo f + fl f) fs" "p \<le> fo f"
    using Cons.prems fend_exact [OF _ d] by auto
  have ln: "ival sv (f_len n) = int (fl n)" and en: "fo n + fl n \<le> length d" using fend_exact [OF n d] n by (simp_all add: frag_of_def)
  define k where "k = fo f + fl f - fo n"
  define f' where "f' = (if fo f + fl f > fo n then trim_tail (int k) f else f)"
  consider (front) "fo n \<le> fo f" | (covered) "fo f < fo n" "fo f + fl f > fo n \<and> k \<ge> fl n"
    | (behind) "fo f < fo n" "\<not> (fo f + fl f > fo n \<and> k \<ge> fl n)" by linarith
  then show ?case
  proof cases
    case front
    then have "fs' = put_before sv n (f # fs)" using Cons.prems(5) by (auto simp: fo_def)
    then show ?thesis using put_before_frags [OF n Cons.prems(1) _ front d Cons.prems(3)] Cons.prems(2) by auto
  next
    case covered
    have "fend sv f - int (unat (f_off n)) = int k" using covered f(2) by (simp add: k_def of_nat_diff flip: fo_def)
    moreover have "0 < k" using covered by (simp add: k_def)
    ultimately have "fs' = f # fs" using covered ln Cons.prems(5) by (simp add: Let_def flip: fo_def)
    moreover have "span n \<subseteq> span f" using covered by (auto simp: span_def k_def)
    ultimately show ?thesis using Cons.prems by auto
  next
    case behind
    have f'_ok: "frag_of d f' \<and> fo f' = fo f \<and> fo f + fl f' \<le> fo n \<and> fl f' \<le> fl f \<and> span f \<union> span n = span f' \<union> span n"
    proof (cases "fo f + fl f > fo n")
      case True
      then have "k < fl n" using behind by simp
      moreover have "frag_of d (trim_tail (int k) f) \<and> fo (trim_tail (int k) f) = fo f \<and> fl (trim_tail (int k) f) = fl f - k"
        using True behind(1) \<open>k < fl n\<close> en by (intro trim_tail_frag [OF f(1)]) (auto simp: k_def)
      moreover have "{fo f ..< fo f + fl f} \<union> {fo n ..< fo n + fl n} = {fo f ..< fo f + (fl f - k)} \<union> {fo n ..< fo n + fl n}"
        using True behind(1) \<open>k < fl n\<close> by (auto simp: k_def)
      moreover have "fo f + (fl f - k) \<le> fo n" using behind(1) True by (simp add: k_def)
      ultimately show ?thesis using True by (simp add: f'_def span_def)
    qed (use f in \<open>simp add: f'_def\<close>)
    have c: "(fend sv f - int (unat (f_off n)) > 0 \<longleftrightarrow> fo f + fl f > fo n)"
        "fo f + fl f > fo n \<Longrightarrow> fend sv f - int (unat (f_off n)) = int k"
      using f(2) by (auto simp: k_def of_nat_diff simp flip: fo_def)
    have st: "place sv n (f # fs) = (if fs = [] then (True, [f', n]) else let (ins, fs') = place sv n fs in (ins, f' # fs'))"
    proof (cases "fo f + fl f > fo n")
      case True
      with c behind ln show ?thesis by (simp add: f'_def Let_def flip: fo_def)
    next
      case False
      with c behind ln show ?thesis by (simp add: f'_def Let_def flip: fo_def)
    qed
    show ?thesis
    proof (cases "fs = []")
      case True
      then have "fs' = [f', n]" using st Cons.prems(5) by simp
      then show ?thesis using f'_ok n fs(3) True by (simp add: Un_commute)
    next
      case False
      obtain i g where ig: "place sv n fs = (i, g)" by force
      have g: "list_all (frag_of d) g \<and> linked (fo f + fl f') g \<and> covered g = covered fs \<union> span n \<and> g \<noteq> []"
        using Cons.IH [OF fs(1) _ _ False ig] f'_ok linked_mono [OF fs(2)] by auto
      have "fs' = f' # g" using st ig False Cons.prems(5) by simp
      moreover have "covered (f' # g) = covered (f # fs) \<union> span n" using g f'_ok by (simp add: Un_ac)
      ultimately show ?thesis using g f'_ok fs(3) by simp
    qed
  qed
qed simp

section \<open>The check for gaps\<close>

lemma gather_some:
  assumes d: "length d \<le> len_limit sv"
  shows "list_all (frag_of d) fs \<Longrightarrow> gather sv (int p) fs = Some l \<Longrightarrow>
    int p \<le> l \<and> concat (map payload fs) = take (nat l - p) (drop p d) \<and> {p ..< nat l} \<subseteq> covered fs
    \<and> (fs \<noteq> [] \<longrightarrow> nat l = fo (last fs) + fl (last fs))"
proof (induction fs arbitrary: p)
  case (Cons f fs)
  have f: "frag_of d f" "ival sv (f_len f) = int (fl f)" using Cons.prems fend_exact [OF _ d] by auto
  have p: "fo f = p" and g: "gather sv (int (p + fl f)) fs = Some l" using Cons.prems(2) f(2) by (auto simp flip: fo_def simp del: of_nat_unat split: if_splits)
  have ih: "int (p + fl f) \<le> l" "concat (map payload fs) = take (nat l - (p + fl f)) (drop (p + fl f) d)"
    "{p + fl f ..< nat l} \<subseteq> covered fs" "fs \<noteq> [] \<longrightarrow> nat l = fo (last fs) + fl (last fs)"
    using Cons.IH [OF _ g] Cons.prems(1) by auto
  have "fs = [] \<Longrightarrow> nat l = p + fl f" using g by auto
  moreover have "nat l - p = fl f + (nat l - (p + fl f))" using ih(1) by linarith
  then have "take (nat l - p) (drop p d) = take (fl f) (drop p d) @ take (nat l - (p + fl f)) (drop (p + fl f) d)"
    by (metis add.commute drop_drop take_add)
  moreover have "payload f = take (fl f) (drop p d)" using f(1) p by (simp add: frag_of_def)
  moreover have "{p ..< nat l} \<subseteq> {p ..< p + fl f} \<union> {p + fl f ..< nat l}" by auto
  ultimately show ?case using ih p by (auto simp: span_def)
qed auto

lemma gather_covered:
  assumes d: "length d \<le> len_limit sv"
  shows "list_all (frag_of d) fs \<Longrightarrow> linked p fs \<Longrightarrow> p \<le> length d \<Longrightarrow> {p ..< length d} \<subseteq> covered fs \<Longrightarrow>
    gather sv (int p) fs = Some (int (length d))"
proof (induction fs arbitrary: p)
  case (Cons f fs)
  have f: "frag_of d f" "ival sv (f_len f) = int (fl f)" "p \<le> fo f" "linked (fo f + fl f) fs"
    using Cons.prems fend_exact [OF _ d] by auto
  have e: "fo f + fl f \<le> length d" using f(1) by (simp add: frag_of_def)
  have above: "linked q gs \<Longrightarrow> x \<in> covered gs \<Longrightarrow> q \<le> x" for q gs x
  proof (induction gs arbitrary: q)
    case (Cons g gs)
    then have "x \<in> span g \<or> fo g + fl g \<le> x" "q \<le> fo g" by auto
    then show ?case by (auto simp: span_def)
  qed simp
  have "fo f = p"
  proof (rule ccontr)
    assume "fo f \<noteq> p"
    then have "p < fo f" using f(3) by simp
    moreover from this have "p \<in> {p ..< length d}" using e by simp
    then have "p \<in> covered (f # fs)" using Cons.prems(4) by blast
    ultimately have "p \<in> covered (f # fs)" "p < fo f" by blast+
    then show False using above [OF f(4), of p] by (auto simp: span_def)
  qed
  moreover have "{fo f + fl f ..< length d} \<subseteq> covered fs"
  proof
    fix x assume x: "x \<in> {fo f + fl f ..< length d}"
    then have "x \<in> {p ..< length d}" using \<open>fo f = p\<close> by simp
    then have "x \<in> covered (f # fs)" using Cons.prems(4) by blast
    then show "x \<in> covered fs" using x by (auto simp: span_def)
  qed
  ultimately show ?case using Cons.IH [OF _ f(4) e] Cons.prems(1) f(2) by (simp add: fo_def)
qed simp

lemma strip_payload: "frag_of d f \<Longrightarrow> contents (strip_hdr f) = payload f"
  by (cases "f_mb f") (auto simp: frag_of_def strip_hdr_def payload_def)

lemma cat_all_contents: "contents (cat_all m fs) = contents m @ concat (map (\<lambda>f. contents (strip_hdr f)) fs)"
  by (induction fs arbitrary: m) (simp_all add: m_cat_def)

lemma cat_all_hd: "m \<noteq> [] \<Longrightarrow> cat_all m fs \<noteq> [] \<and> hd (cat_all m fs) = hd m"
  by (induction fs arbitrary: m) (simp_all add: m_cat_def)

lemma cat_all_ok: "list_all blk_ok m \<Longrightarrow> list_all (frag_of d) fs \<Longrightarrow> list_all blk_ok (cat_all m fs)"
proof (induction fs arbitrary: m)
  case (Cons f fs)
  have "list_all blk_ok (strip_hdr f)" using Cons.prems
    by (cases "f_mb f") (auto simp: frag_of_def strip_hdr_def chain_ok_def blk_ok_def)
  then show ?case using Cons by (simp add: m_cat_def)
qed simp

text \<open>The datagram put together: the header of its first fragment and all the data.\<close>

definition whole :: "bytes \<Rightarrow> ipfrag \<Rightarrow> bool" where
  "whole d r \<longleftrightarrow> payload r = d \<and> fl r = length d \<and> \<not> f_mff r \<and> chain_ok (f_mb r) \<and> f_mb r \<noteq> [] \<and> 4 * f_hl r \<le> length (b_dat (hd (f_mb r)))"

lemma join_whole:
  assumes fs: "list_all (frag_of d) fs" "fs \<noteq> []" and d: "length d \<le> 65535"
    and g: "concat (map payload fs) = d"
  shows "whole d (join (int (length d)) fs)"
proof -
  obtain f gs where f: "fs = f # gs" using fs(2) by (cases fs) auto
  have ff: "f_mb f \<noteq> []" "4 * f_hl f \<le> length (b_dat (hd (f_mb f)))" "list_all blk_ok (f_mb f)" using fs f by (auto simp: frag_of_def chain_ok_def)
  let ?m = "cat_all (f_mb f) gs"
  have "map (\<lambda>f. contents (strip_hdr f)) gs = map payload gs" using fs(1) f strip_payload [of d] by (simp add: list_all_iff)
  then have c: "contents ?m = contents (f_mb f) @ concat (map payload gs)" by (simp only: cat_all_contents)
  have "4 * f_hl f \<le> length (contents (f_mb f))" using ff by (cases "f_mb f") auto
  then have "drop (4 * f_hl f) (contents ?m) = d" using c g f by (simp add: payload_def)
  moreover have "unat (word_of_nat (length d) :: u16) = length d" using d by (simp add: unat_of_nat)
  moreover have "chain_ok (pkt_len (\<lambda>_. sum_list (map (\<lambda>b. int (length (b_dat b))) ?m)) ?m)"
    using cat_all_ok [OF ff(3), of d gs] fs f cat_all_hd [OF ff(1)] by (auto simp: chain_ok_def pkt_len_hd sum_lengths)
  moreover have "b_dat (hd (pkt_len h ?m)) = b_dat (hd (f_mb f))" for h
    using cat_all_hd [OF ff(1), of gs] by (cases ?m) (auto simp: pkt_len_def)
  ultimately show ?thesis using f ff cat_all_hd [OF ff(1), of gs] by (simp add: whole_def join_def Let_def payload_def fl_def)
qed

text \<open>The check succeeds exactly when the fragments cover the datagram.\<close>

lemma chk_reassembly_exact:
  assumes fs: "list_all (frag_of d) fs" "linked 0 fs" "fs \<noteq> []" and d: "length d \<le> len_limit sv"
  shows "if covered fs = {..< length d} then \<exists>r. chk_reassembly sv fs = Some r \<and> whole d r else chk_reassembly sv fs = None"
proof (cases "covered fs = {..< length d}")
  case True
  have g: "gather sv 0 fs = Some (int (length d))" using gather_covered [OF d fs(1,2)] True by (simp add: atLeast0LessThan)
  note s = gather_some [OF d fs(1), of 0 "int (length d)"]
  have "\<not> f_mff (last fs)" using s g fs by (auto simp: frag_of_def list_all_iff)
  moreover have "concat (map payload fs) = d" using s g by simp
  moreover have "length d \<le> 65535" using d by (auto simp: len_limit_def split: if_splits)
  ultimately show ?thesis using True g join_whole [OF fs(1,3)] by (simp add: chk_reassembly_def)
next
  case False
  have "covered fs \<subseteq> {..< length d}" using fs(1) by (auto simp: covered_def span_def list_all_iff frag_of_def)
  have "gather sv 0 fs = Some l \<Longrightarrow> f_mff (last fs)" for l
  proof (rule ccontr)
    assume g: "gather sv 0 fs = Some l" and m: "\<not> f_mff (last fs)"
    note s = gather_some [OF d fs(1), of 0 l]
    have "frag_of d (last fs)" using fs by (simp add: list_all_iff)
    then have "nat l = length d" using s g m fs(3) by (auto simp: frag_of_def)
    then show False using s g False \<open>covered fs \<subseteq> {..< length d}\<close> by auto
  qed
  then show ?thesis using False by (auto simp: chk_reassembly_def split: option.split)
qed

section \<open>Queues of several datagrams\<close>

text \<open>The fragments that wait for datagram \<open>k\<close>; \<open>[]\<close> when there is no queue.\<close>

definition waiting_frags :: "dkey \<Rightarrow> ipq list \<Rightarrow> ipfrag list" where
  "waiting_frags k qs = (case split_queue k qs of None \<Rightarrow> [] | Some (a, q, b) \<Rightarrow> q_frags q)"

definition queues_ok :: "ipq list \<Rightarrow> bool" where
  "queues_ok qs \<longleftrightarrow> distinct (map q_key qs) \<and> list_all (\<lambda>q. q_frags q \<noteq> []) qs"

lemma split_queue_some: "split_queue k qs = Some (a, q, b) \<Longrightarrow> qs = a @ q # b \<and> q_key q = k \<and> k \<notin> q_key ` set a"
  by (induction qs arbitrary: a) (auto split: if_splits)

lemma split_queue_none: "split_queue k qs = None \<longleftrightarrow> k \<notin> q_key ` set qs"
  by (induction qs) auto

lemma split_queue_other: "q_key q \<noteq> k \<Longrightarrow> waiting_frags k (a @ q # b) = waiting_frags k (a @ b)"
  by (induction a) (auto simp: waiting_frags_def split: option.splits)

lemma split_queue_this: "k \<notin> q_key ` set a \<Longrightarrow> q_key q = k \<Longrightarrow> waiting_frags k (a @ q # b) = q_frags q"
  by (induction a) (auto simp: waiting_frags_def split: option.splits)

lemma waiting_cons: "waiting_frags k (q # qs) = (if k = q_key q then q_frags q else waiting_frags k qs)"
  by (auto simp: waiting_frags_def split: option.splits)

lemma split_queue_gone: "k \<notin> q_key ` set qs \<Longrightarrow> waiting_frags k qs = []"
  by (simp add: waiting_frags_def split_queue_none [THEN iffD2])

text \<open>One fragment, seen at its datagram: \<open>add_frag\<close> is what \<open>ipReAssemble\<close> does to the fragments that wait.\<close>

definition add_frag :: "bool \<Rightarrow> ipfrag \<Rightarrow> ipfrag list \<Rightarrow> ipfrag option \<times> ipfrag list" where
  "add_frag sv n fs =
     (let (ins, fs') = (if fs = [] then (True, [n]) else place sv n fs)
      in if \<not> ins then (None, fs')
         else case chk_reassembly sv fs' of None \<Rightarrow> (None, fs') | Some r \<Rightarrow> (Some r, []))"

lemma ipReAssemble_queue:
  assumes q: "queues_ok (ipqs s)" and r: "ipReAssemble sv True ttl n (split_queue (f_key n) (ipqs s)) s = (r, s')"
    and ne: "\<And>fs. fs \<noteq> [] \<Longrightarrow> snd (place sv n fs) \<noteq> []"
  shows "add_frag sv n (waiting_frags (f_key n) (ipqs s)) = (r, waiting_frags (f_key n) (ipqs s'))"
    and "k \<noteq> f_key n \<Longrightarrow> waiting_frags k (ipqs s') = waiting_frags k (ipqs s)" and "queues_ok (ipqs s')"
proof -
  have "add_frag sv n (waiting_frags (f_key n) (ipqs s)) = (r, waiting_frags (f_key n) (ipqs s'))
    \<and> (k \<noteq> f_key n \<longrightarrow> waiting_frags k (ipqs s') = waiting_frags k (ipqs s)) \<and> queues_ok (ipqs s')"
  proof (cases "split_queue (f_key n) (ipqs s)")
    case None
    then have k: "f_key n \<notin> q_key ` set (ipqs s)" by (simp add: split_queue_none)
    then have w: "waiting_frags (f_key n) (ipqs s) = []" by (rule split_queue_gone)
    show ?thesis using None r k w q
      by (auto simp: waiting_cons ipReAssemble_def add_frag_def queues_ok_def split: option.splits)
  next
    case (Some t)
    obtain a p b where t: "t = (a, p, b)" by (cases t)
    note sq = split_queue_some [OF Some [unfolded t]]
    have kb: "f_key n \<notin> q_key ` set b" "q_frags p \<noteq> []" using q sq by (auto simp: queues_ok_def)
    have w: "waiting_frags (f_key n) (ipqs s) = q_frags p" using sq split_queue_this by metis
    obtain ins fs where pl: "place sv n (q_frags p) = (ins, fs)" by force
    have fs: "fs \<noteq> []" using ne [OF kb(2)] pl by simp
    have here: "waiting_frags (f_key n) (a @ p\<lparr>q_frags := fs\<rparr> # b) = fs" using sq split_queue_this [of _ a "p\<lparr>q_frags := fs\<rparr>"] by simp
    have gone: "waiting_frags (f_key n) (a @ b) = []" using sq kb(1) by (intro split_queue_gone) auto
    have other: "waiting_frags k (a @ p\<lparr>q_frags := fs\<rparr> # b) = waiting_frags k (ipqs s)" "waiting_frags k (a @ b) = waiting_frags k (ipqs s)"
      if "k \<noteq> f_key n" using that sq split_queue_other by (metis ipq.select_convs(2) ipq.surjective ipq.update_convs(3))+
    have ok: "queues_ok (a @ p\<lparr>q_frags := fs\<rparr> # b)" "queues_ok (a @ b)" using q sq fs by (auto simp: queues_ok_def)
    show ?thesis using Some t r pl w kb(2) here gone other ok
      by (auto simp: ipReAssemble_def add_frag_def Let_def drop_frag_def split: option.splits if_splits)
  qed
  then show "add_frag sv n (waiting_frags (f_key n) (ipqs s)) = (r, waiting_frags (f_key n) (ipqs s'))"
    and "k \<noteq> f_key n \<Longrightarrow> waiting_frags k (ipqs s') = waiting_frags k (ipqs s)" and "queues_ok (ipqs s')" by blast+
qed

lemma place_not_nil: "fs \<noteq> [] \<Longrightarrow> snd (place sv n fs) \<noteq> []"
  by (cases fs) (auto simp: put_before_def Let_def split_beta split: list.split)

lemma place_dropped:
  assumes n: "frag_of d n" and d: "length d \<le> len_limit sv"
  shows "list_all (frag_of d) fs \<Longrightarrow> place sv n fs = (False, fs') \<Longrightarrow> span n \<subseteq> covered fs"
proof (induction fs arbitrary: fs')
  case (Cons f fs)
  have f: "fend sv f = int (fo f + fl f)" using Cons.prems fend_exact [OF _ d] by auto
  have ln: "ival sv (f_len n) = int (fl n)" using fend_exact [OF n d] by simp
  show ?case
  proof (cases "fo f < fo n \<and> fo f + fl f > fo n \<and> fo f + fl f - fo n \<ge> fl n")
    case True
    then show ?thesis by (auto simp: span_def)
  next
    case False
    have "fo f < fo n" using Cons.prems(2) by (auto simp: fo_def split: if_splits)
    then have c: "fend sv f - int (unat (f_off n)) > 0 \<Longrightarrow> \<not> fend sv f - int (unat (f_off n)) \<ge> ival sv (f_len n)"
      using False unfolding f ln fo_def by linarith
    obtain g where "place sv n fs = (False, g)"
      using Cons.prems(2) \<open>fo f < fo n\<close> c by (auto simp: Let_def fo_def split: if_splits prod.splits)
    then show ?thesis using Cons.IH Cons.prems(1) by auto
  qed
qed simp

definition queue_inv :: "bytes \<Rightarrow> ipfrag list \<Rightarrow> nat set \<Rightarrow> bool" where
  "queue_inv d fs C \<longleftrightarrow> list_all (frag_of d) fs \<and> linked 0 fs \<and> covered fs = C"

lemma add_frag_step:
  assumes i: "queue_inv d fs C" and n: "frag_of d n" and d: "length d \<le> len_limit sv" and C: "C \<noteq> {..< length d}"
  shows "if C \<union> span n = {..< length d} then \<exists>r. add_frag sv n fs = (Some r, []) \<and> whole d r
    else \<exists>fs'. add_frag sv n fs = (None, fs') \<and> queue_inv d fs' (C \<union> span n)"
proof -
  define ins where "ins = (if fs = [] then True else fst (place sv n fs))"
  define fs' where "fs' = (if fs = [] then [n] else snd (place sv n fs))"
  have a: "add_frag sv n fs = (if \<not> ins then (None, fs') else case chk_reassembly sv fs' of None \<Rightarrow> (None, fs') | Some r \<Rightarrow> (Some r, []))"
    by (cases "fs = []") (simp_all add: add_frag_def ins_def fs'_def split_beta cong: option.case_cong)
  have l: "list_all (frag_of d) fs' \<and> linked 0 fs' \<and> covered fs' = C \<union> span n \<and> fs' \<noteq> []"
  proof (cases "fs = []")
    case True
    then show ?thesis using i n by (simp add: fs'_def queue_inv_def)
  next
    case False
    have "place sv n fs = (fst (place sv n fs), fs')" using False by (simp add: fs'_def)
    from place_frags [OF n d _ _ _ False this, of 0] show ?thesis using i by (simp add: queue_inv_def)
  qed
  show ?thesis
  proof (cases ins)
    case True
    have "if C \<union> span n = {..< length d} then \<exists>r. chk_reassembly sv fs' = Some r \<and> whole d r else chk_reassembly sv fs' = None"
      using chk_reassembly_exact [of d fs' sv] l d by simp
    then show ?thesis using a True l by (auto simp: queue_inv_def split: if_splits)
  next
    case False
    then have "place sv n fs = (False, fs')" by (auto simp: ins_def fs'_def prod_eq_iff split: if_splits)
    from place_dropped [OF n d _ this] have "C \<union> span n = C" using i by (auto simp: queue_inv_def)
    then show ?thesis using a False l C by (auto simp: queue_inv_def)
  qed
qed

text \<open>A sequence of packets. The pool has room for queues.\<close>

primrec ip_run :: "bool \<Rightarrow> u8 \<Rightarrow> ippkt list \<Rightarrow> ipstate \<Rightarrow> (ipfrag \<times> nat) option list \<times> ipstate" where
  "ip_run sv ttl [] s = ([], s)"
| "ip_run sv ttl (m # ms) s = (let (r, s1) = ip_ours sv True ttl m s; (rs, s2) = ip_run sv ttl ms s1 in (r # rs, s2))"

definition pkt_of :: "bytes \<Rightarrow> ippkt \<Rightarrow> bool" where
  "pkt_of d m \<longleftrightarrow> frag_of d (to_frag m) \<and> (f_mff (to_frag m) \<or> f_off (to_frag m) \<noteq> 0)"

lemma frag_flags: "f_mff (to_frag m) \<or> f_off (to_frag m) \<noteq> 0 \<Longrightarrow> i_off m AND NOT IP_DF \<noteq> 0"
proof
  assume f: "f_mff (to_frag m) \<or> f_off (to_frag m) \<noteq> 0" and z: "i_off m AND NOT IP_DF = 0"
  have "i_off m = (i_off m AND NOT IP_DF) OR (i_off m AND IP_DF)" by (rule bit_eqI) (auto simp: bit_simps)
  then have w: "i_off m = i_off m AND IP_DF" using z by simp
  have "i_off m AND IP_MF = i_off m AND (IP_DF AND IP_MF)" by (subst w) (simp add: and.assoc)
  then have mf: "i_off m AND IP_MF = 0" by (simp add: IP_DF_def IP_MF_def)
  have "push_bit 3 (i_off m) = push_bit 3 (i_off m) AND push_bit 3 IP_DF" by (subst w) (simp add: push_bit_and)
  moreover have "push_bit 3 IP_DF = 0" by code_simp
  ultimately have "push_bit 3 (i_off m) = 0" by simp
  then show False using f mf by (simp add: to_frag_def)
qed

text \<open>One packet, at the fragments of datagram \<open>k\<close>.\<close>

lemma ip_ours_frag:
  assumes q: "queues_ok (ipqs s)" and m: "f_mff (to_frag m) \<or> f_off (to_frag m) \<noteq> 0" and o: "ip_ours sv True ttl m s = (r, s')"
  shows "add_frag sv (to_frag m) (waiting_frags (i_key m) (ipqs s)) = (map_option fst r, waiting_frags (i_key m) (ipqs s'))"
    and "k \<noteq> i_key m \<Longrightarrow> waiting_frags k (ipqs s') = waiting_frags k (ipqs s)" and "queues_ok (ipqs s')"
    and "r = None \<or> (\<exists>g. r = Some (g, 4 * i_hl m))"
proof -
  let ?s = "s\<lparr>ips_fragments := ips_fragments s + 1\<rparr>"
  have k: "f_key (to_frag m) = i_key m" by (simp add: to_frag_def)
  obtain g s2 where g: "ipReAssemble sv True ttl (to_frag m) (split_queue (i_key m) (ipqs s)) ?s = (g, s2)" by force
  have o2: "map_option fst r = g" "ipqs s' = ipqs s2" "r = None \<or> (\<exists>g. r = Some (g, 4 * i_hl m))"
    using o m frag_flags [OF m] g by (auto simp: ip_ours_def Let_def split: option.splits)
  have q': "queues_ok (ipqs ?s)" using q by simp
  have g': "ipReAssemble sv True ttl (to_frag m) (split_queue (f_key (to_frag m)) (ipqs ?s)) ?s = (g, s2)" using g k by simp
  note a = ipReAssemble_queue [OF q' g' place_not_nil, unfolded k]
  show "add_frag sv (to_frag m) (waiting_frags (i_key m) (ipqs s)) = (map_option fst r, waiting_frags (i_key m) (ipqs s'))"
    and "k \<noteq> i_key m \<Longrightarrow> waiting_frags k (ipqs s') = waiting_frags k (ipqs s)" and "queues_ok (ipqs s')"
    and "r = None \<or> (\<exists>g. r = Some (g, 4 * i_hl m))"
    using a o2 by simp_all
qed

lemma ip_ours_other:
  assumes q: "queues_ok (ipqs s)" and k: "k \<noteq> i_key m" and o: "ip_ours sv True ttl m s = (r, s')"
  shows "waiting_frags k (ipqs s') = waiting_frags k (ipqs s) \<and> queues_ok (ipqs s')"
proof (cases "f_mff (to_frag m) \<or> f_off (to_frag m) \<noteq> 0")
  case True
  then show ?thesis using ip_ours_frag [OF q True o] k by blast
next
  case False
  have "waiting_frags k (a @ b) = waiting_frags k (ipqs s) \<and> queues_ok (a @ b)" if "split_queue (i_key m) (ipqs s) = Some (a, p, b)" for a p b
    using split_queue_some [OF that] q k split_queue_other [of p k a b] by (auto simp: queues_ok_def)
  then show ?thesis using False o q by (auto simp: ip_ours_def Let_def split: option.splits if_splits)
qed

section \<open>Reassembly\<close>

definition frags_of_key :: "dkey \<Rightarrow> ippkt list \<Rightarrow> ipfrag list" where
  "frags_of_key k ms = map to_frag (filter (\<lambda>m. i_key m = k) ms)"

lemma covered_below: "list_all (frag_of d) fs \<Longrightarrow> covered fs \<subseteq> {..< length d}"
  by (auto simp: covered_def span_def list_all_iff frag_of_def)

lemma frags_of_key_frags: "list_all (\<lambda>m. i_key m = k \<longrightarrow> pkt_of d m) ms \<Longrightarrow> list_all (frag_of d) (frags_of_key k ms)"
  by (auto simp: frags_of_key_def list_all_iff pkt_of_def)

lemma run_waiting:
  assumes d: "length d \<le> len_limit sv"
  shows "queues_ok (ipqs s) \<Longrightarrow> queue_inv d (waiting_frags k (ipqs s)) C \<Longrightarrow> list_all (\<lambda>m. i_key m = k \<longrightarrow> pkt_of d m) ms \<Longrightarrow>
    C \<union> covered (frags_of_key k ms) \<noteq> {..< length d} \<Longrightarrow> ip_run sv ttl ms s = (rs, s') \<Longrightarrow>
    queue_inv d (waiting_frags k (ipqs s')) (C \<union> covered (frags_of_key k ms)) \<and> queues_ok (ipqs s')
    \<and> list_all2 (\<lambda>m r. i_key m = k \<longrightarrow> r = None) ms rs"
proof (induction ms arbitrary: s C rs)
  case Nil
  then show ?case by (simp add: frags_of_key_def)
next
  case (Cons m ms)
  obtain r s1 where o: "ip_ours sv True ttl m s = (r, s1)" by force
  obtain rs2 where rs: "ip_run sv ttl ms s1 = (rs2, s')" "rs = r # rs2"
    using Cons.prems(5) o by (auto split: prod.splits)
  show ?case
  proof (cases "i_key m = k")
    case True
    let ?n = "to_frag m"
    have n: "frag_of d ?n" "f_mff ?n \<or> f_off ?n \<noteq> 0" using Cons.prems(3) True by (auto simp: pkt_of_def)
    have e: "C \<union> covered (frags_of_key k (m # ms)) = C \<union> span ?n \<union> covered (frags_of_key k ms)"
      using True by (auto simp: frags_of_key_def)
    have below: "C \<subseteq> {..< length d}" "span ?n \<subseteq> {..< length d}" "covered (frags_of_key k ms) \<subseteq> {..< length d}"
      using Cons.prems(2,3) n covered_below [of d] frags_of_key_frags [of k d ms]
      by (auto simp: queue_inv_def span_def frag_of_def)
    have ne: "C \<noteq> {..< length d}" "C \<union> span ?n \<noteq> {..< length d}" using Cons.prems(4) below unfolding e by blast+
    note a = ip_ours_frag [OF Cons.prems(1) n(2) o]
    from add_frag_step [OF Cons.prems(2) n(1) d ne(1)] ne(2) a(1) True
    have i: "queue_inv d (waiting_frags k (ipqs s1)) (C \<union> span ?n)" "r = None" by auto
    show ?thesis using Cons.IH [OF a(3) i(1) _ _ rs(1)] Cons.prems(3,4) rs(2) i(2) unfolding e by simp
  next
    case False
    then have e: "frags_of_key k (m # ms) = frags_of_key k ms" by (simp add: frags_of_key_def)
    have a: "waiting_frags k (ipqs s1) = waiting_frags k (ipqs s)" "queues_ok (ipqs s1)"
      using ip_ours_other [OF Cons.prems(1) _ o, of k] False by auto
    show ?thesis using Cons.IH [OF a(2) _ _ _ rs(1), of C] Cons.prems(2,3,4) a(1) rs(2) False unfolding e by simp
  qed
qed

text \<open>C5. Reassembly: let packets arrive in any order, those of datagram \<open>k\<close> being fragments of \<open>d\<close> that overlap or
  repeat each other at will, all others arbitrary. As long as the fragments do not cover \<open>d\<close> none of them
  makes a delivery; the fragment that completes the cover delivers a packet whose data is \<open>d\<close>, with the right
  length, and leaves nothing behind. The length of \<open>d\<close> must be such that offsets are exact: 32767 if the members
  of the header are signed.\<close>

theorem ip_reassembly:
  assumes "queues_ok (ipqs s)" and "k \<notin> q_key ` set (ipqs s)" and d: "length d \<le> len_limit sv"
    and ms: "list_all (\<lambda>m. i_key m = k \<longrightarrow> pkt_of d m) ms" and m: "i_key m = k" "pkt_of d m"
    and c: "covered (frags_of_key k ms) \<noteq> {..< length d}"
    and run: "ip_run sv ttl ms s = (rs, s1)" "ip_ours sv True ttl m s1 = (r, s2)"
  shows "list_all2 (\<lambda>m r. i_key m = k \<longrightarrow> r = None) ms rs \<and>
    (if covered (frags_of_key k (ms @ [m])) = {..< length d}
     then \<exists>g. r = Some (g, 4 * i_hl m) \<and> whole d g \<and> waiting_frags k (ipqs s2) = []
     else r = None)"
proof -
  have "queue_inv d (waiting_frags k (ipqs s)) {}" using split_queue_gone [OF assms(2)] by (simp add: queue_inv_def)
  from run_waiting [OF d assms(1) this ms _ run(1)] c
  have i: "queue_inv d (waiting_frags k (ipqs s1)) (covered (frags_of_key k ms))" "queues_ok (ipqs s1)"
    "list_all2 (\<lambda>m r. i_key m = k \<longrightarrow> r = None) ms rs" by simp_all
  have n: "frag_of d (to_frag m)" "f_mff (to_frag m) \<or> f_off (to_frag m) \<noteq> 0" using m by (auto simp: pkt_of_def)
  have e: "covered (frags_of_key k (ms @ [m])) = covered (frags_of_key k ms) \<union> span (to_frag m)" using m by (simp add: frags_of_key_def)
  note a = ip_ours_frag [OF i(2) n(2) run(2), unfolded m(1)]
  have "if covered (frags_of_key k (ms @ [m])) = {..< length d}
         then \<exists>g. r = Some (g, 4 * i_hl m) \<and> whole d g \<and> waiting_frags k (ipqs s2) = []
         else r = None"
    using add_frag_step [OF i(1) n(1) d c] a(1,4) unfolding e by (auto split: if_splits)
  with i(3) show ?thesis by blast
qed

definition sample_pkt :: "dkey \<Rightarrow> nat \<Rightarrow> u16 \<Rightarrow> bytes \<Rightarrow> ippkt" where
  "sample_pkt k hl off d = \<lparr>i_key = k, i_hl = hl, i_off = off, i_len = of_nat (4 * hl + length d),
     i_mb = [\<lparr>b_size = 4 * hl + length d, b_off = 0, b_dat = replicate (4 * hl) 0 @ d, b_pkt = None\<rparr>]\<rparr>"

definition ip_start :: ipstate where
  "ip_start = \<lparr>ipqs = [], ips_fragments = 0, ips_reassembled = 0, ips_fragdropped = 0, ips_fragtimeout = 0, ips_delivered = 0\<rparr>"

theorem ip_reassembly_witness:
  "\<exists>rs s1 g s2. ip_run True 30 [sample_pkt (7, 1, 2, 17) 5 1 [9, 10, 11, 12], sample_pkt (8, 1, 2, 17) 5 0x2000 [1, 1]] ip_start = (rs, s1)
     \<and> ip_ours True True 30 (sample_pkt (7, 1, 2, 17) 5 0x2000 [1, 2, 3, 4, 5, 6, 7, 8, 9, 10]) s1 = (Some (g, 20), s2)
     \<and> payload g = [1, 2, 3, 4, 5, 6, 7, 8, 9, 10, 11, 12]"
proof -
  let ?k = "(7, 1, 2, 17) :: dkey" and ?d = "[1, 2, 3, 4, 5, 6, 7, 8, 9, 10, 11, 12] :: bytes"
  let ?a = "sample_pkt ?k 5 1 [9, 10, 11, 12]" and ?x = "sample_pkt (8, 1, 2, 17) 5 0x2000 [1, 1]"
  let ?m = "sample_pkt ?k 5 0x2000 [1, 2, 3, 4, 5, 6, 7, 8, 9, 10]"
  have fa: "fo (to_frag ?a) = 8" "fl (to_frag ?a) = 4" "\<not> f_mff (to_frag ?a)" "f_off (to_frag ?a) \<noteq> 0" by code_simp+
  have fm: "fo (to_frag ?m) = 0" "fl (to_frag ?m) = 10" "f_mff (to_frag ?m)" by code_simp+
  have pa: "pkt_of ?d ?a" using fa by (simp add: pkt_of_def frag_of_def payload_def to_frag_def sample_pkt_def chain_ok_def blk_ok_def numeral_eq_Suc)
  have pm: "pkt_of ?d ?m" using fm by (simp add: pkt_of_def frag_of_def payload_def to_frag_def sample_pkt_def chain_ok_def blk_ok_def numeral_eq_Suc)
  obtain rs s1 where run: "ip_run True 30 [?a, ?x] ip_start = (rs, s1)" by force
  obtain r s2 where o: "ip_ours True True 30 ?m s1 = (r, s2)" by force
  have k: "i_key ?a = ?k" "i_key ?x \<noteq> ?k" "i_key ?m = ?k" by (simp_all add: sample_pkt_def)
  have f: "frags_of_key ?k [?a, ?x] = [to_frag ?a]" "frags_of_key ?k ([?a, ?x] @ [?m]) = [to_frag ?a, to_frag ?m]"
    using k by (simp_all add: frags_of_key_def)
  have c: "covered (frags_of_key ?k [?a, ?x]) \<noteq> {..< length ?d}" using f fa by (simp add: span_def set_eq_iff) presburger
  have all: "covered (frags_of_key ?k ([?a, ?x] @ [?m])) = {..< length ?d}" using f fa fm by (auto simp: span_def)
  have "queues_ok (ipqs ip_start)" "?k \<notin> q_key ` set (ipqs ip_start)" "length ?d \<le> len_limit True"
      "list_all (\<lambda>m. i_key m = ?k \<longrightarrow> pkt_of ?d m) [?a, ?x]"
    using pa k by (simp_all add: queues_ok_def ip_start_def len_limit_def)
  from ip_reassembly [OF this k(3) pm c run o] all obtain g where "r = Some (g, 4 * i_hl ?m)" "whole ?d g" by auto
  then have "ip_ours True True 30 ?m s1 = (Some (g, 20), s2)" "payload g = ?d" using o by (simp_all add: sample_pkt_def whole_def)
  with run show ?thesis by blast
qed

text \<open>C16. With signed members a fragment that arrives after one at an offset of 32768 or more loses data, although they
  do not overlap: where the new fragment is cut, \<open>ip_off\<close> is used without the cast, so the overlap comes out
  65536 too large. Its data is cut by that much, and its length, computed modulo 65536, becomes that of the
  gap between the two.\<close>

theorem reass_signed_offset:
  assumes f: "32768 \<le> unat (f_off f)" "0 < unat (f_len f)" "unat (f_len f) \<le> 32767"
    and n: "unat (f_len n) \<le> 32767" "unat (f_off n) + unat (f_len n) \<le> unat (f_off f)"
  shows "\<exists>n'. place True n [f] = (True, [n', f]) \<and> unat (f_len n') = unat (f_off f) - unat (f_off n) \<and>
    contents (f_mb n') = take (length (contents (f_mb n)) - (unat (f_off n) + unat (f_len n) + (65536 - unat (f_off f)))) (contents (f_mb n))"
proof -
  let ?o = "unat (f_off n)" and ?l = "unat (f_len n)" and ?p = "unat (f_off f)"
  define k where "k = ?o + ?l + (65536 - ?p)"
  have p: "?p < 65536" using unsigned_less [where w = "f_off f" and 'a = nat] by simp
  have e: "fend True n = int (?o + ?l)" "fend True f = int (?p + unat (f_len f))"
    using f(3) n(1) by (simp_all add: fend_def ival_exact len_limit_def del: of_nat_unat)
  have s: "ival True (f_off f) = int ?p - 65536" using sint_large [OF f(1)] by (simp add: ival_def del: of_nat_unat)
  have k: "fend True n - ival True (f_off f) = int k" "0 < k" using e s p n(2) by (simp_all add: k_def of_nat_diff)
  have "place True n [f] = (True, put_before True n [f])" using n(2) by simp
  also have "put_before True n [f] = [trim_tail (int k) n, f]"
    using e k n(2) f(2) by (simp add: put_before_def Let_def del: of_nat_unat)
  finally have pl: "place True n [f] = (True, [trim_tail (int k) n, f])" .
  have "unat (f_len n - word_of_nat k) = ?p - ?o"
  proof -
    have "int (unat (f_len n - word_of_nat k)) = (int ?l - int k) mod 65536"
      by (simp add: uint_word_ariths unsigned_of_nat take_bit_eq_mod mod_simps zmod_int)
    also have "int ?l - int k = int (?p - ?o) + (- 1) * 65536" using n(2) p by (simp add: k_def of_nat_diff del: of_nat_unat)
    also have "\<dots> mod 65536 = int (?p - ?o)" using p by (simp del: of_nat_unat)
    finally show ?thesis by linarith
  qed
  then have "unat (f_len (trim_tail (int k) n)) = ?p - ?o" by (simp add: trim_tail_def)
  moreover have "contents (f_mb (trim_tail (int k) n)) = take (length (contents (f_mb n)) - k) (contents (f_mb n))"
    using k(2) by (simp add: trim_tail_def m_adj_contents nat_diff_distrib' flip: of_nat_diff)
  ultimately show ?thesis using pl unfolding k_def by blast
qed

theorem reass_signed_offset_witness:
  "\<exists>n'. place True (to_frag (sample_pkt (7, 1, 2, 17) 5 0x2000 [8, 7, 6, 5, 4, 3, 2, 1])) [to_frag (sample_pkt (7, 1, 2, 17) 5 5000 [1, 2, 3, 4])]
       = (True, [n', to_frag (sample_pkt (7, 1, 2, 17) 5 5000 [1, 2, 3, 4])])
     \<and> unat (f_len n') = 40000 \<and> contents (f_mb n') = []"
proof -
  let ?f = "to_frag (sample_pkt (7, 1, 2, 17) 5 5000 [1, 2, 3, 4])"
  let ?n = "to_frag (sample_pkt (7, 1, 2, 17) 5 0x2000 [8, 7, 6, 5, 4, 3, 2, 1])"
  have "f_off ?f = 40000" "f_len ?f = 4" "f_off ?n = 0" "f_len ?n = 8" by code_simp+
  moreover have "length (contents (f_mb ?n)) = 28" by (simp add: to_frag_def sample_pkt_def)
  ultimately show ?thesis using reass_signed_offset [of ?f ?n] by simp
qed


section \<open>Time-out\<close>

lemma tick_queues_step:
  assumes "list_all (\<lambda>q. q_ttl q \<noteq> 0) qs"
  shows "fst (tick_queues qs) = map (\<lambda>q. q\<lparr>q_ttl := q_ttl q - 1\<rparr>) (filter (\<lambda>q. 1 < unat (q_ttl q)) qs)"
    and "snd (tick_queues qs) = length (filter (\<lambda>q. unat (q_ttl q) \<le> 1) qs)"
    and "list_all (\<lambda>q. q_ttl q \<noteq> 0) (fst (tick_queues qs))"
proof -
  have t: "unat w \<le> Suc 0 \<longleftrightarrow> w = 1" "Suc 0 < unat w \<longleftrightarrow> w \<noteq> 1" if "w \<noteq> 0" for w :: u8
  proof -
    have "unat w \<noteq> 0" using that by (simp add: unat_eq_zero)
    then have "unat w \<le> 1 \<longleftrightarrow> unat w = 1" by linarith
    also have "\<dots> \<longleftrightarrow> w = 1" by (metis unat_1 unsigned_word_eqI)
    finally show "unat w \<le> Suc 0 \<longleftrightarrow> w = 1" "Suc 0 < unat w \<longleftrightarrow> w \<noteq> 1" by auto
  qed
  show "fst (tick_queues qs) = map (\<lambda>q. q\<lparr>q_ttl := q_ttl q - 1\<rparr>) (filter (\<lambda>q. 1 < unat (q_ttl q)) qs)"
    and "snd (tick_queues qs) = length (filter (\<lambda>q. unat (q_ttl q) \<le> 1) qs)"
    and "list_all (\<lambda>q. q_ttl q \<noteq> 0) (fst (tick_queues qs))"
    using assms by (induction qs) (auto simp: Let_def split_beta t)
qed

lemma unat_dec: "w \<noteq> 0 \<Longrightarrow> unat (w - 1 :: u8) = unat w - 1"
  by (metis One_nat_def Suc_leI gr0I unat_1 unat_eq_zero unat_sub word_le_nat_alt)

lemma tick_filter:
  "filter (\<lambda>q. n < unat (q_ttl q)) (map (\<lambda>q. q\<lparr>q_ttl := q_ttl q - 1\<rparr>) (filter (\<lambda>q. 1 < unat (q_ttl q)) qs))
   = map (\<lambda>q. q\<lparr>q_ttl := q_ttl q - 1\<rparr>) (filter (\<lambda>q. Suc n < unat (q_ttl q)) qs)"
proof -
  let ?qs = "filter (\<lambda>q. 1 < unat (q_ttl q)) qs"
  have "unat (q_ttl q - 1) = unat (q_ttl q) - 1" if "q \<in> set ?qs" for q using that by (intro unat_dec) auto
  then have "filter (\<lambda>q. n < unat (q_ttl q - 1)) ?qs = filter (\<lambda>q. Suc n < unat (q_ttl q)) ?qs"
    by (intro filter_cong) auto
  also have "\<dots> = filter (\<lambda>q. Suc n < unat (q_ttl q)) qs" by (auto intro!: filter_cong)
  finally show ?thesis by (simp add: filter_map comp_def)
qed

lemma tick_count:
  "list_all (\<lambda>q. q_ttl q \<noteq> 0) qs \<Longrightarrow>
   length (filter (\<lambda>q. unat (q_ttl q) \<le> 1) qs)
     + length (filter (\<lambda>q. unat (q_ttl q) \<le> n) (map (\<lambda>q. q\<lparr>q_ttl := q_ttl q - 1\<rparr>) (filter (\<lambda>q. 1 < unat (q_ttl q)) qs)))
   = length (filter (\<lambda>q. unat (q_ttl q) \<le> Suc n) qs)"
  by (induction qs) (auto simp: unat_dec)

text \<open>C15. \<open>ip_slowtimo\<close> is a clock for the queues: after \<open>n\<close> calls exactly those that had more than \<open>n\<close> left are there,
  with \<open>n\<close> less and their fragments as they were, and the others are counted as timed out.\<close>

theorem ip_slowtimo_expires:
  assumes "list_all (\<lambda>q. q_ttl q \<noteq> 0) (ipqs s)"
  shows "map (\<lambda>q. (q_key q, q_frags q, unat (q_ttl q) + n)) (ipqs ((ip_slowtimo ^^ n) s))
       = map (\<lambda>q. (q_key q, q_frags q, unat (q_ttl q))) (filter (\<lambda>q. n < unat (q_ttl q)) (ipqs s))
    \<and> ips_fragtimeout ((ip_slowtimo ^^ n) s) = ips_fragtimeout s + length (filter (\<lambda>q. unat (q_ttl q) \<le> n) (ipqs s))"
  using assms
proof (induction n arbitrary: s)
  case 0
  have "0 < unat (q_ttl q)" if "q \<in> set (ipqs s)" for q
    using 0 that unat_eq_zero [of "q_ttl q"] by (auto simp: list_all_iff)
  then have "filter (\<lambda>q. 0 < unat (q_ttl q)) (ipqs s) = ipqs s" "filter (\<lambda>q. unat (q_ttl q) \<le> 0) (ipqs s) = []"
    by (auto simp: filter_id_conv filter_empty_conv simp del: unat_gt_0)
  then show ?case by simp
next
  case (Suc n)
  let ?s = "ip_slowtimo s" and ?qs = "filter (\<lambda>q. 1 < unat (q_ttl q)) (ipqs s)"
  note t = tick_queues_step [OF Suc.prems]
  have q: "ipqs ?s = map (\<lambda>q. q\<lparr>q_ttl := q_ttl q - 1\<rparr>) ?qs" and
    c: "ips_fragtimeout ?s = ips_fragtimeout s + length (filter (\<lambda>q. unat (q_ttl q) \<le> 1) (ipqs s))"
    using t by (simp_all add: ip_slowtimo_def split_beta)
  have f: "filter (\<lambda>q. n < unat (q_ttl q)) (ipqs ?s) = map (\<lambda>q. q\<lparr>q_ttl := q_ttl q - 1\<rparr>) (filter (\<lambda>q. Suc n < unat (q_ttl q)) (ipqs s))"
    unfolding q by (rule tick_filter)
  have ok: "list_all (\<lambda>q. q_ttl q \<noteq> 0) (ipqs ?s)" using t(3) by (simp add: ip_slowtimo_def split_beta)
  have "map (\<lambda>q. (q_key q, q_frags q, unat (q_ttl q) + n)) (ipqs ((ip_slowtimo ^^ n) ?s))
      = map (\<lambda>q. (q_key q, q_frags q, unat (q_ttl q - 1))) (filter (\<lambda>q. Suc n < unat (q_ttl q)) (ipqs s))"
    using Suc.IH [OF ok] f by (simp add: comp_def)
  then have "map (\<lambda>(k, f, t). (k, f, t + 1)) (map (\<lambda>q. (q_key q, q_frags q, unat (q_ttl q) + n)) (ipqs ((ip_slowtimo ^^ n) ?s)))
      = map (\<lambda>(k, f, t). (k, f, t + 1)) (map (\<lambda>q. (q_key q, q_frags q, unat (q_ttl q - 1))) (filter (\<lambda>q. Suc n < unat (q_ttl q)) (ipqs s)))"
    by simp
  moreover have "unat (q_ttl q - 1) + 1 = unat (q_ttl q)" if "Suc n < unat (q_ttl q)" for q :: ipq
    using that unat_dec [of "q_ttl q"] by (metis add.commute add_diff_inverse_nat less_one not_less_zero order_less_trans unat_0 zero_less_Suc)
  ultimately have "map (\<lambda>q. (q_key q, q_frags q, unat (q_ttl q) + Suc n)) (ipqs ((ip_slowtimo ^^ n) ?s))
      = map (\<lambda>q. (q_key q, q_frags q, unat (q_ttl q))) (filter (\<lambda>q. Suc n < unat (q_ttl q)) (ipqs s))"
    by (simp add: comp_def cong: map_cong)
  moreover have "ips_fragtimeout ((ip_slowtimo ^^ n) ?s) = ips_fragtimeout s + length (filter (\<lambda>q. unat (q_ttl q) \<le> Suc n) (ipqs s))"
    using Suc.IH [OF ok] c tick_count [OF Suc.prems, of n] by (simp add: q)
  ultimately show ?case by (simp add: funpow_swap1)
qed

theorem ip_slowtimo_expires_witness:
  "map (\<lambda>q. (q_key q, unat (q_ttl q) + 2))
     (ipqs ((ip_slowtimo ^^ 2) (ip_start\<lparr>ipqs := [\<lparr>q_ttl = 2, q_key = (1, 1, 2, 17), q_frags = []\<rparr>, \<lparr>q_ttl = 30, q_key = (2, 1, 2, 17), q_frags = []\<rparr>]\<rparr>)))
   = [((2, 1, 2, 17), 30)]"
proof -
  let ?s = "ip_start\<lparr>ipqs := [\<lparr>q_ttl = 2, q_key = (1, 1, 2, 17), q_frags = []\<rparr>, \<lparr>q_ttl = 30, q_key = (2, 1, 2, 17), q_frags = []\<rparr>]\<rparr>"
  have "list_all (\<lambda>q. q_ttl q \<noteq> 0) (ipqs ?s)" by simp
  from ip_slowtimo_expires [OF this, of 2, THEN conjunct1]
  have "map (\<lambda>q. (q_key q, q_frags q, unat (q_ttl q) + 2)) (ipqs ((ip_slowtimo ^^ 2) ?s)) = [((2, 1, 2, 17), [], 30)]"
    by (simp del: funpow.simps)
  then have "map (\<lambda>(k, f, t). (k, t)) (map (\<lambda>q. (q_key q, q_frags q, unat (q_ttl q) + 2)) (ipqs ((ip_slowtimo ^^ 2) ?s)))
      = map (\<lambda>(k, f, t). (k, t)) [((2, 1, 2, 17), [] :: ipfrag list, 30)]" by (rule arg_cong)
  then show ?thesis by (simp add: comp_def)
qed

end
