(* ===== verification/Ppp_Random.thy ===== *)
theory Ppp_Random
  imports Ppp_Prelude "HOL-Library.Signed_Division"
begin

text \<open>
  \<open>random.c\<close>: the additive feedback generator behind \<open>magic\<close> and the CHAP challenges. The state arrays
  of the callers are a memory of word lists; \<open>state\<close> points behind the first word of the array \<open>cur\<close>,
  and \<open>fptr\<close>, \<open>rptr\<close>, \<open>end_ptr\<close> are offsets from it. An access outside the array is \<open>None\<close>. Shown: the
  two pointers implement the recurrence of the trinomial, the stored position brings a state
  back, and the table in the source is what its comment says.
\<close>

section \<open>The generator\<close>

definition BREAKS :: "int list" where "BREAKS = [8, 32, 64, 128, 256]"
definition degrees :: "int list" where "degrees = [0, 7, 15, 31, 63]"
definition seps :: "int list" where "seps = [0, 3, 1, 3, 1]"
definition MAX_TYPES :: int where "MAX_TYPES = 5"

record rng =
  arrays :: "nat \<Rightarrow> u32 list"
  cur :: nat
  fptr :: int
  rptr :: int
  end_ptr :: int
  rand_type :: nat
  rand_deg :: int
  rand_sep :: int

text \<open>\<open>state[i]\<close>, for \<open>i = -1\<close> the word in front.\<close>

definition rd_state :: "rng \<Rightarrow> int \<Rightarrow> u32 option" where
  "rd_state s i = (let a = arrays s (cur s) in if -1 \<le> i \<and> i + 1 < int (length a) then Some (a ! nat (i + 1)) else None)"

definition wr_state :: "int \<Rightarrow> u32 \<Rightarrow> rng \<Rightarrow> rng option" where
  "wr_state i w s = (let a = arrays s (cur s) in
     if -1 \<le> i \<and> i + 1 < int (length a) then Some (s\<lparr>arrays := (arrays s)(cur s := a[nat (i + 1) := w])\<rparr>) else None)"

definition random :: "rng \<Rightarrow> (u32 \<times> rng) option" where
  "random s =
     (if rand_type s = 0 then
        case rd_state s 0 of
          None \<Rightarrow> None
        | Some w \<Rightarrow> let i = (w * 1103515245 + 12345) AND 0x7fffffff in map_option (\<lambda>s1. (i, s1)) (wr_state 0 i s)
      else case (rd_state s (fptr s), rd_state s (rptr s)) of
          (Some f, Some r) \<Rightarrow>
            (case wr_state (fptr s) (f + r) s of
               None \<Rightarrow> None
             | Some s1 \<Rightarrow>
                 let i = drop_bit 1 (f + r) AND 0x7fffffff
                 in Some (i, if fptr s + 1 \<ge> end_ptr s then s1\<lparr>fptr := 0, rptr := rptr s + 1\<rparr>
                   else s1\<lparr>fptr := fptr s + 1, rptr := if rptr s + 1 \<ge> end_ptr s then 0 else rptr s + 1\<rparr>))
        | _ \<Rightarrow> None)"

primrec discard :: "nat \<Rightarrow> rng \<Rightarrow> rng option" where
  "discard 0 s = Some s"
| "discard (Suc n) s = (case random s of None \<Rightarrow> None | Some (i, s1) \<Rightarrow> discard n s1)"

text \<open>The linear congruential generator that fills the table: \<open>i\<close> runs to \<open>rand_deg\<close>.\<close>

function fill :: "int \<Rightarrow> rng \<Rightarrow> rng option" where
  "fill i s =
     (if i \<ge> rand_deg s then Some s
      else case rd_state s (i - 1) of
        None \<Rightarrow> None
      | Some w \<Rightarrow>
          (case wr_state i (1103515245 * w + 12345) s of
             None \<Rightarrow> None
           | Some s1 \<Rightarrow> fill (i + 1) s1))"
  by auto
termination
  by (relation "measure (\<lambda>(i, s). nat (rand_deg s - i))") (auto simp: wr_state_def Let_def split: if_splits)

definition srandom :: "u32 \<Rightarrow> rng \<Rightarrow> rng option" where
  "srandom x s =
     (case wr_state 0 x s of
        None \<Rightarrow> None
      | Some s1 \<Rightarrow>
          if rand_type s = 0 then Some s1
          else case fill 1 s1 of
            None \<Rightarrow> None
          | Some s2 \<Rightarrow> discard (nat (10 * rand_deg s2)) (s2\<lparr>fptr := rand_sep s2, rptr := 0\<rparr>))"

text \<open>The word in front of the state: type and position of the rear pointer.\<close>

definition save_pos :: "rng \<Rightarrow> rng option" where
  "save_pos s = wr_state (-1) (if rand_type s = 0 then 0 else word_of_int (MAX_TYPES * rptr s + int (rand_type s))) s"

definition pick_type :: "int \<Rightarrow> nat" where
  "pick_type n = (if n < BREAKS ! 1 then 0 else if n < BREAKS ! 2 then 1 else if n < BREAKS ! 3 then 2 else if n < BREAKS ! 4 then 3 else 4)"

text \<open>The result is the array of the old state, \<open>None\<close> when there is not enough room for a state.\<close>

definition initstate :: "u32 \<Rightarrow> nat \<Rightarrow> int \<Rightarrow> rng \<Rightarrow> (nat option \<times> rng) option" where
  "initstate seed arg_state n s =
     (case save_pos s of
        None \<Rightarrow> None
      | Some s1 \<Rightarrow>
          if n < BREAKS ! 0 then Some (None, s1)
          else let t = pick_type n;
                   s2 = s1\<lparr>rand_type := t, rand_deg := degrees ! t, rand_sep := seps ! t, cur := arg_state, end_ptr := degrees ! t\<rparr>
               in case srandom seed s2 of
                    None \<Rightarrow> None
                  | Some s3 \<Rightarrow> map_option (\<lambda>s4. (Some (cur s), s4)) (save_pos s3))"

definition setstate :: "nat \<Rightarrow> rng \<Rightarrow> (nat \<times> rng) option" where
  "setstate arg_state s =
     (case arrays s arg_state of
        [] \<Rightarrow> None
      | w # _ \<Rightarrow>
          let ty = sint w smod MAX_TYPES; rear = sint w sdiv MAX_TYPES in
          (case save_pos s of
             None \<Rightarrow> None
           | Some s1 \<Rightarrow>
               let t = nat ty;
                   s2 = (if 0 \<le> ty then s1\<lparr>rand_type := t, rand_deg := degrees ! t, rand_sep := seps ! t\<rparr> else s1);
                   s3 = s2\<lparr>cur := arg_state\<rparr>;
                   s4 = (if rand_type s3 \<noteq> 0 then s3\<lparr>rptr := rear, fptr := (rear + rand_sep s3) smod rand_deg s3\<rparr> else s3)
               in Some (cur s, s4\<lparr>end_ptr := rand_deg s4\<rparr>)))"

definition randtbl :: "u32 list" where
  "randtbl = [3,
     0x9a319039, 0x32d9c024, 0x9b663182, 0x5da1f342, 0xde3b81e0, 0xdf0a6fb5,
     0xf103bc02, 0x48f340fb, 0x7449e56b, 0xbeb1dbb0, 0xab5c5918, 0x946554fd,
     0x8c2e680f, 0xeb3d799f, 0xb11ee0b7, 0x2d436b86, 0xda672e2a, 0x1588ca88,
     0xe369735d, 0x904f35f7, 0xd7158fd6, 0x6fa6f051, 0x616e6b96, 0xac94efdc,
     0x36413f93, 0xc622c298, 0xf5a42ab8, 0x8a88d77b, 0xf5ad9d0e, 0x8999220b,
     0x27fb47b9]"

definition rng_start :: rng where
  "rng_start = \<lparr>arrays = (\<lambda>_. [])(0 := randtbl), cur = 0, fptr = 3, rptr = 0, end_ptr = 31, rand_type = 3, rand_deg = 31, rand_sep = 3\<rparr>"

section \<open>The recurrence\<close>

text \<open>A state with a table: the pointers are inside it, \<open>rand_sep\<close> places apart.\<close>

definition rng_ok :: "rng \<Rightarrow> bool" where
  "rng_ok s \<longleftrightarrow> rand_type s \<in> {1, 2, 3, 4} \<and> rand_deg s = degrees ! rand_type s \<and> rand_sep s = seps ! rand_type s \<and>
     end_ptr s = rand_deg s \<and> rand_deg s < int (length (arrays s (cur s))) \<and>
     0 \<le> rptr s \<and> rptr s < rand_deg s \<and> fptr s = (rptr s + rand_sep s) mod rand_deg s"

text \<open>The last \<open>rand_deg\<close> numbers, the oldest first.\<close>

definition history :: "rng \<Rightarrow> u32 list" where
  "history s = rotate (nat (fptr s)) (take (nat (rand_deg s)) (tl (arrays s (cur s))))"

lemma degrees_seps:
  assumes "t \<in> {1, 2, 3, 4 :: nat}"
  shows "0 < seps ! t" "seps ! t < degrees ! t" "degrees ! t \<le> 63"
  using assms by (auto simp: degrees_def seps_def)

lemma rotate_update:
  assumes "k < length xs"
  shows "rotate (Suc k) (xs[k := x]) = tl (rotate k xs) @ [x]"
proof -
  have d: "drop (Suc k) (xs[k := x]) = tl (drop k xs)" by (metis drop_Suc drop_update_cancel lessI tl_drop)
  have t: "take (Suc k) (xs[k := x]) = take k xs @ [x]" using assms by (simp add: take_Suc_conv_app_nth)
  show ?thesis
  proof (cases "Suc k = length xs")
    case True
    then have "xs[k := x] = take k xs @ [x]" using t by simp
    moreover have "tl (drop k xs) = []" using True by (simp add: tl_drop drop_eq_Nil)
    ultimately show ?thesis using True assms by (simp add: rotate_drop_take flip: rotate_Suc)
  next
    case False
    then show ?thesis using assms d t by (simp add: rotate_drop_take flip: rotate_Suc)
  qed
qed

text \<open>The table without its first word, and the pointers as indices into it.\<close>

lemma rng_ok_table:
  assumes "rng_ok s"
  defines "xs \<equiv> take (nat (rand_deg s)) (tl (arrays s (cur s)))"
  shows "length xs = nat (rand_deg s)" "0 \<le> fptr s" "fptr s < rand_deg s"
    "rd_state s (fptr s) = Some (xs ! nat (fptr s))" "rd_state s (rptr s) = Some (xs ! nat (rptr s))"
proof -
  have t: "rand_type s \<in> {1, 2, 3, 4}" "0 < rand_deg s" "rand_deg s < int (length (arrays s (cur s)))" "0 \<le> rptr s" "rptr s < rand_deg s"
    "fptr s = (rptr s + rand_sep s) mod rand_deg s" using assms by (auto simp: rng_ok_def)
  show l: "length xs = nat (rand_deg s)" using t by (simp add: xs_def)
  show f: "0 \<le> fptr s" "fptr s < rand_deg s" using t by simp_all
  have "rd_state s i = Some (xs ! nat i)" if "0 \<le> i" "i < rand_deg s" for i
    using that t l by (auto simp: rd_state_def Let_def xs_def nth_tl nat_add_distrib)
  then show "rd_state s (fptr s) = Some (xs ! nat (fptr s))" "rd_state s (rptr s) = Some (xs ! nat (rptr s))" using t f by auto
qed

lemma history_nth:
  assumes "rng_ok s"
  defines "xs \<equiv> take (nat (rand_deg s)) (tl (arrays s (cur s)))"
  shows "hd (history s) = xs ! nat (fptr s)" "history s ! nat (rand_deg s - rand_sep s) = xs ! nat (rptr s)"
proof -
  note t = rng_ok_table [OF assms(1), folded xs_def]
  have r: "0 < rand_sep s" "rand_sep s < rand_deg s" "0 \<le> rptr s" "rptr s < rand_deg s" "fptr s = (rptr s + rand_sep s) mod rand_deg s"
    using assms(1) degrees_seps by (auto simp: rng_ok_def)
  have h: "history s = rotate (nat (fptr s)) xs" by (simp add: history_def xs_def)
  have "history s ! 0 = xs ! nat (fptr s)" using t r by (simp add: h nth_rotate)
  moreover have "history s \<noteq> []" using t r by (auto simp: h)
  ultimately show "hd (history s) = xs ! nat (fptr s)" by (simp add: hd_conv_nth)
  have "(fptr s + (rand_deg s - rand_sep s)) mod rand_deg s = rptr s"
    using r by (simp add: mod_add_left_eq)
  then have "(nat (fptr s) + nat (rand_deg s - rand_sep s)) mod nat (rand_deg s) = nat (rptr s)"
    using r t by (simp flip: nat_add_distrib nat_mod_distrib)
  then show "history s ! nat (rand_deg s - rand_sep s) = xs ! nat (rptr s)"
    using t r by (simp add: h nth_rotate)
qed

lemma random_step:
  assumes "rng_ok s"
  defines "x \<equiv> hd (history s) + history s ! nat (rand_deg s - rand_sep s)"
  shows "\<exists>s1. random s = Some (drop_bit 1 x, s1) \<and> rng_ok s1 \<and> history s1 = tl (history s) @ [x] \<and>
    rand_type s1 = rand_type s \<and> cur s1 = cur s \<and> (\<forall>a. a \<noteq> cur s \<longrightarrow> arrays s1 a = arrays s a) \<and>
    length (arrays s1 (cur s)) = length (arrays s (cur s)) \<and> fptr s1 = (fptr s + 1) mod rand_deg s"
proof -
  define xs where "xs = take (nat (rand_deg s)) (tl (arrays s (cur s)))"
  note t = rng_ok_table [OF assms(1), folded xs_def] and hn = history_nth [OF assms(1), folded xs_def]
  have r: "rand_type s \<in> {1, 2, 3, 4}" "0 < rand_sep s" "rand_sep s < rand_deg s" "0 \<le> rptr s" "rptr s < rand_deg s"
    "fptr s = (rptr s + rand_sep s) mod rand_deg s" "end_ptr s = rand_deg s" "rand_deg s < int (length (arrays s (cur s)))"
    using assms(1) degrees_seps by (auto simp: rng_ok_def)
  have "drop_bit 1 x AND mask 31 = drop_bit 1 x"
    by (rule bit_word_eqI) (auto simp: bit_simps dest: bit_imp_le_length)
  then have m: "drop_bit 1 x AND 0x7fffffff = drop_bit 1 x" by (simp add: mask_numeral)
  let ?a = "(arrays s (cur s))[nat (fptr s + 1) := x]"
  define s' where "s' = s\<lparr>arrays := (arrays s)(cur s := ?a)\<rparr>"
  have w: "wr_state (fptr s) x s = Some s'" using t(2,3) r(8) by (simp add: wr_state_def s'_def Let_def)
  define s1 where "s1 = s'\<lparr>fptr := (fptr s + 1) mod rand_deg s, rptr := (rptr s + 1) mod rand_deg s\<rparr>"
  have "rptr s + 1 < rand_deg s" if "fptr s + 1 \<ge> rand_deg s"
  proof (rule ccontr)
    assume "\<not> ?thesis"
    then have "rptr s + rand_sep s = rand_deg s + (rand_sep s - 1)" using r(5) by simp
    then have "fptr s = (rand_deg s + (rand_sep s - 1)) mod rand_deg s" unfolding r(6) by (simp only:)
    also have "\<dots> = rand_sep s - 1" using r(2,3) by (simp only: mod_add_self1) simp
    finally show False using r(2,3) that by simp
  qed
  note wrap = this
  have x: "xs ! nat (fptr s) + xs ! nat (rptr s) = x" using hn by (simp add: x_def)
  have "rand_type s \<noteq> 0" using r(1) by auto
  then have "random s = Some (drop_bit 1 x, if fptr s + 1 \<ge> end_ptr s then s'\<lparr>fptr := 0, rptr := rptr s + 1\<rparr>
      else s'\<lparr>fptr := fptr s + 1, rptr := if rptr s + 1 \<ge> end_ptr s then 0 else rptr s + 1\<rparr>)"
    unfolding random_def t(4,5) by (simp only: option.case prod.case x w m Let_def if_False)
  also have "\<dots> = Some (drop_bit 1 x, s1)"
  proof (cases "fptr s + 1 \<ge> rand_deg s")
    case True
    then have "fptr s + 1 = rand_deg s" using t(3) by simp
    then show ?thesis using wrap [OF True] r(4,7) by (simp add: s1_def)
  next
    case False
    then have f: "(fptr s + 1) mod rand_deg s = fptr s + 1" using t(2) by simp
    have "(rptr s + 1) mod rand_deg s = (if rptr s + 1 \<ge> rand_deg s then 0 else rptr s + 1)"
      using r(4,5) by (cases "rptr s + 1 = rand_deg s") auto
    then show ?thesis using False f r(7) by (simp add: s1_def)
  qed
  finally have e: "random s = Some (drop_bit 1 x, s1)" .
  have tab: "take (nat (rand_deg s)) (tl ?a) = xs[nat (fptr s) := x]"
    using t by (cases "arrays s (cur s)") (auto simp: xs_def nat_add_distrib take_update_swap)
  have ok: "rng_ok s1"
  proof -
    have "(fptr s + 1) mod rand_deg s = ((rptr s + 1) mod rand_deg s + rand_sep s) mod rand_deg s"
      unfolding r(6) mod_add_left_eq by (simp add: ac_simps)
    then show ?thesis using assms(1) r(3,4) by (auto simp: rng_ok_def s1_def s'_def)
  qed
  have "history s1 = rotate (nat ((fptr s + 1) mod rand_deg s)) (xs[nat (fptr s) := x])"
    by (simp add: history_def s1_def s'_def tab)
  also have "\<dots> = rotate (Suc (nat (fptr s))) (xs[nat (fptr s) := x])"
    using t r by (subst rotate_conv_mod [of "Suc (nat (fptr s))"]) (simp add: nat_mod_distrib nat_add_distrib Suc_nat_eq_nat_zadd1 add.commute)
  also have "\<dots> = tl (history s) @ [x]"
    using rotate_update [of "nat (fptr s)" xs x] t r by (simp add: history_def xs_def)
  finally show ?thesis using e ok by (intro exI [of _ s1]) (simp add: s1_def s'_def)
qed

text \<open>Runs of the generator, and the recurrence of the trinomial as a function on the last numbers.\<close>

primrec randoms :: "nat \<Rightarrow> rng \<Rightarrow> (u32 list \<times> rng) option" where
  "randoms 0 s = Some ([], s)"
| "randoms (Suc n) s =
     (case random s of
        None \<Rightarrow> None
      | Some (i, s1) \<Rightarrow> map_option (\<lambda>(xs, s2). (i # xs, s2)) (randoms n s1))"

definition feedback :: "nat \<Rightarrow> u32 list \<Rightarrow> u32" where
  "feedback lag h = hd h + h ! lag"

primrec recurrence :: "nat \<Rightarrow> nat \<Rightarrow> u32 list \<Rightarrow> u32 list" where
  "recurrence 0 lag h = []"
| "recurrence (Suc n) lag h = drop_bit 1 (feedback lag h) # recurrence n lag (tl h @ [feedback lag h])"

text \<open>Everything but the table of the state and the two pointers stays.\<close>

definition same_gen :: "rng \<Rightarrow> rng \<Rightarrow> bool" where
  "same_gen s s1 \<longleftrightarrow> rand_type s1 = rand_type s \<and> cur s1 = cur s \<and> rand_deg s1 = rand_deg s \<and> rand_sep s1 = rand_sep s \<and>
     length (arrays s1 (cur s)) = length (arrays s (cur s)) \<and> (\<forall>a. a \<noteq> cur s \<longrightarrow> arrays s1 a = arrays s a)"

lemma same_gen_trans: "same_gen a b \<Longrightarrow> same_gen b c \<Longrightarrow> same_gen a c"
  by (simp add: same_gen_def)

lemma random_step':
  assumes "rng_ok s"
  shows "\<exists>s1. random s = Some (drop_bit 1 (feedback (nat (rand_deg s - rand_sep s)) (history s)), s1) \<and> rng_ok s1 \<and> same_gen s s1 \<and>
    history s1 = tl (history s) @ [feedback (nat (rand_deg s - rand_sep s)) (history s)]"
  using random_step [OF assms] assms unfolding feedback_def same_gen_def rng_ok_def by fastforce

lemma randoms_run:
  assumes "rng_ok s"
  shows "\<exists>s1. randoms n s = Some (recurrence n (nat (rand_deg s - rand_sep s)) (history s), s1) \<and> rng_ok s1 \<and> same_gen s s1"
  using assms
proof (induction n arbitrary: s)
  case (Suc n)
  obtain s1 where s: "random s = Some (drop_bit 1 (feedback (nat (rand_deg s - rand_sep s)) (history s)), s1)" "rng_ok s1" "same_gen s s1"
    "history s1 = tl (history s) @ [feedback (nat (rand_deg s - rand_sep s)) (history s)]" using random_step' [OF Suc.prems] by blast
  obtain s2 where r: "randoms n s1 = Some (recurrence n (nat (rand_deg s1 - rand_sep s1)) (history s1), s2)" "rng_ok s2" "same_gen s1 s2"
    using Suc.IH [OF s(2)] by blast
  have "rand_deg s1 = rand_deg s" "rand_sep s1 = rand_sep s" using s(3) by (simp_all add: same_gen_def)
  then show ?case using s r same_gen_trans [OF s(3) r(3)] by simp
qed (simp add: same_gen_def)

text \<open>
  C18. The generator: from every proper state \<open>random\<close> returns for ever, never touches a word outside
  its table, and its numbers are those of the additive recurrence over the last \<open>rand_deg\<close> words,
  without their lowest bit.
\<close>

theorem random_recurrence:
  assumes "rng_ok s"
  shows "\<exists>s1. randoms n s = Some (recurrence n (nat (rand_deg s - rand_sep s)) (history s), s1) \<and> rng_ok s1"
  using randoms_run [OF assms] by blast

lemma start_ok: "rng_ok rng_start"
  by (simp add: rng_ok_def rng_start_def randtbl_def degrees_def seps_def)

theorem random_recurrence_witness: "\<exists>s1. randoms 3 rng_start = Some ([2078917053, 143302914, 1027100827], s1)"
proof -
  have "recurrence 3 28 (history rng_start) = [2078917053, 143302914, 1027100827]" by code_simp
  then show ?thesis using random_recurrence [OF start_ok, of 3] by (auto simp: rng_start_def)
qed

text \<open>The table after a run.\<close>

definition advance :: "nat \<Rightarrow> u32 list \<Rightarrow> u32 list" where
  "advance lag h = tl h @ [feedback lag h]"

lemma discard_history:
  assumes "rng_ok s"
  shows "\<exists>s1. discard n s = Some s1 \<and> rng_ok s1 \<and> same_gen s s1 \<and> fptr s1 = (fptr s + int n) mod rand_deg s \<and>
    history s1 = (advance (nat (rand_deg s - rand_sep s)) ^^ n) (history s)"
  using assms
proof (induction n arbitrary: s)
  case 0
  then show ?case using rng_ok_table(2,3) [of s] by (simp add: same_gen_def)
next
  case (Suc n)
  obtain s1 where s: "random s = Some (drop_bit 1 (feedback (nat (rand_deg s - rand_sep s)) (history s)), s1)" "rng_ok s1"
    "history s1 = advance (nat (rand_deg s - rand_sep s)) (history s)" "same_gen s s1" "fptr s1 = (fptr s + 1) mod rand_deg s"
    using random_step [OF Suc.prems] Suc.prems unfolding feedback_def advance_def same_gen_def rng_ok_def by fastforce
  obtain s2 where t: "discard n s1 = Some s2" "rng_ok s2" "same_gen s1 s2" "fptr s2 = (fptr s1 + int n) mod rand_deg s1"
    "history s2 = (advance (nat (rand_deg s1 - rand_sep s1)) ^^ n) (history s1)" using Suc.IH [OF s(2)] by blast
  have k: "rand_deg s1 = rand_deg s" "rand_sep s1 = rand_sep s" using s(4) by (simp_all add: same_gen_def)
  have "fptr s2 = (fptr s + int (Suc n)) mod rand_deg s" unfolding t(4) k s(5) mod_add_left_eq by (simp add: ac_simps)
  then show ?case using s t same_gen_trans [OF s(4) t(3)] by (simp add: k funpow_swap1)
qed

lemma table_of_history:
  assumes "rng_ok s"
  shows "take (nat (rand_deg s)) (tl (arrays s (cur s))) = rotate (nat (rand_deg s - fptr s)) (history s)"
  using rng_ok_table(1-3) [OF assms] by (simp add: history_def rotate_rotate rotate_id nat_diff_distrib)

section \<open>Switching between states\<close>

lemma wr_state_ok:
  assumes "-1 \<le> i" "i + 1 < int (length (arrays s (cur s)))"
  shows "wr_state i w s = Some (s\<lparr>arrays := (arrays s)(cur s := (arrays s (cur s))[nat (i + 1) := w])\<rparr>)"
  using assms by (simp add: wr_state_def Let_def)

lemma same_gen_write: "same_gen s (s\<lparr>arrays := (arrays s)(cur s := (arrays s (cur s))[k := w])\<rparr>)"
  by (simp add: same_gen_def)

lemma fill_ok:
  "1 \<le> i \<Longrightarrow> rand_deg s < int (length (arrays s (cur s))) \<Longrightarrow> \<exists>s1. fill i s = Some s1 \<and> same_gen s s1 \<and> end_ptr s1 = end_ptr s"
proof (induction i s rule: fill.induct)
  case (1 i s)
  show ?case
  proof (cases "i \<ge> rand_deg s")
    case True
    then show ?thesis by (simp add: fill.simps [of i s] same_gen_def)
  next
    case False
    then obtain w where w: "rd_state s (i - 1) = Some w" using 1 by (auto simp: rd_state_def Let_def)
    let ?v = "1103515245 * w + 12345"
    define s1 where "s1 = s\<lparr>arrays := (arrays s)(cur s := (arrays s (cur s))[nat (i + 1) := ?v])\<rparr>"
    have s1: "wr_state i ?v s = Some s1" using False 1(2,3) by (simp add: wr_state_ok s1_def)
    have g: "same_gen s s1" "end_ptr s1 = end_ptr s" by (simp_all add: s1_def same_gen_write)
    have l: "rand_deg s1 < int (length (arrays s1 (cur s1)))" "1 \<le> i + 1" using 1(2,3) by (simp_all add: s1_def)
    obtain s2 where s2: "fill (i + 1) s1 = Some s2" "same_gen s1 s2" "end_ptr s2 = end_ptr s1"
      using 1(1) [OF False w s1 l(2,1)] by blast
    have "fill i s = Some s2" using False w s1 s2(1) by (simp add: fill.simps [of i s])
    then show ?thesis using same_gen_trans [OF g(1) s2(2)] s2(3) g(2) by simp
  qed
qed

declare fill.simps [simp del]

lemma discard_randoms: "discard n s = map_option snd (randoms n s)"
  by (induction n arbitrary: s) (auto split: option.splits simp: option.map_comp comp_def case_prod_beta)

text \<open>A generator of one of the types with a table, in an array that is large enough.\<close>

definition gen_set :: "rng \<Rightarrow> bool" where
  "gen_set s \<longleftrightarrow> rand_type s \<in> {1, 2, 3, 4} \<and> rand_deg s = degrees ! rand_type s \<and> rand_sep s = seps ! rand_type s \<and>
     end_ptr s = rand_deg s \<and> rand_deg s < int (length (arrays s (cur s)))"

lemma srandom_ok:
  assumes "gen_set s"
  shows "\<exists>s1. srandom x s = Some s1 \<and> rng_ok s1 \<and> same_gen s s1"
proof -
  have t: "rand_type s \<in> {1, 2, 3, 4}" "end_ptr s = rand_deg s" "rand_deg s < int (length (arrays s (cur s)))"
    "rand_deg s = degrees ! rand_type s" "rand_sep s = seps ! rand_type s"
    using assms by (simp_all add: gen_set_def)
  then have t: "rand_type s \<noteq> 0" "0 < rand_sep s" "rand_sep s < rand_deg s" "rand_deg s < int (length (arrays s (cur s)))"
    "rand_type s \<in> {1, 2, 3, 4}" "end_ptr s = rand_deg s"
    using degrees_seps [OF t(1)] by auto
  define s1 where "s1 = s\<lparr>arrays := (arrays s)(cur s := (arrays s (cur s))[nat (0 + 1) := x])\<rparr>"
  have s1: "wr_state 0 x s = Some s1" unfolding s1_def by (rule wr_state_ok) (use t(2-4) in simp_all)
  have g1: "same_gen s s1" "end_ptr s1 = end_ptr s" unfolding s1_def by (rule same_gen_write) simp
  have "rand_deg s1 < int (length (arrays s1 (cur s1)))" using t(4) by (simp add: s1_def)
  then obtain s2 where s2: "fill 1 s1 = Some s2" "same_gen s1 s2" "end_ptr s2 = end_ptr s1"
    using fill_ok [of 1 s1] by auto
  have g: "same_gen s s2" using g1(1) s2(2) by (rule same_gen_trans)
  define s3 where "s3 = s2\<lparr>fptr := rand_sep s2, rptr := 0\<rparr>"
  have g3: "same_gen s s3" using g by (simp add: same_gen_def s3_def)
  have k: "rand_type s2 = rand_type s" "rand_deg s2 = rand_deg s" "rand_sep s2 = rand_sep s" "end_ptr s2 = rand_deg s"
    "rand_deg s < int (length (arrays s2 (cur s2)))" using g g1(2) s2(3) t(4,6) by (simp_all add: same_gen_def)
  have "rand_deg s = degrees ! rand_type s" "rand_sep s = seps ! rand_type s" using assms by (simp_all add: gen_set_def)
  then have ok: "rng_ok s3"
    using k t(2,3,5) by (simp add: rng_ok_def s3_def)
  obtain s4 xs where s4: "randoms (nat (10 * rand_deg s2)) s3 = Some (xs, s4)" "rng_ok s4" "same_gen s3 s4"
    using randoms_run [OF ok, of "nat (10 * rand_deg s2)"] by blast
  have "srandom x s = discard (nat (10 * rand_deg s2)) s3"
    unfolding srandom_def s1 option.case s2(1) s3_def using t(1) by (simp only: if_False)
  then have "srandom x s = Some s4" unfolding discard_randoms s4(1) by (simp only: option.map snd_conv)
  then show ?thesis using s4(2) same_gen_trans [OF g3 s4(3)] by simp
qed

lemma save_pos_ok:
  assumes "arrays s (cur s) \<noteq> []"
  shows "save_pos s = Some (s\<lparr>arrays := (arrays s)(cur s := (if rand_type s = 0 then 0 else word_of_int (MAX_TYPES * rptr s + int (rand_type s))) # tl (arrays s (cur s)))\<rparr>)"
  using assms unfolding save_pos_def by (subst wr_state_ok) (cases "arrays s (cur s)"; simp)+

lemma initstate_ok:
  assumes "rng_ok s" "b \<noteq> cur s" "32 \<le> n" "degrees ! pick_type n < int (length (arrays s b))"
  shows "\<exists>s1. initstate seed b n s = Some (Some (cur s), s1) \<and> rng_ok s1 \<and> cur s1 = b \<and>
    arrays s1 (cur s) = word_of_int (MAX_TYPES * rptr s + int (rand_type s)) # tl (arrays s (cur s))"
proof -
  have ne: "arrays s (cur s) \<noteq> []" "rand_type s \<noteq> 0" using assms(1) by (auto simp: rng_ok_def degrees_def)
  define s1 where "s1 = s\<lparr>arrays := (arrays s)(cur s := word_of_int (MAX_TYPES * rptr s + int (rand_type s)) # tl (arrays s (cur s)))\<rparr>"
  have p1: "save_pos s = Some s1" using save_pos_ok [OF ne(1)] ne(2) by (simp add: s1_def)
  define t where "t = pick_type n"
  have t: "t \<in> {1, 2, 3, 4}" using assms(3) by (simp add: t_def pick_type_def BREAKS_def)
  define s2 where "s2 = s1\<lparr>rand_type := t, rand_deg := degrees ! t, rand_sep := seps ! t, cur := b, end_ptr := degrees ! t\<rparr>"
  have "gen_set s2" using t assms(2,4) by (simp add: gen_set_def s2_def s1_def t_def)
  then obtain s3 where s3: "srandom seed s2 = Some s3" "rng_ok s3" "same_gen s2 s3" using srandom_ok by blast
  have c3: "cur s3 = b" "arrays s3 (cur s) = arrays s1 (cur s)" using s3(3) assms(2) by (auto simp: same_gen_def s2_def)
  have ne3: "arrays s3 (cur s3) \<noteq> []" using s3(2) by (auto simp: rng_ok_def degrees_def)
  define s4 where "s4 = s3\<lparr>arrays := (arrays s3)(b := (if rand_type s3 = 0 then 0 else word_of_int (MAX_TYPES * rptr s3 + int (rand_type s3))) # tl (arrays s3 b))\<rparr>"
  have p3: "save_pos s3 = Some s4" using save_pos_ok [OF ne3] c3 by (simp add: s4_def)
  have "initstate seed b n s = Some (Some (cur s), s4)"
    using p1 p3 s3(1) assms(3) by (simp add: initstate_def BREAKS_def Let_def flip: t_def s2_def)
  moreover have "rng_ok s4" using s3(2) c3 ne3 by (auto simp: rng_ok_def s4_def)
  moreover have "arrays s4 (cur s) = word_of_int (MAX_TYPES * rptr s + int (rand_type s)) # tl (arrays s (cur s))"
    using assms(2) c3 by (simp add: s4_def s1_def)
  ultimately show ?thesis using c3 by (simp add: s4_def)
qed

text \<open>
  C19. A state comes back: after \<open>initstate\<close> with another array, and any number of calls of \<open>random\<close>,
  \<open>setstate\<close> with the array that was returned restores the generator as it was, so that the numbers
  go on where they stopped.
\<close>

theorem setstate_resumes:
  assumes "rng_ok s" "b \<noteq> cur s" "32 \<le> n" "degrees ! pick_type n < int (length (arrays s b))"
  shows "\<exists>s1 xs s2 s3. initstate seed b n s = Some (Some (cur s), s1) \<and> randoms k s1 = Some (xs, s2) \<and>
    setstate (cur s) s2 = Some (b, s3) \<and> rng_ok s3 \<and> history s3 = history s \<and> rand_type s3 = rand_type s \<and> cur s3 = cur s"
proof -
  obtain s1 where s1: "initstate seed b n s = Some (Some (cur s), s1)" "rng_ok s1" "cur s1 = b"
    "arrays s1 (cur s) = word_of_int (MAX_TYPES * rptr s + int (rand_type s)) # tl (arrays s (cur s))"
    using initstate_ok [OF assms] by blast
  obtain xs s2 where s2: "randoms k s1 = Some (xs, s2)" "rng_ok s2" "same_gen s1 s2" using randoms_run [OF s1(2)] by blast
  define w :: u32 where "w = word_of_int (MAX_TYPES * rptr s + int (rand_type s))"
  have a2: "arrays s2 (cur s) = w # tl (arrays s (cur s))" "cur s2 = b" using s2(3) s1(3,4) assms(2) by (auto simp: same_gen_def w_def)
  have r: "rand_type s \<in> {1, 2, 3, 4}" "0 < rand_sep s" "rand_sep s < rand_deg s" "rand_deg s \<le> 63" "0 \<le> rptr s" "rptr s < rand_deg s"
    "fptr s = (rptr s + rand_sep s) mod rand_deg s" "rand_deg s = degrees ! rand_type s" "rand_sep s = seps ! rand_type s" "end_ptr s = rand_deg s"
    "rand_deg s < int (length (arrays s (cur s)))"
    using assms(1) degrees_seps by (auto simp: rng_ok_def)
  have w: "sint w = MAX_TYPES * rptr s + int (rand_type s)"
  proof -
    have "0 \<le> MAX_TYPES * rptr s + int (rand_type s)" "MAX_TYPES * rptr s + int (rand_type s) < 400"
      using r(1,4-6) by (auto simp: MAX_TYPES_def)
    then show ?thesis unfolding w_def sint_sbintrunc' by (intro signed_take_bit_int_eq_self) simp_all
  qed
  have ty: "sint w smod MAX_TYPES = int (rand_type s)" "sint w sdiv MAX_TYPES = rptr s"
    unfolding w using r(1,5) by (auto simp: MAX_TYPES_def signed_modulo_int_def signed_divide_int_def)
  have ne2: "arrays s2 (cur s2) \<noteq> []" using s2(2) by (auto simp: rng_ok_def degrees_def)
  define s3 where "s3 = (s2\<lparr>arrays := (arrays s2)(b := (if rand_type s2 = 0 then 0 else word_of_int (MAX_TYPES * rptr s2 + int (rand_type s2))) # tl (arrays s2 b)),
     rand_type := rand_type s, rand_deg := rand_deg s, rand_sep := rand_sep s, cur := cur s, rptr := rptr s, fptr := fptr s, end_ptr := rand_deg s\<rparr>)"
  have f: "(rptr s + rand_sep s) smod rand_deg s = fptr s"
    using r by (simp add: signed_modulo_int_def signed_divide_int_def minus_div_mult_eq_mod mult.commute)
  have "setstate (cur s) s2 = Some (b, s3)"
    using r(1) f a2(2) by (auto simp: setstate_def a2(1) ty save_pos_ok [OF ne2] s3_def Let_def r(8,9) [symmetric])
  moreover have "rng_ok s3" using r a2 assms(2) by (auto simp: rng_ok_def s3_def)
  moreover have "history s3 = history s" using a2 assms(2) by (simp add: history_def s3_def)
  ultimately show ?thesis using s1(1) s2(1) by (auto simp: s3_def)
qed

theorem setstate_resumes_witness:
  "\<exists>s1 xs s2 s3. initstate 7 1 32 (rng_start\<lparr>arrays := (arrays rng_start)(1 := replicate 8 0)\<rparr>) = Some (Some 0, s1) \<and>
     randoms 5 s1 = Some (xs, s2) \<and> setstate 0 s2 = Some (1, s3) \<and> history s3 = history rng_start"
proof -
  let ?s = "rng_start\<lparr>arrays := (arrays rng_start)(1 := replicate 8 0)\<rparr>"
  have "rng_ok ?s" by (simp add: rng_ok_def rng_start_def randtbl_def degrees_def seps_def)
  moreover have "cur ?s = 0" "history ?s = history rng_start" by (simp_all add: rng_start_def history_def)
  moreover have "degrees ! pick_type 32 < int (length (arrays ?s 1))" by (simp add: degrees_def pick_type_def BREAKS_def)
  ultimately show ?thesis using setstate_resumes [of ?s 1 32 7 5] by auto
qed

section \<open>The position that is not stored\<close>

text \<open>
  \<open>setstate\<close> with the array that is in use goes back to the position that was stored last: after
  two numbers the rear pointer is moved to where it was before them, over a table that has changed,
  and the next number is not the third of the sequence.
\<close>

theorem setstate_same_state:
  "map_option fst (randoms 3 rng_start) = Some [2078917053, 143302914, 1027100827] \<and>
   (case randoms 2 rng_start of
      None \<Rightarrow> False
    | Some (xs, s) \<Rightarrow> rptr s = 2 \<and>
       (case setstate 0 s of None \<Rightarrow> False | Some (a, s1) \<Rightarrow> rptr s1 = 0 \<and> map_option fst (random s1) = Some 1224903130))"
  by code_simp

section \<open>The table in the source\<close>

text \<open>The table of the linear congruential generator from seed 1.\<close>

definition lcg_table :: "u32 list" where
  "lcg_table = rev (fold (\<lambda>_ xs. (1103515245 * hd xs + 12345) # xs) [0..<30] [1])"

definition before_fill :: rng where
  "before_fill = rng_start\<lparr>arrays := (arrays rng_start)(0 := 3 # 1 # drop 2 randtbl)\<rparr>"

lemma filled: "map_option (\<lambda>s. arrays s 0) (fill 1 before_fill) = Some (3 # lcg_table)"
  by code_simp

lemma fold_funpow: "fold (\<lambda>_. f) xs x = (f ^^ length xs) x"
  by (induction xs arbitrary: x) (simp_all add: funpow_swap1)

lemma advance_310: "(advance 28 ^^ 310) (rotate 3 lcg_table) = rotate 3 (tl randtbl)"
proof -
  have "fold (\<lambda>_. advance 28) [0..<310] (rotate 3 lcg_table) = rotate 3 (tl randtbl)" by code_simp
  then show ?thesis by (simp add: fold_funpow)
qed

text \<open>
  The initial table is the one of its comment: \<open>initstate(1, randtbl, 128)\<close> on the initial state gives
  the same table and the same pointers again.
\<close>

theorem initstate_default:
  "\<exists>s. initstate 1 0 128 rng_start = Some (Some 0, s) \<and> arrays s 0 = randtbl \<and> cur s = 0 \<and> fptr s = fptr rng_start \<and>
     rptr s = rptr rng_start \<and> rand_type s = rand_type rng_start"
proof -
  have p: "save_pos rng_start = Some rng_start"
    by (simp add: save_pos_def wr_state_def rng_start_def randtbl_def Let_def MAX_TYPES_def fun_eq_iff)
  have t: "rng_start\<lparr>rand_type := 3, rand_deg := degrees ! 3, rand_sep := seps ! 3, cur := 0, end_ptr := degrees ! 3\<rparr> = rng_start"
    by (simp add: rng_start_def degrees_def seps_def)
  have w: "wr_state 0 1 rng_start = Some before_fill"
    by (simp add: wr_state_def rng_start_def before_fill_def randtbl_def Let_def)
  obtain s2 where s2: "fill 1 before_fill = Some s2" "same_gen before_fill s2" "end_ptr s2 = 31"
    using fill_ok [of 1 before_fill] by (auto simp: before_fill_def rng_start_def randtbl_def)
  have a2: "arrays s2 0 = 3 # lcg_table" using filled s2(1) by simp
  have k2: "rand_type s2 = 3" "rand_deg s2 = 31" "rand_sep s2 = 3" "cur s2 = 0"
    using s2(2) by (simp_all add: same_gen_def before_fill_def rng_start_def)
  define s3 where "s3 = s2\<lparr>fptr := 3, rptr := 0\<rparr>"
  have l: "length lcg_table = 31" by code_simp
  have ok: "rng_ok s3" using k2 s2(3) a2 l by (simp add: rng_ok_def s3_def degrees_def seps_def)
  have h: "history s3 = rotate 3 lcg_table" using k2 a2 l by (simp add: history_def s3_def)
  obtain s4 where s4: "discard 310 s3 = Some s4" "rng_ok s4" "same_gen s3 s4" "fptr s4 = (fptr s3 + 310) mod 31"
    "history s4 = rotate 3 (tl randtbl)"
    using discard_history [OF ok, of 310] h k2 advance_310 by (auto simp: s3_def)
  have k4: "fptr s4 = 3" "cur s4 = 0" "rand_deg s4 = 31" "rand_sep s4 = 3" "rand_type s4 = 3" "length (arrays s4 0) = 32"
    using s4(3,4) k2 a2 l by (simp_all add: s3_def same_gen_def)
  have r4: "rptr s4 = 0" using s4(2) k4 by (auto simp: rng_ok_def) presburger
  have "take 31 (tl (arrays s4 0)) = rotate 28 (rotate 3 (tl randtbl))"
    using table_of_history [OF s4(2)] unfolding k4 s4(5) by simp
  then have tl: "tl (arrays s4 0) = tl randtbl"
    using k4(6) by (simp add: rotate_rotate) (simp add: randtbl_def)
  have ne: "arrays s4 (cur s4) \<noteq> []" using k4 by auto
  have "srandom 1 rng_start = Some s4"
    using w s2(1) s4(1) k2 by (simp add: srandom_def s3_def) (simp add: rng_start_def)
  then have "initstate 1 0 128 rng_start = Some (Some 0, s4\<lparr>arrays := (arrays s4)(0 := 3 # tl (arrays s4 0))\<rparr>)"
    using p t save_pos_ok [OF ne] k4 r4
    by (simp add: initstate_def BREAKS_def pick_type_def Let_def MAX_TYPES_def) (simp add: rng_start_def)
  then show ?thesis using tl k4 r4 by (simp add: rng_start_def) (simp add: randtbl_def)
qed

end
