(* ===== verification/Ppp_Header.thy ===== *)
theory Ppp_Header
  imports Ppp_Prelude
begin

text \<open>
  The header \<open>pppLib.h\<close> and the files it includes are not part of the sources: their constants
  and access macros are a parameter of the model, a record \<open>hdr\<close> that every definition
  which uses one of them takes as an argument. What the sources rely on is the hypothesis
  \<open>hdr_ok\<close>: the byte-order macros are inverse to each other and advance the pointer by
  the width of the value, constants that are labels of one \<open>switch\<close> are distinct (or the code
  would not compile), and the header lengths are what the parsing code consumes. \<open>std_hdr\<close> is
  an instance with the values RFC 1661, 1332 and 1334 assign, used by the witnesses.
\<close>

record hdr =
  \<comment> \<open>GETSHORT, PUTSHORT, GETLONG, PUTLONG: value of the bytes, bytes of the value\<close>
  getshort :: "u8 \<Rightarrow> u8 \<Rightarrow> u16"
  putshort :: "u16 \<Rightarrow> bytes"
  getlong :: "u8 \<Rightarrow> u8 \<Rightarrow> u8 \<Rightarrow> u8 \<Rightarrow> u32"
  putlong :: "u32 \<Rightarrow> bytes"
  \<comment> \<open>ntohl and htonl of the target\<close>
  htonl :: "u32 \<Rightarrow> u32"
  ntohl :: "u32 \<Rightarrow> u32"
  \<comment> \<open>MAKEHEADER: the DLLHEADERLEN bytes in front of a frame of the given protocol\<close>
  MAKEHEADER :: "u16 \<Rightarrow> bytes"
  \<comment> \<open>conversion of a value stored in the field \<open>reqid\<close> of struct fsm\<close>
  reqid_conv :: "int \<Rightarrow> int"
  HEADERLEN :: int
  UPAP_HEADERLEN :: int
  CHAP_HEADERLEN :: int
  DLLHEADERLEN :: int
  MTU :: int
  DEFMRU :: int
  MAXMRU :: int
  MINMRU :: int
  PPP_MRU :: int
  DEFTIMEOUT :: int
  DEFMAXCONFREQS :: int
  DEFMAXTERMREQS :: int
  DEFMAXNAKLOOPS :: int
  \<comment> \<open>protocol numbers\<close>
  LCP :: u16
  IPCP :: u16
  UPAP :: u16
  CHAP :: u16
  LQR :: u16
  \<comment> \<open>packet codes\<close>
  CONFREQ :: u8
  CONFACK :: u8
  CONFNAK :: u8
  CONFREJ :: u8
  TERMREQ :: u8
  TERMACK :: u8
  CODEREJ :: u8
  PROTREJ :: u8
  ECHOREQ :: u8
  ECHOREP :: u8
  DISCREQ :: u8
  \<comment> \<open>LCP option types\<close>
  CI_MRU :: u8
  CI_ASYNCMAP :: u8
  CI_AUTHTYPE :: u8
  CI_QUALITY :: u8
  CI_MAGICNUMBER :: u8
  CI_PCOMPRESSION :: u8
  CI_ACCOMPRESSION :: u8
  CHAP_DIGEST_MD5 :: u8
  \<comment> \<open>IPCP option types\<close>
  CI_ADDRS :: u8
  CI_COMPRESSTYPE :: u8
  CI_ADDR :: u8
  IPCP_VJ_COMP :: u16
  IPCP_VJ_COMP_OLD :: u16
  MAX_STATES :: u8
  \<comment> \<open>authentication protocols\<close>
  UPAP_AUTHREQ :: u8
  UPAP_AUTHACK :: u8
  UPAP_AUTHNAK :: u8
  UPAP_DEFTIMEOUT :: int
  CHAP_CHALLENGE :: u8
  CHAP_RESPONSE :: u8
  CHAP_SUCCESS :: u8
  CHAP_FAILURE :: u8
  CHAP_DEFTIMEOUT :: int
  CHAP_DEFTRANSMITS :: int
  MAX_CHALLENGE_LENGTH :: nat
  MIN_CHALLENGE_LENGTH :: nat
  MD5_SIGNATURE_SIZE :: nat
  MAXSECRETLEN :: nat
  \<comment> \<open>flags of the kernel driver\<close>
  SC_COMP_PROT :: u32
  SC_COMP_AC :: u32
  SC_REJ_COMP_AC :: u32
  SC_COMP_TCP :: u32
  SC_NO_TCP_CCID :: u32
  SC_ENABLE_IP :: u32
  IFF_UP :: u32

section \<open>What the sources rely on\<close>

definition codec_ok :: "hdr \<Rightarrow> bool" where
  "codec_ok h \<longleftrightarrow>
     (\<forall>v. \<exists>a b. putshort h v = [a, b] \<and> getshort h a b = v) \<and>
     (\<forall>a b. putshort h (getshort h a b) = [a, b]) \<and>
     (\<forall>v. \<exists>a b c d. putlong h v = [a, b, c, d] \<and> getlong h a b c d = v) \<and>
     (\<forall>a b c d. putlong h (getlong h a b c d) = [a, b, c, d]) \<and>
     (\<forall>x. htonl h (ntohl h x) = x) \<and> (\<forall>x. ntohl h (htonl h x) = x) \<and>
     (\<forall>p. int (length (MAKEHEADER h p)) = DLLHEADERLEN h) \<and>
     (\<forall>b::u8. reqid_conv h (uint b) = uint b) \<and>
     HEADERLEN h = 4 \<and> UPAP_HEADERLEN h = 4 \<and> CHAP_HEADERLEN h = 4 \<and> DLLHEADERLEN h = 4"

definition lengths_ok :: "hdr \<Rightarrow> bool" where
  "lengths_ok h \<longleftrightarrow> 64 \<le> MINMRU h \<and> MINMRU h \<le> DEFMRU h \<and> DEFMRU h \<le> MTU h \<and> MTU h < 2 ^ 15"

definition codes_ok :: "hdr \<Rightarrow> bool" where
  "codes_ok h \<longleftrightarrow>
     distinct [CONFREQ h, CONFACK h, CONFNAK h, CONFREJ h, TERMREQ h, TERMACK h, CODEREJ h,
       PROTREJ h, ECHOREQ h, ECHOREP h, DISCREQ h] \<and>
     distinct [UPAP_AUTHREQ h, UPAP_AUTHACK h, UPAP_AUTHNAK h] \<and>
     distinct [CHAP_CHALLENGE h, CHAP_RESPONSE h, CHAP_SUCCESS h, CHAP_FAILURE h]"

definition types_ok :: "hdr \<Rightarrow> bool" where
  "types_ok h \<longleftrightarrow>
     distinct [CI_MRU h, CI_ASYNCMAP h, CI_AUTHTYPE h, CI_QUALITY h, CI_MAGICNUMBER h,
       CI_PCOMPRESSION h, CI_ACCOMPRESSION h] \<and>
     distinct [CI_ADDRS h, CI_COMPRESSTYPE h, CI_ADDR h] \<and>
     IPCP_VJ_COMP h \<noteq> IPCP_VJ_COMP_OLD h \<and>
     distinct [LCP h, IPCP h, UPAP h, CHAP h]"

definition hdr_ok :: "hdr \<Rightarrow> bool" where
  "hdr_ok h \<longleftrightarrow> codec_ok h \<and> lengths_ok h \<and> codes_ok h \<and> types_ok h"

section \<open>The instance with the assigned numbers\<close>

text \<open>Network byte order on a big-endian target.\<close>

definition be_getshort :: "u8 \<Rightarrow> u8 \<Rightarrow> u16" where
  "be_getshort a b = push_bit 8 (ucast a) OR ucast b"

definition be_putshort :: "u16 \<Rightarrow> bytes" where
  "be_putshort v = [ucast (drop_bit 8 v), ucast v]"

definition be_getlong :: "u8 \<Rightarrow> u8 \<Rightarrow> u8 \<Rightarrow> u8 \<Rightarrow> u32" where
  "be_getlong a b c d =
     push_bit 24 (ucast a) OR push_bit 16 (ucast b) OR push_bit 8 (ucast c) OR ucast d"

definition be_putlong :: "u32 \<Rightarrow> bytes" where
  "be_putlong v = [ucast (drop_bit 24 v), ucast (drop_bit 16 v), ucast (drop_bit 8 v), ucast v]"

definition std_hdr :: hdr where
  "std_hdr = \<lparr>
     getshort = be_getshort, putshort = be_putshort, getlong = be_getlong, putlong = be_putlong,
     htonl = (\<lambda>x. x), ntohl = (\<lambda>x. x),
     MAKEHEADER = (\<lambda>p. [0xff, 0x03] @ be_putshort p),
     reqid_conv = (\<lambda>x. x mod 256),
     HEADERLEN = 4, UPAP_HEADERLEN = 4, CHAP_HEADERLEN = 4, DLLHEADERLEN = 4,
     MTU = 1500, DEFMRU = 1500, MAXMRU = 16384, MINMRU = 128, PPP_MRU = 1500,
     DEFTIMEOUT = 3, DEFMAXCONFREQS = 10, DEFMAXTERMREQS = 2, DEFMAXNAKLOOPS = 5,
     LCP = 0xc021, IPCP = 0x8021, UPAP = 0xc023, CHAP = 0xc223, LQR = 0xc025,
     CONFREQ = 1, CONFACK = 2, CONFNAK = 3, CONFREJ = 4, TERMREQ = 5, TERMACK = 6, CODEREJ = 7,
     PROTREJ = 8, ECHOREQ = 9, ECHOREP = 10, DISCREQ = 11,
     CI_MRU = 1, CI_ASYNCMAP = 2, CI_AUTHTYPE = 3, CI_QUALITY = 4, CI_MAGICNUMBER = 5,
     CI_PCOMPRESSION = 7, CI_ACCOMPRESSION = 8, CHAP_DIGEST_MD5 = 5,
     CI_ADDRS = 1, CI_COMPRESSTYPE = 2, CI_ADDR = 3,
     IPCP_VJ_COMP = 0x002d, IPCP_VJ_COMP_OLD = 0x0037, MAX_STATES = 16,
     UPAP_AUTHREQ = 1, UPAP_AUTHACK = 2, UPAP_AUTHNAK = 3, UPAP_DEFTIMEOUT = 3,
     CHAP_CHALLENGE = 1, CHAP_RESPONSE = 2, CHAP_SUCCESS = 3, CHAP_FAILURE = 4,
     CHAP_DEFTIMEOUT = 3, CHAP_DEFTRANSMITS = 10,
     MAX_CHALLENGE_LENGTH = 64, MIN_CHALLENGE_LENGTH = 32, MD5_SIGNATURE_SIZE = 16,
     MAXSECRETLEN = 256,
     SC_COMP_PROT = 1, SC_COMP_AC = 2, SC_REJ_COMP_AC = 16, SC_COMP_TCP = 4,
     SC_NO_TCP_CCID = 8, SC_ENABLE_IP = 256, IFF_UP = 1\<rparr>"

lemma u8_bit_ge [simp]: "8 \<le> n \<Longrightarrow> \<not> bit (b :: u8) n"
  by (auto dest: bit_imp_le_length)

lemma be_short_put_get: "be_getshort (ucast (drop_bit 8 v)) (ucast v) = v"
  by (rule bit_word_eqI) (auto simp: be_getshort_def bit_simps)

lemma be_short_get_put: "be_putshort (be_getshort a b) = [a, b]"
  unfolding be_putshort_def be_getshort_def
  by (auto intro!: bit_word_eqI simp: bit_simps)

lemma be_long_put_get:
  "be_getlong (ucast (drop_bit 24 v)) (ucast (drop_bit 16 v)) (ucast (drop_bit 8 v)) (ucast v) = v"
proof (rule bit_word_eqI)
  fix n assume "n < LENGTH(32)"
  then consider "n < 8" | "8 \<le> n" "n < 16" | "16 \<le> n" "n < 24" | "24 \<le> n" "n < 32"
    by fastforce
  then show "bit (be_getlong (ucast (drop_bit 24 v)) (ucast (drop_bit 16 v))
      (ucast (drop_bit 8 v)) (ucast v)) n = bit v n"
    by cases (auto simp: be_getlong_def bit_simps)
qed

lemma be_long_get_put: "be_putlong (be_getlong a b c d) = [a, b, c, d]"
  unfolding be_putlong_def be_getlong_def
  by (auto intro!: bit_word_eqI simp: bit_simps)

lemma length_be_putshort: "length (be_putshort v) = 2"
  by (simp add: be_putshort_def)

lemma std_codec_ok: "codec_ok std_hdr"
proof -
  have s: "\<exists>a b. be_putshort v = [a, b] \<and> be_getshort a b = v" for v
    using be_short_put_get [of v] by (auto simp: be_putshort_def)
  have l: "\<exists>a b c d. be_putlong v = [a, b, c, d] \<and> be_getlong a b c d = v" for v
    using be_long_put_get [of v] by (auto simp: be_putlong_def)
  have r: "uint b mod 256 = uint b" for b :: u8
    using uint_lt2p [of b] by (simp add: mod_pos_pos_trivial)
  show ?thesis
    unfolding codec_ok_def
    by (intro conjI allI)
      (simp_all add: std_hdr_def s l r be_short_get_put be_long_get_put length_be_putshort)
qed

lemma std_hdr_ok: "hdr_ok std_hdr"
  unfolding hdr_ok_def
  by (intro conjI std_codec_ok) (simp_all add: lengths_ok_def codes_ok_def types_ok_def std_hdr_def)

section \<open>The access macros as an interface\<close>

text \<open>
  The laws the option parsers use of \<open>GETSHORT\<close>, \<open>PUTSHORT\<close>, \<open>GETLONG\<close>, \<open>PUTLONG\<close>: a fixed
  width, and that a value read is a given one exactly when the bytes are its encoding.
\<close>

locale access_macros =
  fixes gs :: "u8 \<Rightarrow> u8 \<Rightarrow> u16" and ps :: "u16 \<Rightarrow> bytes"
    and gl :: "u8 \<Rightarrow> u8 \<Rightarrow> u8 \<Rightarrow> u8 \<Rightarrow> u32" and pl :: "u32 \<Rightarrow> bytes"
  assumes ps_gs: "\<exists>a b. ps v = [a, b] \<and> gs a b = v"
    and gs_ps: "ps (gs a b) = [a, b]"
    and pl_gl: "\<exists>a b c d. pl w = [a, b, c, d] \<and> gl a b c d = w"
    and gl_pl: "pl (gl a b c d) = [a, b, c, d]"
begin

lemma length_ps [simp]: "length (ps v) = 2"
  using ps_gs [of v] by auto

lemma length_pl [simp]: "length (pl w) = 4"
  using pl_gl [of w] by auto

lemma gs_eq_iff: "gs a b = v \<longleftrightarrow> ps v = [a, b]"
  by (metis ps_gs gs_ps list.inject)

lemma gl_eq_iff: "gl a b c d = w \<longleftrightarrow> pl w = [a, b, c, d]"
proof
  assume "gl a b c d = w"
  then show "pl w = [a, b, c, d]" using gl_pl [of a b c d] by simp
next
  assume "pl w = [a, b, c, d]"
  moreover obtain a' b' c' d' where "pl w = [a', b', c', d']" "gl a' b' c' d' = w"
    using pl_gl [of w] by blast
  ultimately show "gl a b c d = w" by simp
qed

lemma ps_eq_iff: "ps v = ps v' \<longleftrightarrow> v = v'"
  by (metis ps_gs list.inject)

lemma pl_eq_iff: "pl w = pl w' \<longleftrightarrow> w = w'"
proof
  obtain a b c d where "pl w = [a, b, c, d]" "gl a b c d = w" using pl_gl [of w] by blast
  moreover assume "pl w = pl w'"
  ultimately show "w = w'" using gl_eq_iff [of a b c d w'] by simp
qed simp

lemma gs_rd: "gs (rd (ps v @ q) 0) (rd (ps v @ q) (Suc 0)) = v"
  using ps_gs [of v] by auto

lemma gl_rd: "gl (rd (pl w @ q) 0) (rd (pl w @ q) (Suc 0)) (rd (pl w @ q) (Suc (Suc 0)))
    (rd (pl w @ q) (Suc (Suc (Suc 0)))) = w"
  using pl_gl [of w] by auto

end

lemma codec_access_macros:
  "codec_ok h \<Longrightarrow> access_macros (getshort h) (putshort h) (getlong h) (putlong h)"
  by unfold_locales (simp_all add: codec_ok_def)

interpretation std: access_macros "getshort std_hdr" "putshort std_hdr" "getlong std_hdr" "putlong std_hdr"
  by (rule codec_access_macros [OF std_codec_ok])

lemmas codec_facts [simp] =
  access_macros.length_ps [OF codec_access_macros] access_macros.length_pl [OF codec_access_macros]
  access_macros.gs_rd [OF codec_access_macros] access_macros.gl_rd [OF codec_access_macros]

lemma hdr_okD:
  assumes "hdr_ok h"
  shows "codec_ok h" "lengths_ok h" "codes_ok h" "types_ok h"
  using assms by (simp_all add: hdr_ok_def)

lemma codec_lengths [simp]:
  assumes "codec_ok h"
  shows "HEADERLEN h = 4" "UPAP_HEADERLEN h = 4" "CHAP_HEADERLEN h = 4" "DLLHEADERLEN h = 4"
    "length (MAKEHEADER h p) = 4" "reqid_conv h (uint (b::u8)) = uint b"
    "htonl h (ntohl h x) = x" "ntohl h (htonl h x) = x"
  using assms by (auto simp: codec_ok_def)

lemma std_ok: "codec_ok std_hdr" "types_ok std_hdr"
  using std_hdr_ok by (simp_all add: hdr_ok_def)

end
