(* ===== verification/Callout.thy ===== *)
theory Callout
  imports Ppp_Prelude "HOL-Library.Multiset"
begin

text \<open>
  The callout list of \<open>pppLib.c\<close>: timeouts in the order they expire, each with the number of
  seconds after its predecessor (the first one: after the time \<open>schedtime\<close> at which the
  interval timer was armed). The loops of \<open>ppp_timeout\<close>, \<open>ppp_untimeout\<close>, \<open>adjtimeout\<close> and
  \<open>alrm\<close> over that list are modelled here on their own; the parts that arm the
  interval timer are in \<open>Ppp_State\<close>. The specification is the list of absolute deadlines.
  \<open>'f\<close> is the function pointer together with its argument.
\<close>

record 'f callout =
  c_time :: int
  c_func :: 'f

text \<open>Find the place of a new timeout, with its time relative to the ones before it.\<close>

fun callout_link :: "'f \<Rightarrow> int \<Rightarrow> 'f callout list \<Rightarrow> 'f callout list" where
  "callout_link f seconds [] = [\<lparr>c_time = seconds, c_func = f\<rparr>]"
| "callout_link f seconds (c # cs) =
     (if c_time c \<le> seconds then c # callout_link f (seconds - c_time c) cs
      else \<lparr>c_time = seconds, c_func = f\<rparr> # c\<lparr>c_time := c_time c - seconds\<rparr> # cs)"

text \<open>Remove the first matching timeout and add its time to the next one.\<close>

fun callout_unlink :: "'f \<Rightarrow> 'f callout list \<Rightarrow> 'f callout list" where
  "callout_unlink f [] = []"
| "callout_unlink f (c # cs) =
     (if c_func c = f
      then (case cs of [] \<Rightarrow> [] | d # ds \<Rightarrow> d\<lparr>c_time := c_time d + c_time c\<rparr> # ds)
      else c # callout_unlink f cs)"

text \<open>Decrement the first timeout by the time since it was scheduled.\<close>

fun callout_adjust :: "int \<Rightarrow> int \<Rightarrow> 'f callout list \<Rightarrow> 'f callout list" where
  "callout_adjust now schedtime [] = []"
| "callout_adjust now schedtime (c # cs) =
     (let timediff = now - schedtime in
      if timediff < 0 \<or> c_time c \<le> timediff then c # cs
      else c\<lparr>c_time := c_time c - timediff\<rparr> # cs)"

text \<open>The first timeout and those scheduled for the same time, and what is left.\<close>

fun callout_due :: "'f callout list \<Rightarrow> 'f callout list \<times> 'f callout list" where
  "callout_due [] = ([], [])"
| "callout_due (c # cs) =
     (c # takeWhile (\<lambda>d. c_time d = 0) cs, dropWhile (\<lambda>d. c_time d = 0) cs)"

section \<open>Absolute deadlines\<close>

fun deadlines :: "int \<Rightarrow> 'f callout list \<Rightarrow> (int \<times> 'f) list" where
  "deadlines t [] = []"
| "deadlines t (c # cs) = (t + c_time c, c_func c) # deadlines (t + c_time c) cs"

fun remove_first :: "('a \<Rightarrow> bool) \<Rightarrow> 'a list \<Rightarrow> 'a list" where
  "remove_first P [] = []"
| "remove_first P (x # xs) = (if P x then xs else x # remove_first P xs)"

definition nonneg :: "'f callout list \<Rightarrow> bool" where
  "nonneg cs \<longleftrightarrow> (\<forall>c \<in> set cs. 0 \<le> c_time c)"

lemma nonneg_simps [simp]:
  "nonneg []" "nonneg (c # cs) \<longleftrightarrow> 0 \<le> c_time c \<and> nonneg cs"
  by (simp_all add: nonneg_def)

lemma deadlines_ge: "nonneg cs \<Longrightarrow> x \<in> set (deadlines t cs) \<Longrightarrow> t \<le> fst x"
proof (induction t cs rule: deadlines.induct)
  case (2 t c cs)
  then show ?case by force
qed simp

lemma deadlines_sorted: "nonneg cs \<Longrightarrow> sorted (map fst (deadlines t cs))"
proof (induction t cs rule: deadlines.induct)
  case (2 t c cs)
  then show ?case by (auto dest: deadlines_ge)
qed simp

lemma nonneg_link: "nonneg cs \<Longrightarrow> 0 \<le> seconds \<Longrightarrow> nonneg (callout_link f seconds cs)"
  by (induction f seconds cs rule: callout_link.induct) auto

lemma nonneg_unlink: "nonneg cs \<Longrightarrow> nonneg (callout_unlink f cs)"
  by (induction f cs rule: callout_unlink.induct) (auto split: list.splits)

lemma nonneg_adjust: "nonneg cs \<Longrightarrow> nonneg (callout_adjust now sched cs)"
  by (cases cs) (auto simp: Let_def)

lemma deadlines_link:
  "deadlines t (callout_link f seconds cs) =
     takeWhile (\<lambda>x. fst x \<le> t + seconds) (deadlines t cs) @ (t + seconds, f) #
     dropWhile (\<lambda>x. fst x \<le> t + seconds) (deadlines t cs)"
  by (induction f seconds cs arbitrary: t rule: callout_link.induct) auto

lemma deadlines_shift:
  "deadlines t (c\<lparr>c_time := c_time c + d\<rparr> # cs) = deadlines (t + d) (c # cs)"
  by (simp add: algebra_simps)

lemma deadlines_unlink:
  "deadlines t (callout_unlink f cs) = remove_first (\<lambda>x. snd x = f) (deadlines t cs)"
proof (induction cs arbitrary: t)
  case (Cons c cs)
  then show ?case
    by (cases cs) (auto simp: algebra_simps)
qed simp

lemma deadlines_adjust:
  assumes "0 \<le> now - sched" and "now - sched < c_time c"
  shows "deadlines now (callout_adjust now sched (c # cs)) = deadlines sched (c # cs)"
  using assms by (simp add: Let_def add.commute)

lemma deadlines_due:
  assumes "callout_due cs = (due, rest)" and "cs \<noteq> []" and "nonneg cs"
  shows "\<forall>x \<in> set (deadlines t due). fst x = t + c_time (hd cs)"
    and "\<forall>x \<in> set (deadlines (t + c_time (hd cs)) rest). t + c_time (hd cs) < fst x"
    and "map c_func cs = map c_func due @ map c_func rest"
proof -
  obtain c cs' where cs: "cs = c # cs'" using assms(2) by (cases cs) auto
  have due: "due = c # takeWhile (\<lambda>d. c_time d = 0) cs'"
    and rest: "rest = dropWhile (\<lambda>d. c_time d = 0) cs'"
    using assms(1) cs by auto
  have "\<forall>x \<in> set (deadlines u (takeWhile (\<lambda>d. c_time d = 0) cs')). fst x = u" for u
    by (induction cs' arbitrary: u) auto
  then show "\<forall>x \<in> set (deadlines t due). fst x = t + c_time (hd cs)"
    by (auto simp: due cs)
  have nn: "nonneg rest"
    using assms(3) by (auto simp: cs rest nonneg_def dest!: set_dropWhileD)
  have pos: "rest = d # ds \<Longrightarrow> 0 < c_time d" for d ds
    using nn hd_dropWhile [of "\<lambda>d. c_time d = 0" cs'] by (auto simp: rest dest: sym)
  show "\<forall>x \<in> set (deadlines (t + c_time (hd cs)) rest). t + c_time (hd cs) < fst x"
  proof (cases rest)
    case (Cons d ds)
    then show ?thesis using pos [OF Cons] nn deadlines_ge [of ds] by fastforce
  qed simp
  show "map c_func cs = map c_func due @ map c_func rest"
    by (simp add: cs due rest flip: map_append)
qed

section \<open>Pending timeouts as an interface\<close>

text \<open>
  What the protocol modules rely on: arming a timeout makes it pending once more, cancelling
  one removes one pending occurrence if there is any, and neither touches the others.
\<close>

locale timer_queue =
  fixes arm :: "'f \<Rightarrow> int \<Rightarrow> 'q \<Rightarrow> 'q" and cancel :: "'f \<Rightarrow> 'q \<Rightarrow> 'q"
    and pending :: "'q \<Rightarrow> 'f \<Rightarrow> nat"
  assumes pending_arm: "pending (arm f t q) g = pending q g + (if g = f then 1 else 0)"
    and pending_cancel: "pending (cancel f q) g = pending q g - (if g = f then 1 else 0)"
begin

lemma pending_arm_same [simp]: "pending (arm f t q) f = Suc (pending q f)"
  by (simp add: pending_arm)

lemma pending_arm_other [simp]: "g \<noteq> f \<Longrightarrow> pending (arm f t q) g = pending q g"
  by (simp add: pending_arm)

lemma pending_cancel_same [simp]: "pending (cancel f q) f = pending q f - 1"
  by (simp add: pending_cancel)

lemma pending_cancel_other [simp]: "g \<noteq> f \<Longrightarrow> pending (cancel f q) g = pending q g"
  by (simp add: pending_cancel)

lemma cancel_arm_pending: "pending (cancel f (arm f t q)) g = pending q g"
  by (simp add: pending_arm pending_cancel)

lemma arm_cancel_pending: "0 < pending q f \<Longrightarrow> pending (arm f t (cancel f q)) g = pending q g"
  by (simp add: pending_arm pending_cancel)

end

definition callout_pending :: "'f callout list \<Rightarrow> 'f \<Rightarrow> nat" where
  "callout_pending cs f = count (mset (map c_func cs)) f"

lemma pending_Cons [simp]:
  "callout_pending (c # cs) f = (if c_func c = f then Suc (callout_pending cs f) else callout_pending cs f)"
  by (simp add: callout_pending_def)

lemma pending_Nil [simp]: "callout_pending [] f = 0"
  by (simp add: callout_pending_def)

lemma callout_pending_link:
  "callout_pending (callout_link f t cs) g = callout_pending cs g + (if g = f then 1 else 0)"
  by (induction f t cs rule: callout_link.induct) auto

lemma callout_pending_unlink:
  "callout_pending (callout_unlink f cs) g = callout_pending cs g - (if g = f then 1 else 0)"
proof (induction cs)
  case (Cons c cs)
  then show ?case by (cases cs) auto
qed simp

interpretation ct: timer_queue callout_link callout_unlink callout_pending
  by unfold_locales (simp_all add: callout_pending_link callout_pending_unlink)

lemma pending_adjust [simp]: "callout_pending (callout_adjust now sched cs) f = callout_pending cs f"
  by (cases cs) (auto simp: Let_def)

end
