(* ===== verification/Ppp_State.thy ===== *)
theory Ppp_State
  imports Ppp_Header Callout
begin

text \<open>
  The state of one PPP unit, \<open>*ppp_if[unit]\<close> of \<open>pppLib.h\<close>, and the calls through which the
  protocol modules reach the outside: the serial device (\<open>output\<close>), the kernel interface
  (the configuration routines of \<open>ppp_vxworks.c\<close>) and the interval timer
  (\<open>ppp_timeout\<close>, \<open>ppp_untimeout\<close>, \<open>adjtimeout\<close> of \<open>pppLib.c\<close>).

  Every such call is recorded in \<open>trace\<close>, the most recent first, and answered by the
  environment parameter \<open>world\<close>, which may depend on everything done before. Calls to
  \<open>syslog\<close> and the debug macros are not modelled. \<open>die_fn\<close> of the environment is
  what \<open>die(unit, 1)\<close> does; \<open>Ppp_Daemon\<close> ties that knot.
\<close>

section \<open>Data\<close>

datatype fsm_st = INITIAL | STARTING | CLOSED | STOPPED | CLOSING | STOPPING
  | REQSENT | ACKRCVD | ACKSENT | OPENED

text \<open>Which of the two \<open>fsm\<close> structures of the unit a \<open>fsm *\<close> points to.\<close>

datatype proto = LcpF | IpcpF

text \<open>The fields of struct fsm; \<open>flags\<close> is the three bits the code uses.\<close>

record fsm =
  fstate :: fsm_st
  opt_passive :: bool
  opt_restart :: bool
  opt_silent :: bool
  fid :: u8
  reqid :: int
  timeouttime :: int
  maxconfreqtransmits :: int
  retransmits :: int
  maxtermtransmits :: int
  nakloops :: int
  maxnakloops :: int

record lcp_options =
  passive_mode :: bool
  silent_mode :: bool
  restart_mode :: bool
  neg_mru :: bool
  neg_asyncmap :: bool
  neg_upap :: bool
  neg_chap :: bool
  neg_magicnumber :: bool
  neg_pcompression :: bool
  neg_accompression :: bool
  neg_lqr :: bool
  mru :: int
  chap_mdtype :: u8
  asyncmap :: u32
  magicnumber :: u32
  numloops :: int
  lqr_period :: u32

definition lcp_zero :: lcp_options where
  "lcp_zero = \<lparr>passive_mode = False, silent_mode = False, restart_mode = False, neg_mru = False,
     neg_asyncmap = False, neg_upap = False, neg_chap = False, neg_magicnumber = False,
     neg_pcompression = False, neg_accompression = False, neg_lqr = False,
     mru = 0, chap_mdtype = 0, asyncmap = 0, magicnumber = 0, numloops = 0, lqr_period = 0\<rparr>"

record ipcp_options =
  neg_addr :: bool
  old_addrs :: bool
  req_addr :: bool
  default_route :: bool
  proxy_arp :: bool
  neg_vj :: bool
  old_vj :: bool
  accept_local :: bool
  accept_remote :: bool
  vj_protocol :: u16
  maxslotindex :: u8
  cflag :: u8
  ouraddr :: u32
  hisaddr :: u32

definition ipcp_zero :: ipcp_options where
  "ipcp_zero = \<lparr>neg_addr = False, old_addrs = False, req_addr = False, default_route = False,
     proxy_arp = False, neg_vj = False, old_vj = False, accept_local = False,
     accept_remote = False, vj_protocol = 0, maxslotindex = 0, cflag = 0, ouraddr = 0, hisaddr = 0\<rparr>"

datatype upap_cs = UPAPCS_INITIAL | UPAPCS_CLOSED | UPAPCS_PENDING | UPAPCS_AUTHREQ
  | UPAPCS_OPEN | UPAPCS_BADAUTH

datatype upap_ss = UPAPSS_INITIAL | UPAPSS_CLOSED | UPAPSS_PENDING | UPAPSS_LISTEN
  | UPAPSS_OPEN | UPAPSS_BADAUTH

record upap_state =
  us_user :: bytes
  us_passwd :: bytes
  us_clientstate :: upap_cs
  us_serverstate :: upap_ss
  us_id :: u8
  us_timeouttime :: int
  us_transmits :: int
  us_maxtransmits :: int

datatype chap_cs = CHAPCS_INITIAL | CHAPCS_CLOSED | CHAPCS_PENDING | CHAPCS_LISTEN
  | CHAPCS_RESPONSE | CHAPCS_OPEN

datatype chap_ss = CHAPSS_INITIAL | CHAPSS_CLOSED | CHAPSS_PENDING | CHAPSS_INITIAL_CHAL
  | CHAPSS_OPEN | CHAPSS_RECHALLENGE | CHAPSS_BADAUTH

record chap_state =
  clientstate :: chap_cs
  serverstate :: chap_ss
  challenge :: bytes
  chal_id :: u8
  chal_transmits :: int
  chal_type :: u8
  chal_name :: bytes
  chal_interval :: int
  chap_id :: u8
  chap_timeouttime :: int
  max_transmits :: int
  response :: bytes
  resp_id :: u8
  resp_type :: u8
  resp_name :: bytes
  resp_transmits :: int

datatype phase = PHASE_DEAD | PHASE_ESTABLISH | PHASE_AUTHENTICATE | PHASE_NETWORK | PHASE_TERMINATE

text \<open>The functions that are scheduled with \<open>PPP_TIMEOUT\<close>, with their argument.\<close>

datatype cfun = Fsm_timeout proto | Upap_timeout | Chap_challenge_timeout
  | Chap_response_timeout | Chap_rechallenge | Lcp_echo_timeout

text \<open>Calls to the device, the kernel and the clock.\<close>

datatype iocall = WRITE bytes | TASKDELAY
  | SIFMTU int | SASYNCMAP u32 | SXASYNCMAP "u32 list" | SMRU int | SRASYNCMAP u32
  | GFLAGS | SFLAGS u32 | SMAXCID u8
  | GIFFLAGS | SIFFLAGS u32 | SIFNETMASK u32 | SIFDSTADDR u32 | SIFADDR u32
  | DELRT u32 u32 | ADDRT_DEFAULT u32 | DELRT_DEFAULT u32 | PROXYARP_SET u32 | PROXYARP_DEL u32
  | SETTIME int | TIME

record ppp =
  lcp_fsm :: fsm
  ipcp_fsm :: fsm
  lcp_wantoptions :: lcp_options
  lcp_gotoptions :: lcp_options
  lcp_allowoptions :: lcp_options
  lcp_hisoptions :: lcp_options
  ipcp_wantoptions :: ipcp_options
  ipcp_gotoptions :: ipcp_options
  ipcp_allowoptions :: ipcp_options
  ipcp_hisoptions :: ipcp_options
  upap :: upap_state
  chap :: chap_state
  xmit_accm :: "u32 list"
  peer_mru :: int
  cis_received :: int
  ppp_phase :: phase
  auth_pending :: u32
  auth_required :: bool
  uselogin :: bool
  our_name :: bytes
  remote_name :: bytes
  hostname :: bytes
  user :: bytes
  passwd :: bytes
  addresses :: "bytes list"
  netmask :: u32
  lcp_echo_interval :: int
  lcp_echo_fails :: int
  lcp_echos_pending :: int
  lcp_echo_number :: int
  lcp_echo_timer_running :: bool
  callout :: "cfun callout list"
  schedtime :: int
  hungup :: bool
  unknownProto :: int
  magic_next :: u32
  rand_pos :: nat
  trace :: "iocall list"

section \<open>The environment\<close>

text \<open>
  \<open>rand\<close>: the values successive calls of \<open>random()\<close> return. \<open>world\<close>: status (negative, or
  nonzero for a write, is a failure) and value of a call, given the calls made before it.
\<close>

record env =
  eh :: hdr
  rand :: "nat \<Rightarrow> u32"
  world :: "iocall list \<Rightarrow> iocall \<Rightarrow> int \<times> u32"
  die_fn :: "(ppp, unit) act"

definition world_ok :: "env \<Rightarrow> bool" where
  "world_ok E \<longleftrightarrow> (\<forall>tr c. fst (world E tr c) = 0)"

definition ext :: "env \<Rightarrow> iocall \<Rightarrow> (ppp, int \<times> u32) act" where
  "ext E c s = Ret (world E (trace s) c) (s\<lparr>trace := c # trace s\<rparr>)"

lemma ext_Ret: "ext E c s = Ret (world E (trace s) c) (s\<lparr>trace := c # trace s\<rparr>)"
  by (simp add: ext_def)

lemma ext_apply [simp]: "bnd (ext E c) g s = g (world E (trace s) c) (s\<lparr>trace := c # trace s\<rparr>)"
  by (simp add: bnd_def ext_def)

text \<open>An ioctl whose failure ends the connection.\<close>

definition ioctl_or_die :: "env \<Rightarrow> iocall \<Rightarrow> (ppp, unit) act" where
  "ioctl_or_die E c = bnd (ext E c) (\<lambda>r. if fst r < 0 then die_fn E else skip)"

section \<open>Random and magic numbers\<close>

text \<open>\<open>magic()\<close> returns the number computed by the previous call and draws the next one.\<close>

type_synonym mgen = "u32 \<times> nat"

definition magic :: "(nat \<Rightarrow> u32) \<Rightarrow> mgen \<Rightarrow> u32 \<times> mgen" where
  "magic r g = (fst g, (r (snd g), Suc (snd g)))"

definition mgen_of :: "ppp \<Rightarrow> mgen" where
  "mgen_of s = (magic_next s, rand_pos s)"

definition set_mgen :: "mgen \<Rightarrow> ppp \<Rightarrow> ppp" where
  "set_mgen g s = s\<lparr>magic_next := fst g, rand_pos := snd g\<rparr>"

section \<open>The serial device and the kernel interface\<close>

definition output_frame :: "env \<Rightarrow> bytes \<Rightarrow> (ppp, unit) act" where
  "output_frame E p = bnd (ext E (WRITE p)) (\<lambda>r. if fst r \<noteq> 0 then die_fn E else skip)"

text \<open>Read the driver flags, change them, write them back; each failure ends the connection.\<close>

definition change_flags_or_die :: "env \<Rightarrow> (u32 \<Rightarrow> u32) \<Rightarrow> (ppp, unit) act" where
  "change_flags_or_die E f =
     bnd (ext E GFLAGS) (\<lambda>r. steps
       [if fst r < 0 then die_fn E else skip, ioctl_or_die E (SFLAGS (f (snd r)))])"

definition ppp_send_config :: "env \<Rightarrow> int \<Rightarrow> u32 \<Rightarrow> bool \<Rightarrow> bool \<Rightarrow> (ppp, unit) act" where
  "ppp_send_config E mtu amap pcomp accomp = steps
     [ioctl_or_die E (SIFMTU mtu),
      ioctl_or_die E (SASYNCMAP amap),
      change_flags_or_die E (\<lambda>x.
        let x1 = (if pcomp then x OR SC_COMP_PROT (eh E) else x AND NOT (SC_COMP_PROT (eh E)))
        in if accomp then x1 OR SC_COMP_AC (eh E) else x1 AND NOT (SC_COMP_AC (eh E)))]"

definition ppp_set_xaccm :: "env \<Rightarrow> u32 list \<Rightarrow> (ppp, unit) act" where
  "ppp_set_xaccm E accm = bnd (ext E (SXASYNCMAP accm)) (\<lambda>_. skip)"

definition ppp_recv_config :: "env \<Rightarrow> int \<Rightarrow> u32 \<Rightarrow> bool \<Rightarrow> bool \<Rightarrow> (ppp, unit) act" where
  "ppp_recv_config E mr amap pcomp accomp = steps
     [ioctl_or_die E (SMRU mr),
      ioctl_or_die E (SRASYNCMAP amap),
      change_flags_or_die E (\<lambda>x.
        if \<not> accomp then x OR SC_REJ_COMP_AC (eh E) else x AND NOT (SC_REJ_COMP_AC (eh E)))]"

text \<open>A sequence of calls that gives up with 0 at the first failure.\<close>

definition try_ext :: "env \<Rightarrow> iocall \<Rightarrow> (u32 \<Rightarrow> (ppp, bool) act) \<Rightarrow> (ppp, bool) act" where
  "try_ext E c k = bnd (ext E c) (\<lambda>r. if fst r < 0 then ret False else k (snd r))"

definition sifvjcomp :: "env \<Rightarrow> bool \<Rightarrow> u8 \<Rightarrow> u8 \<Rightarrow> (ppp, bool) act" where
  "sifvjcomp E vjcomp cidcomp maxcid =
     try_ext E GFLAGS (\<lambda>x.
       let x1 = (if vjcomp then x OR SC_COMP_TCP (eh E) else x AND NOT (SC_COMP_TCP (eh E)));
           x2 = (if cidcomp \<noteq> 0 then x1 AND NOT (SC_NO_TCP_CCID (eh E)) else x1 OR SC_NO_TCP_CCID (eh E))
       in try_ext E (SFLAGS x2) (\<lambda>_. try_ext E (SMAXCID maxcid) (\<lambda>_. ret True)))"

definition sifup :: "env \<Rightarrow> (ppp, bool) act" where
  "sifup E =
     try_ext E GIFFLAGS (\<lambda>fl. try_ext E (SIFFLAGS (fl OR IFF_UP (eh E))) (\<lambda>_.
       try_ext E GFLAGS (\<lambda>x. try_ext E (SFLAGS (x OR SC_ENABLE_IP (eh E))) (\<lambda>_. ret True))))"

text \<open>\<open>sifdown\<close> does both parts whatever fails.\<close>

definition sifdown :: "env \<Rightarrow> (ppp, bool) act" where
  "sifdown E =
     bnd (try_ext E GFLAGS (\<lambda>x. try_ext E (SFLAGS (x AND NOT (SC_ENABLE_IP (eh E)))) (\<lambda>_. ret True)))
       (\<lambda>a. bnd (try_ext E GIFFLAGS (\<lambda>fl. try_ext E (SIFFLAGS (fl AND NOT (IFF_UP (eh E)))) (\<lambda>_. ret True)))
         (\<lambda>b. ret (a \<and> b)))"

definition sifaddr :: "env \<Rightarrow> u32 \<Rightarrow> u32 \<Rightarrow> u32 \<Rightarrow> (ppp, bool) act" where
  "sifaddr E o1 h m =
     (let rest = try_ext E (SIFDSTADDR h) (\<lambda>_. try_ext E (SIFADDR o1) (\<lambda>_. ret True))
      in if m \<noteq> 0 then try_ext E (SIFNETMASK m) (\<lambda>_. rest) else rest)"

definition cifaddr :: "env \<Rightarrow> u32 \<Rightarrow> u32 \<Rightarrow> (ppp, bool) act" where
  "cifaddr E o1 h = try_ext E (DELRT h o1) (\<lambda>_. ret True)"

definition sifdefaultroute :: "env \<Rightarrow> u32 \<Rightarrow> (ppp, bool) act" where
  "sifdefaultroute E g = try_ext E (ADDRT_DEFAULT g) (\<lambda>_. ret True)"

definition cifdefaultroute :: "env \<Rightarrow> u32 \<Rightarrow> (ppp, bool) act" where
  "cifdefaultroute E g = bnd (ext E (DELRT_DEFAULT g)) (\<lambda>_. ret True)"

text \<open>The lookup of a hardware address and the ARP entry are one call of the model.\<close>

definition sifproxyarp :: "env \<Rightarrow> u32 \<Rightarrow> (ppp, bool) act" where
  "sifproxyarp E a = try_ext E (PROXYARP_SET a) (\<lambda>_. ret True)"

definition cifproxyarp :: "env \<Rightarrow> u32 \<Rightarrow> (ppp, bool) act" where
  "cifproxyarp E a = bnd (ext E (PROXYARP_DEL a)) (\<lambda>_. ret True)"

section \<open>Timeouts\<close>

text \<open>Arm the interval timer for the first callout and note the time.\<close>

definition set_itimer :: "env \<Rightarrow> int \<Rightarrow> (ppp, unit) act" where
  "set_itimer E secs = steps
     [ioctl_or_die E (SETTIME secs),
      bnd (ext E TIME) (\<lambda>r. steps
        [upd (\<lambda>s. s\<lparr>schedtime := sint (snd r)\<rparr>), if fst r < 0 then die_fn E else skip])]"

definition goes_first :: "int \<Rightarrow> 'f callout list \<Rightarrow> bool" where
  "goes_first seconds cs = (case cs of [] \<Rightarrow> True | c # _ \<Rightarrow> \<not> c_time c \<le> seconds)"

definition ppp_timeout :: "env \<Rightarrow> cfun \<Rightarrow> int \<Rightarrow> (ppp, unit) act" where
  "ppp_timeout E f seconds s =
     (let s1 = s\<lparr>callout := callout_link f seconds (callout s)\<rparr> in
      if goes_first seconds (callout s) then set_itimer E (c_time (hd (callout s1))) s1
      else Ret () s1)"

definition ppp_untimeout :: "env \<Rightarrow> cfun \<Rightarrow> (ppp, unit) act" where
  "ppp_untimeout E f s =
     (let reschedule = (case callout s of [] \<Rightarrow> False | c # _ \<Rightarrow> c_func c = f);
          s1 = s\<lparr>callout := callout_unlink f (callout s)\<rparr>
      in if reschedule
         then set_itimer E (case callout s1 of [] \<Rightarrow> 0 | c # _ \<Rightarrow> c_time c) s1
         else Ret () s1)"

definition adjtimeout :: "env \<Rightarrow> (ppp, unit) act" where
  "adjtimeout E s =
     (if callout s = [] then Ret () s
      else bnd (ext E TIME) (\<lambda>r. steps
        [if fst r < 0 then die_fn E else skip,
         upd (\<lambda>s. s\<lparr>callout := callout_adjust (sint (snd r)) (schedtime s) (callout s)\<rparr>)]) s)"

section \<open>When no call fails\<close>

text \<open>The state after a timeout was armed or cancelled, as one update.\<close>

definition itimer_sched :: "env \<Rightarrow> bool \<Rightarrow> int \<Rightarrow> ppp \<Rightarrow> int" where
  "itimer_sched E b secs s =
     (if b then sint (snd (world E (SETTIME secs # trace s) TIME)) else schedtime s)"

definition itimer_trace :: "bool \<Rightarrow> int \<Rightarrow> ppp \<Rightarrow> iocall list" where
  "itimer_trace b secs s = (if b then TIME # SETTIME secs # trace s else trace s)"

locale reliable =
  fixes E :: env
  assumes ok: "world_ok E"
begin

lemma world_ok_fst [simp]: "fst (world E tr c) = 0"
  using ok by (simp add: world_ok_def)

lemma ioctl_or_die_ok: "ioctl_or_die E c s = Ret () (s\<lparr>trace := c # trace s\<rparr>)"
  by (simp add: ioctl_or_die_def)

lemma output_frame_ok: "output_frame E p s = Ret () (s\<lparr>trace := WRITE p # trace s\<rparr>)"
  by (simp add: output_frame_def)

lemma set_itimer_ok:
  "set_itimer E secs s =
     Ret () (s\<lparr>schedtime := itimer_sched E True secs s, trace := itimer_trace True secs s\<rparr>)"
  by (simp add: set_itimer_def ioctl_or_die_def bnd_def ext_def itimer_sched_def itimer_trace_def)

lemma ppp_timeout_ok:
  "ppp_timeout E f seconds s =
     (let b = goes_first seconds (callout s); n = c_time (hd (callout_link f seconds (callout s)))
      in Ret () (s\<lparr>callout := callout_link f seconds (callout s),
           schedtime := itimer_sched E b n s, trace := itimer_trace b n s\<rparr>))"
  by (simp add: ppp_timeout_def set_itimer_ok itimer_sched_def itimer_trace_def Let_def)

lemma ppp_untimeout_ok:
  "\<exists>b n. ppp_untimeout E f s =
     Ret () (s\<lparr>callout := callout_unlink f (callout s),
           schedtime := itimer_sched E b n s, trace := itimer_trace b n s\<rparr>)"
proof (cases "case callout s of [] \<Rightarrow> False | c # _ \<Rightarrow> c_func c = f")
  case True
  then show ?thesis
    by (intro exI [of _ True] exI)
      (simp add: ppp_untimeout_def set_itimer_ok itimer_sched_def itimer_trace_def Let_def)
next
  case False
  then show ?thesis
    by (intro exI [of _ False]) (simp add: ppp_untimeout_def itimer_sched_def itimer_trace_def)
qed

lemma try_ext_ok: "try_ext E c k s = k (snd (world E (trace s) c)) (s\<lparr>trace := c # trace s\<rparr>)"
  by (simp add: try_ext_def)

end

text \<open>
  An environment in which every call succeeds is given by the values its calls return.
\<close>

definition ok_env :: "hdr \<Rightarrow> (nat \<Rightarrow> u32) \<Rightarrow> (iocall list \<Rightarrow> iocall \<Rightarrow> u32) \<Rightarrow> (ppp, unit) act \<Rightarrow> env" where
  "ok_env h r v d = \<lparr>eh = h, rand = r, world = (\<lambda>tr c. (0, v tr c)), die_fn = d\<rparr>"

lemma ok_env_simps [simp]:
  "eh (ok_env h r v d) = h" "rand (ok_env h r v d) = r" "die_fn (ok_env h r v d) = d"
  "world (ok_env h r v d) tr c = (0, v tr c)"
  by (simp_all add: ok_env_def)

lemma world_ok_env: "world_ok (ok_env h r v d)"
  by (simp add: world_ok_def)

lemma world_ok_form: "world_ok E \<Longrightarrow> E = ok_env (eh E) (rand E) (\<lambda>tr c. snd (world E tr c)) (die_fn E)"
proof -
  assume "world_ok E"
  then have "world E = (\<lambda>tr c. (0, snd (world E tr c)))"
    by (auto simp: world_ok_def fun_eq_iff prod_eq_iff)
  then show ?thesis by (cases E) (simp add: ok_env_def)
qed

interpretation okw: reliable "ok_env h r v d" for h r v d
  by unfold_locales (rule world_ok_env)

section \<open>The unit as the task allocates it\<close>

text \<open>\<open>calloc\<close> gives zeros: every automaton in its initial state, every list empty.\<close>

definition fsm_zero :: fsm where
  "fsm_zero = \<lparr>fstate = INITIAL, opt_passive = False, opt_restart = False, opt_silent = False, fid = 0,
     reqid = 0, timeouttime = 0, maxconfreqtransmits = 0, retransmits = 0, maxtermtransmits = 0,
     nakloops = 0, maxnakloops = 0\<rparr>"

definition ppp_calloc :: ppp where
  "ppp_calloc = \<lparr>lcp_fsm = fsm_zero, ipcp_fsm = fsm_zero,
     lcp_wantoptions = lcp_zero, lcp_gotoptions = lcp_zero, lcp_allowoptions = lcp_zero, lcp_hisoptions = lcp_zero,
     ipcp_wantoptions = ipcp_zero, ipcp_gotoptions = ipcp_zero, ipcp_allowoptions = ipcp_zero,
     ipcp_hisoptions = ipcp_zero,
     upap = \<lparr>us_user = [], us_passwd = [], us_clientstate = UPAPCS_INITIAL, us_serverstate = UPAPSS_INITIAL,
       us_id = 0, us_timeouttime = 0, us_transmits = 0, us_maxtransmits = 0\<rparr>,
     chap = \<lparr>clientstate = CHAPCS_INITIAL, serverstate = CHAPSS_INITIAL, challenge = [], chal_id = 0,
       chal_transmits = 0, chal_type = 0, chal_name = [], chal_interval = 0, chap_id = 0, chap_timeouttime = 0,
       max_transmits = 0, response = [], resp_id = 0, resp_type = 0, resp_name = [], resp_transmits = 0\<rparr>,
     xmit_accm = replicate 8 0, peer_mru = 0, cis_received = 0, ppp_phase = PHASE_DEAD, auth_pending = 0,
     auth_required = False, uselogin = False, our_name = [], remote_name = [], hostname = [], user = [],
     passwd = [], addresses = [], netmask = 0, lcp_echo_interval = 0, lcp_echo_fails = 0,
     lcp_echos_pending = 0, lcp_echo_number = 0, lcp_echo_timer_running = False, callout = [],
     schedtime = 0, hungup = False, unknownProto = 0, magic_next = 0, rand_pos = 0, trace = []\<rparr>"

lemma callout_calloc [simp]: "callout ppp_calloc = []" "trace ppp_calloc = []" "schedtime ppp_calloc = 0"
  by (simp_all add: ppp_calloc_def)

section \<open>What the timer operations guarantee\<close>

lemma goes_first_iff:
  "nonneg cs \<Longrightarrow> goes_first n cs \<longleftrightarrow> (\<forall>x \<in> set (deadlines t cs). t + n < fst x)"
proof (cases cs)
  case (Cons c cs')
  assume "nonneg cs"
  then have "\<And>x. x \<in> set (deadlines (t + c_time c) cs') \<Longrightarrow> t + c_time c \<le> fst x"
    using Cons by (auto dest: deadlines_ge)
  then show ?thesis using Cons by (force simp: goes_first_def)
qed (simp add: goes_first_def)

lemma link_goes_first: "goes_first n cs \<Longrightarrow> c_time (hd (callout_link f n cs)) = n"
  by (cases cs) (auto simp: goes_first_def)

text \<open>
  C35. Scheduling: relative to any reference time, \<open>ppp_timeout\<close> puts the new timeout into the
  list of absolute deadlines after every timeout that expires no later and before all
  others, so the list stays sorted; the interval timer is armed, for the new timeout,
  exactly when it expires before all others.
\<close>

theorem ppp_timeout_deadlines:
  assumes "nonneg (callout s)" and "0 \<le> n"
  shows "\<exists>s'. ppp_timeout (ok_env h r v d) f n s = Ret () s' \<and> nonneg (callout s') \<and>
     sorted (map fst (deadlines t (callout s'))) \<and>
     deadlines t (callout s') =
       takeWhile (\<lambda>x. fst x \<le> t + n) (deadlines t (callout s)) @ (t + n, f) #
       dropWhile (\<lambda>x. fst x \<le> t + n) (deadlines t (callout s)) \<and>
     trace s' = (if \<forall>x \<in> set (deadlines t (callout s)). t + n < fst x
                 then TIME # SETTIME n # trace s else trace s)"
  using assms nonneg_link [OF assms, of f] link_goes_first [of n "callout s" f]
    goes_first_iff [of "callout s" n t]
  by (auto simp: okw.ppp_timeout_ok Let_def itimer_trace_def deadlines_link [symmetric]
      intro!: deadlines_sorted)

text \<open>The hypotheses hold for two timeouts, 3 and 5 seconds ahead, and a new one in 4 seconds.\<close>

theorem ppp_timeout_deadlines_witness:
  "\<exists>s'. ppp_timeout (ok_env std_hdr (\<lambda>_. 0) (\<lambda>_ _. 0) skip) Upap_timeout 4
      (ppp_calloc\<lparr>callout := [\<lparr>c_time = 3, c_func = Fsm_timeout LcpF\<rparr>, \<lparr>c_time = 2, c_func = Lcp_echo_timeout\<rparr>]\<rparr>)
      = Ret () s' \<and>
    deadlines 0 (callout s') = [(3, Fsm_timeout LcpF), (4, Upap_timeout), (5, Lcp_echo_timeout)] \<and> trace s' = []"
  using ppp_timeout_deadlines [of "ppp_calloc\<lparr>callout := [\<lparr>c_time = 3, c_func = Fsm_timeout LcpF\<rparr>,
      \<lparr>c_time = 2, c_func = Lcp_echo_timeout\<rparr>]\<rparr>" 4 std_hdr "\<lambda>_. 0" "\<lambda>_ _. 0" skip Upap_timeout 0]
  by auto

text \<open>
  Cancelling: \<open>ppp_untimeout\<close> removes the first deadline of the function and leaves all
  other absolute deadlines, and the order, as they are.
\<close>

theorem ppp_untimeout_deadlines:
  "\<exists>s'. ppp_untimeout (ok_env h r v d) f s = Ret () s' \<and>
     deadlines t (callout s') = remove_first (\<lambda>x. snd x = f) (deadlines t (callout s))"
  using okw.ppp_untimeout_ok [of h r v d f s] by (auto simp: deadlines_unlink)

text \<open>
  \<open>adjtimeout\<close> moves the reference point: when the clock shows \<open>t1\<close> and the first timeout
  is still to come, the deadlines relative to \<open>t1\<close> are the ones relative to \<open>schedtime\<close>.
  A second call at \<open>t2\<close>, before the timer is armed again, subtracts the time since \<open>schedtime\<close>
  once more: the deadlines come too early by the \<open>t1 - schedtime\<close> already accounted for.
\<close>

theorem adjtimeout_twice:
  assumes "callout s = c # cs" and "schedtime s \<le> t1" and "t1 \<le> t2"
    and "(t1 - schedtime s) + (t2 - schedtime s) < c_time c"
    and "sint (v (trace s) TIME) = t1" and "sint (v (TIME # trace s) TIME) = t2"
  shows "\<exists>s1 s2. adjtimeout (ok_env h r v d) s = Ret () s1 \<and> adjtimeout (ok_env h r v d) s1 = Ret () s2 \<and>
     deadlines t1 (callout s1) = deadlines (schedtime s) (callout s) \<and>
     deadlines t2 (callout s2) = deadlines (schedtime s - (t1 - schedtime s)) (callout s)"
  using assms by (simp add: adjtimeout_def bnd_def ext_def Let_def) (simp add: algebra_simps)

theorem adjtimeout_twice_witness:
  "\<exists>s1 s2. adjtimeout (ok_env std_hdr (\<lambda>_. 0) (\<lambda>tr _. if tr = [] then 1 else 2) skip)
        (ppp_calloc\<lparr>callout := [\<lparr>c_time = 10, c_func = Upap_timeout\<rparr>]\<rparr>) = Ret () s1 \<and>
     adjtimeout (ok_env std_hdr (\<lambda>_. 0) (\<lambda>tr _. if tr = [] then 1 else 2) skip) s1 = Ret () s2 \<and>
     deadlines 1 (callout s1) = [(10, Upap_timeout)] \<and> deadlines 2 (callout s2) = [(9, Upap_timeout)]"
  using adjtimeout_twice [of "ppp_calloc\<lparr>callout := [\<lparr>c_time = 10, c_func = Upap_timeout\<rparr>]\<rparr>"
      "\<lparr>c_time = 10, c_func = Upap_timeout\<rparr>" "[]" 1 2 "\<lambda>tr _. if tr = [] then 1 else 2" std_hdr "\<lambda>_. 0" skip]
  by auto

end
