(* ===== verification/Fsm.thy ===== *)
theory Fsm
  imports Ppp_State
begin

text \<open>
  \<open>fsm.c\<close>: the option negotiation automaton shared by LCP and IPCP, one definition per
  function. A \<open>fsm *\<close> is the callback table that \<open>f->callbacks\<close> holds from the
  initialisation on, together with the selector of the structure it points to (\<open>self\<close>).
  Callbacks act on the whole unit, as in the code; a NULL entry is \<open>None\<close>.
\<close>

section \<open>The automaton\<close>

datatype ccode = ConfAck | ConfNak | ConfRej

definition ccode_byte :: "hdr \<Rightarrow> ccode \<Rightarrow> u8" where
  "ccode_byte h c = (case c of ConfAck \<Rightarrow> CONFACK h | ConfNak \<Rightarrow> CONFNAK h | ConfRej \<Rightarrow> CONFREJ h)"

text \<open>
  struct fsm_callbacks. \<open>addci\<close> takes the space left and gives the bytes written and the new
  value of \<open>*lenp\<close>; \<open>reqci\<close> takes the buffer, the length and \<open>reject_if_disagree\<close>
  and gives the code, the buffer as modified in place and the new length.
\<close>

record fsm_callbacks =
  self :: proto
  resetci :: "(ppp, unit) act option"
  cilen :: "(ppp \<Rightarrow> int) option"
  addci :: "(int \<Rightarrow> (ppp, bytes \<times> int) act) option"
  ackci :: "(bytes \<Rightarrow> int \<Rightarrow> (ppp, bool) act) option"
  nakci :: "(bytes \<Rightarrow> int \<Rightarrow> (ppp, bool) act) option"
  rejci :: "(bytes \<Rightarrow> int \<Rightarrow> (ppp, bool) act) option"
  reqci :: "(bytes \<Rightarrow> int \<Rightarrow> bool \<Rightarrow> (ppp, ccode \<times> bytes \<times> int) act) option"
  up :: "(ppp, unit) act option"
  down :: "(ppp, unit) act option"
  starting :: "(ppp, unit) act option"
  finished :: "(ppp, unit) act option"
  retransmit :: "(ppp, unit) act option"
  extcode :: "(u8 \<Rightarrow> u8 \<Rightarrow> bytes \<Rightarrow> int \<Rightarrow> (ppp, bool) act) option"

primrec fsm_get :: "proto \<Rightarrow> ppp \<Rightarrow> fsm" where
  "fsm_get LcpF s = lcp_fsm s"
| "fsm_get IpcpF s = ipcp_fsm s"

primrec fsm_upd :: "proto \<Rightarrow> (fsm \<Rightarrow> fsm) \<Rightarrow> ppp \<Rightarrow> ppp" where
  "fsm_upd LcpF g s = s\<lparr>lcp_fsm := g (lcp_fsm s)\<rparr>"
| "fsm_upd IpcpF g s = s\<lparr>ipcp_fsm := g (ipcp_fsm s)\<rparr>"

primrec fsm_protocol :: "hdr \<Rightarrow> proto \<Rightarrow> u16" where
  "fsm_protocol h LcpF = LCP h"
| "fsm_protocol h IpcpF = IPCP h"

definition getf :: "fsm_callbacks \<Rightarrow> ppp \<Rightarrow> fsm" where
  "getf C s = fsm_get (self C) s"

definition modf :: "fsm_callbacks \<Rightarrow> (fsm \<Rightarrow> fsm) \<Rightarrow> (ppp, unit) act" where
  "modf C g = upd (fsm_upd (self C) g)"

definition set_state :: "fsm_callbacks \<Rightarrow> fsm_st \<Rightarrow> (ppp, unit) act" where
  "set_state C st = modf C (\<lambda>f. f\<lparr>fstate := st\<rparr>)"

definition state_of :: "fsm_callbacks \<Rightarrow> ppp \<Rightarrow> fsm_st" where
  "state_of C s = fstate (getf C s)"

definition TIMEOUT_FSM :: "env \<Rightarrow> fsm_callbacks \<Rightarrow> (ppp, unit) act" where
  "TIMEOUT_FSM E C s = ppp_timeout E (Fsm_timeout (self C)) (timeouttime (getf C s)) s"

definition UNTIMEOUT_FSM :: "env \<Rightarrow> fsm_callbacks \<Rightarrow> (ppp, unit) act" where
  "UNTIMEOUT_FSM E C = ppp_untimeout E (Fsm_timeout (self C))"

subsection \<open>Initialisation\<close>

definition fsm_init :: "env \<Rightarrow> proto \<Rightarrow> (ppp, unit) act" where
  "fsm_init E P s =
     Ret () ((fsm_upd P (\<lambda>f. f\<lparr>fstate := INITIAL, opt_passive := False, opt_restart := False,
        opt_silent := False, fid := ucast (rand E (rand_pos s)), timeouttime := DEFTIMEOUT (eh E),
        maxconfreqtransmits := DEFMAXCONFREQS (eh E), maxtermtransmits := DEFMAXTERMREQS (eh E),
        maxnakloops := DEFMAXNAKLOOPS (eh E)\<rparr>) s)\<lparr>rand_pos := Suc (rand_pos s)\<rparr>)"

subsection \<open>Sending\<close>

definition sdata_len :: "hdr \<Rightarrow> ppp \<Rightarrow> int \<Rightarrow> int" where
  "sdata_len h s datalen = (if datalen > peer_mru s - HEADERLEN h then peer_mru s - HEADERLEN h else datalen)"

definition sdata_frame :: "hdr \<Rightarrow> u16 \<Rightarrow> u8 \<Rightarrow> u8 \<Rightarrow> bytes \<Rightarrow> int \<Rightarrow> bytes" where
  "sdata_frame h pr code ident data n =
     MAKEHEADER h pr @ [code, ident] @ putshort h (word_of_int (n + HEADERLEN h)) @ take (nat n) data"

definition fsm_sdata :: "env \<Rightarrow> fsm_callbacks \<Rightarrow> u8 \<Rightarrow> u8 \<Rightarrow> bytes \<Rightarrow> int \<Rightarrow> (ppp, unit) act" where
  "fsm_sdata E C code ident data datalen s =
     output_frame E (sdata_frame (eh E) (fsm_protocol (eh E) (self C)) code ident data
       (sdata_len (eh E) s datalen)) s"

text \<open>The string "CLIENT" that a passive or silent unit writes first, for Windows peers.\<close>

definition client_string :: bytes where
  "client_string = map (\<lambda>c. of_char c) ''CLIENT''"

definition write_client :: "env \<Rightarrow> (ppp, unit) act" where
  "write_client E s =
     (if passive_mode (lcp_wantoptions s) \<or> silent_mode (lcp_wantoptions s)
      then steps [output_frame E client_string, bnd (ext E TASKDELAY) (\<lambda>_. skip)] s
      else Ret () s)"

text \<open>The options of the request: \<open>cilen\<close> bounded by what the peer can receive, then \<open>addci\<close>.\<close>

definition make_ci :: "env \<Rightarrow> fsm_callbacks \<Rightarrow> (ppp, bytes \<times> int) act" where
  "make_ci E C s =
     (case (cilen C, addci C) of
        (Some cl, Some ad) \<Rightarrow>
          (let n = cl s; m = peer_mru s - HEADERLEN (eh E) in ad (if n > m then m else n) s)
      | _ \<Rightarrow> Ret ([], 0) s)"

definition fsm_sconfreq :: "env \<Rightarrow> fsm_callbacks \<Rightarrow> bool \<Rightarrow> (ppp, unit) act" where
  "fsm_sconfreq E C retrans = steps
     [\<lambda>s. if state_of C s \<notin> {REQSENT, ACKRCVD, ACKSENT}
          then steps [call (resetci C), modf C (\<lambda>f. f\<lparr>nakloops := 0\<rparr>)] s else Ret () s,
      if \<not> retrans
      then modf C (\<lambda>f. f\<lparr>retransmits := maxconfreqtransmits f, fid := fid f + 1,
             reqid := reqid_conv (eh E) (uint (fid f + 1))\<rparr>)
      else skip,
      write_client E,
      bnd (make_ci E C) (\<lambda>(outp, n) s.
        fsm_sdata E C (CONFREQ (eh E)) (word_of_int (reqid (getf C s))) outp n s),
      modf C (\<lambda>f. f\<lparr>retransmits := retransmits f - 1\<rparr>),
      TIMEOUT_FSM E C]"

text \<open>\<open>fsm_sdata(f, TERMREQ, f->reqid = ++f->id, NULL, 0)\<close>, the timer and the counter.\<close>

definition send_termreq :: "env \<Rightarrow> fsm_callbacks \<Rightarrow> (ppp, unit) act" where
  "send_termreq E C = steps
     [modf C (\<lambda>f. f\<lparr>fid := fid f + 1, reqid := reqid_conv (eh E) (uint (fid f + 1))\<rparr>),
      \<lambda>s. fsm_sdata E C (TERMREQ (eh E)) (fid (getf C s)) [] 0 s,
      TIMEOUT_FSM E C,
      modf C (\<lambda>f. f\<lparr>retransmits := retransmits f - 1\<rparr>)]"

subsection \<open>Events from below and above\<close>

definition fsm_lowerup :: "env \<Rightarrow> fsm_callbacks \<Rightarrow> (ppp, unit) act" where
  "fsm_lowerup E C s =
     (case state_of C s of
        INITIAL \<Rightarrow> set_state C CLOSED s
      | STARTING \<Rightarrow>
          (if opt_silent (getf C s) then set_state C STOPPED s
           else steps [fsm_sconfreq E C False, set_state C REQSENT] s)
      | _ \<Rightarrow> Ret () s)"

definition fsm_lowerdown :: "env \<Rightarrow> fsm_callbacks \<Rightarrow> (ppp, unit) act" where
  "fsm_lowerdown E C s =
     (case state_of C s of
        CLOSED \<Rightarrow> set_state C INITIAL s
      | STOPPED \<Rightarrow> steps [set_state C STARTING, call (starting C)] s
      | CLOSING \<Rightarrow> steps [set_state C INITIAL, UNTIMEOUT_FSM E C] s
      | STOPPING \<Rightarrow> steps [set_state C STARTING, UNTIMEOUT_FSM E C] s
      | REQSENT \<Rightarrow> steps [set_state C STARTING, UNTIMEOUT_FSM E C] s
      | ACKRCVD \<Rightarrow> steps [set_state C STARTING, UNTIMEOUT_FSM E C] s
      | ACKSENT \<Rightarrow> steps [set_state C STARTING, UNTIMEOUT_FSM E C] s
      | OPENED \<Rightarrow> steps [call (down C), set_state C STARTING] s
      | _ \<Rightarrow> Ret () s)"

definition fsm_reopen :: "env \<Rightarrow> fsm_callbacks \<Rightarrow> (ppp, unit) act" where
  "fsm_reopen E C s =
     (if opt_restart (getf C s) then steps [fsm_lowerdown E C, fsm_lowerup E C] s else Ret () s)"

definition fsm_open :: "env \<Rightarrow> fsm_callbacks \<Rightarrow> (ppp, unit) act" where
  "fsm_open E C s =
     (case state_of C s of
        INITIAL \<Rightarrow> steps [set_state C STARTING, call (starting C)] s
      | CLOSED \<Rightarrow>
          (if opt_silent (getf C s) then set_state C STOPPED s
           else steps [fsm_sconfreq E C False, set_state C REQSENT] s)
      | CLOSING \<Rightarrow> steps [set_state C STOPPING, fsm_reopen E C] s
      | STOPPED \<Rightarrow> fsm_reopen E C s
      | OPENED \<Rightarrow> fsm_reopen E C s
      | _ \<Rightarrow> Ret () s)"

definition fsm_close :: "env \<Rightarrow> fsm_callbacks \<Rightarrow> (ppp, unit) act" where
  "fsm_close E C s =
     (let shut = [modf C (\<lambda>f. f\<lparr>retransmits := maxtermtransmits f\<rparr>), send_termreq E C, set_state C CLOSING]
      in case state_of C s of
        STARTING \<Rightarrow> set_state C INITIAL s
      | STOPPED \<Rightarrow> set_state C CLOSED s
      | STOPPING \<Rightarrow> set_state C CLOSING s
      | REQSENT \<Rightarrow> steps (UNTIMEOUT_FSM E C # shut) s
      | ACKRCVD \<Rightarrow> steps (UNTIMEOUT_FSM E C # shut) s
      | ACKSENT \<Rightarrow> steps (UNTIMEOUT_FSM E C # shut) s
      | OPENED \<Rightarrow> steps (call (down C) # shut) s
      | _ \<Rightarrow> Ret () s)"

definition fsm_timeout :: "env \<Rightarrow> fsm_callbacks \<Rightarrow> (ppp, unit) act" where
  "fsm_timeout E C s =
     (let give_up = (\<lambda>st. steps [set_state C st, call (finished C)] s);
          renegotiate =
            (if retransmits (getf C s) \<le> 0
             then steps [set_state C STOPPED,
                    \<lambda>s. if \<not> opt_passive (getf C s) then call (finished C) s else Ret () s] s
             else steps [call (retransmit C), fsm_sconfreq E C True,
                    \<lambda>s. if state_of C s = ACKRCVD then set_state C REQSENT s else Ret () s] s)
      in case state_of C s of
        CLOSING \<Rightarrow> (if retransmits (getf C s) \<le> 0 then give_up CLOSED else send_termreq E C s)
      | STOPPING \<Rightarrow> (if retransmits (getf C s) \<le> 0 then give_up STOPPED else send_termreq E C s)
      | REQSENT \<Rightarrow> renegotiate
      | ACKRCVD \<Rightarrow> renegotiate
      | ACKSENT \<Rightarrow> renegotiate
      | _ \<Rightarrow> Ret () s)"

subsection \<open>Packets from the peer\<close>

text \<open>Go down and restart the negotiation.\<close>

definition renegotiate :: "env \<Rightarrow> fsm_callbacks \<Rightarrow> (ppp, unit) act" where
  "renegotiate E C = steps [call (down C), fsm_sconfreq E C False]"

definition check_ci :: "fsm_callbacks \<Rightarrow> bytes \<Rightarrow> int \<Rightarrow> (ppp, ccode \<times> bytes \<times> int) act" where
  "check_ci C inp len s =
     (case reqci C of
        Some rq \<Rightarrow> rq inp len (nakloops (getf C s) \<ge> maxnakloops (getf C s)) s
      | None \<Rightarrow> Ret (if len \<noteq> 0 then ConfRej else ConfAck, inp, len) s)"

text \<open>The first \<open>switch\<close> of \<open>fsm_rconfreq\<close>: whether the request is to be checked at all.\<close>

definition rconfreq_first :: "env \<Rightarrow> fsm_callbacks \<Rightarrow> u8 \<Rightarrow> (ppp, bool) act" where
  "rconfreq_first E C ident s =
     (case state_of C s of
        CLOSED \<Rightarrow> finally_ret (fsm_sdata E C (TERMACK (eh E)) ident [] 0) False s
      | CLOSING \<Rightarrow> Ret False s
      | STOPPING \<Rightarrow> Ret False s
      | OPENED \<Rightarrow> finally_ret (renegotiate E C) True s
      | STOPPED \<Rightarrow> finally_ret (steps [fsm_sconfreq E C False, set_state C REQSENT]) True s
      | _ \<Rightarrow> Ret True s)"

text \<open>Send the Ack, Nak or Reject and take the transition.\<close>

definition rconfreq_answer :: "env \<Rightarrow> fsm_callbacks \<Rightarrow> u8 \<Rightarrow> ccode \<times> bytes \<times> int \<Rightarrow> (ppp, unit) act" where
  "rconfreq_answer E C ident = (\<lambda>(code, inp, len). steps
     [fsm_sdata E C (ccode_byte (eh E) code) ident inp len,
      \<lambda>s. if code = ConfAck
        then steps
          [\<lambda>s. if state_of C s = ACKRCVD
               then steps [UNTIMEOUT_FSM E C, set_state C OPENED, call (up C)] s
               else set_state C ACKSENT s,
           modf C (\<lambda>f. f\<lparr>nakloops := 0\<rparr>)] s
        else steps
          [\<lambda>s. if state_of C s \<noteq> ACKRCVD then set_state C REQSENT s else Ret () s,
           if code = ConfNak then modf C (\<lambda>f. f\<lparr>nakloops := nakloops f + 1\<rparr>) else skip] s])"

definition fsm_rconfreq :: "env \<Rightarrow> fsm_callbacks \<Rightarrow> u8 \<Rightarrow> bytes \<Rightarrow> int \<Rightarrow> (ppp, unit) act" where
  "fsm_rconfreq E C ident inp len =
     bnd (rconfreq_first E C ident) (\<lambda>go. if go
       then bnd (check_ci C inp len) (rconfreq_answer E C ident) else skip)"

definition fsm_rconfack :: "env \<Rightarrow> fsm_callbacks \<Rightarrow> u8 \<Rightarrow> bytes \<Rightarrow> int \<Rightarrow> (ppp, unit) act" where
  "fsm_rconfack E C ident inp len s =
     (if uint ident \<noteq> reqid (getf C s) then Ret () s
      else bnd (case ackci C of Some ak \<Rightarrow> ak inp len | None \<Rightarrow> ret (len = 0)) (\<lambda>good s.
        if \<not> good then Ret () s
        else steps
          [modf C (\<lambda>f. f\<lparr>reqid := reqid_conv (eh E) (-1)\<rparr>),
           \<lambda>s. case state_of C s of
             CLOSED \<Rightarrow> fsm_sdata E C (TERMACK (eh E)) ident [] 0 s
           | STOPPED \<Rightarrow> fsm_sdata E C (TERMACK (eh E)) ident [] 0 s
           | REQSENT \<Rightarrow> steps [set_state C ACKRCVD,
               modf C (\<lambda>f. f\<lparr>retransmits := maxconfreqtransmits f\<rparr>)] s
           | ACKRCVD \<Rightarrow> steps [fsm_sconfreq E C False, set_state C REQSENT] s
           | ACKSENT \<Rightarrow> steps [UNTIMEOUT_FSM E C, set_state C OPENED,
               modf C (\<lambda>f. f\<lparr>retransmits := maxconfreqtransmits f\<rparr>), call (up C)] s
           | OPENED \<Rightarrow> steps [renegotiate E C, set_state C REQSENT] s
           | _ \<Rightarrow> Ret () s] s) s)"

definition fsm_rconfnakrej :: "env \<Rightarrow> fsm_callbacks \<Rightarrow> u8 \<Rightarrow> u8 \<Rightarrow> bytes \<Rightarrow> int \<Rightarrow> (ppp, unit) act" where
  "fsm_rconfnakrej E C code ident inp len s =
     (if uint ident \<noteq> reqid (getf C s) then Ret () s
      else bnd (case (if code = CONFNAK (eh E) then nakci C else rejci C) of
                  Some pr \<Rightarrow> pr inp len | None \<Rightarrow> ret False) (\<lambda>good s.
        if \<not> good then Ret () s
        else steps
          [modf C (\<lambda>f. f\<lparr>reqid := reqid_conv (eh E) (-1)\<rparr>),
           \<lambda>s. case state_of C s of
             CLOSED \<Rightarrow> fsm_sdata E C (TERMACK (eh E)) ident [] 0 s
           | STOPPED \<Rightarrow> fsm_sdata E C (TERMACK (eh E)) ident [] 0 s
           | REQSENT \<Rightarrow> steps [UNTIMEOUT_FSM E C, fsm_sconfreq E C False] s
           | ACKSENT \<Rightarrow> steps [UNTIMEOUT_FSM E C, fsm_sconfreq E C False] s
           | ACKRCVD \<Rightarrow> steps [fsm_sconfreq E C False, set_state C REQSENT] s
           | OPENED \<Rightarrow> steps [renegotiate E C, set_state C REQSENT] s
           | _ \<Rightarrow> Ret () s] s) s)"

definition fsm_rtermreq :: "env \<Rightarrow> fsm_callbacks \<Rightarrow> u8 \<Rightarrow> (ppp, unit) act" where
  "fsm_rtermreq E C ident = steps
     [\<lambda>s. case state_of C s of
        ACKRCVD \<Rightarrow> set_state C REQSENT s
      | ACKSENT \<Rightarrow> set_state C REQSENT s
      | OPENED \<Rightarrow> steps [call (down C), modf C (\<lambda>f. f\<lparr>retransmits := 0\<rparr>),
          set_state C STOPPING, TIMEOUT_FSM E C] s
      | _ \<Rightarrow> Ret () s,
      fsm_sdata E C (TERMACK (eh E)) ident [] 0]"

definition fsm_rtermack :: "env \<Rightarrow> fsm_callbacks \<Rightarrow> (ppp, unit) act" where
  "fsm_rtermack E C s =
     (case state_of C s of
        CLOSING \<Rightarrow> steps [set_state C CLOSED, call (finished C)] s
      | STOPPING \<Rightarrow> steps [set_state C STOPPED, call (finished C)] s
      | ACKRCVD \<Rightarrow> set_state C REQSENT s
      | OPENED \<Rightarrow> renegotiate E C s
      | _ \<Rightarrow> Ret () s)"

definition fsm_rcoderej :: "env \<Rightarrow> fsm_callbacks \<Rightarrow> bytes \<Rightarrow> int \<Rightarrow> (ppp, unit) act" where
  "fsm_rcoderej E C inp len s =
     (if len < HEADERLEN (eh E) then Ret () s
      else if state_of C s = ACKRCVD then set_state C REQSENT s else Ret () s)"

definition fsm_protreject :: "env \<Rightarrow> fsm_callbacks \<Rightarrow> (ppp, unit) act" where
  "fsm_protreject E C s =
     (let stop = (\<lambda>pre st. steps (pre @ [set_state C st, call (finished C)]) s)
      in case state_of C s of
        CLOSING \<Rightarrow> stop [UNTIMEOUT_FSM E C] CLOSED
      | CLOSED \<Rightarrow> stop [] CLOSED
      | STOPPING \<Rightarrow> stop [UNTIMEOUT_FSM E C] STOPPED
      | REQSENT \<Rightarrow> stop [UNTIMEOUT_FSM E C] STOPPED
      | ACKRCVD \<Rightarrow> stop [UNTIMEOUT_FSM E C] STOPPED
      | ACKSENT \<Rightarrow> stop [UNTIMEOUT_FSM E C] STOPPED
      | STOPPED \<Rightarrow> stop [] STOPPED
      | OPENED \<Rightarrow> steps [call (down C), modf C (\<lambda>f. f\<lparr>retransmits := maxtermtransmits f\<rparr>),
          send_termreq E C, set_state C STOPPING] s
      | _ \<Rightarrow> Ret () s)"

text \<open>The packet header: code, identifier and length, if it is acceptable.\<close>

definition parse_header :: "hdr \<Rightarrow> int \<Rightarrow> bytes \<Rightarrow> int \<Rightarrow> (u8 \<times> u8 \<times> bytes \<times> int) option" where
  "parse_header h hlen inpacket l =
     (if l < hlen then None
      else let len = uint (getshort h (rd inpacket 2) (rd inpacket 3)) in
        if len < hlen then None
        else if len > l then None
        else Some (rd inpacket 0, rd inpacket 1, drop 4 inpacket, len - hlen))"

definition fsm_input :: "env \<Rightarrow> fsm_callbacks \<Rightarrow> bytes \<Rightarrow> int \<Rightarrow> (ppp, unit) act" where
  "fsm_input E C inpacket l s =
     (case parse_header (eh E) (HEADERLEN (eh E)) inpacket l of
        None \<Rightarrow> Ret () s
      | Some (code, ident, inp, len) \<Rightarrow>
          if state_of C s = INITIAL \<or> state_of C s = STARTING then Ret () s
          else if code = CONFREQ (eh E) then fsm_rconfreq E C ident inp len s
          else if code = CONFACK (eh E) then fsm_rconfack E C ident inp len s
          else if code = CONFNAK (eh E) \<or> code = CONFREJ (eh E)
            then fsm_rconfnakrej E C code ident inp len s
          else if code = TERMREQ (eh E) then fsm_rtermreq E C ident s
          else if code = TERMACK (eh E) then fsm_rtermack E C s
          else if code = CODEREJ (eh E) then fsm_rcoderej E C inp len s
          else bnd (case extcode C of Some ex \<Rightarrow> ex code ident inp len | None \<Rightarrow> ret False)
            (\<lambda>handled. if handled then skip else steps
               [modf C (\<lambda>f. f\<lparr>fid := fid f + 1\<rparr>),
                \<lambda>s. fsm_sdata E C (CODEREJ (eh E)) (fid (getf C s)) inpacket (len + HEADERLEN (eh E)) s]) s)"

end
