(* ===== verification/Conf_Options.thy ===== *)
theory Conf_Options
  imports Fsm
begin

text \<open>
  What the configuration option callbacks of \<open>lcp.c\<close> and \<open>ipcp.c\<close> have in common. Both are
  written with macros (\<open>ACKCI...\<close>, \<open>REJCI...\<close>) that check one option at the pointer \<open>p\<close>
  with \<open>len\<close> bytes left; the pair of the two is a cursor, \<open>goto bad\<close> is \<open>None\<close>, and
  \<open>seq_opt\<close> is the sequence of macro calls. The laws say which bytes such a sequence
  accepts: an Ack must be exactly the bytes sent, a Reject a selection of the options sent.
\<close>

section \<open>Macros\<close>

abbreviation (input) CILEN_VOID :: int where "CILEN_VOID \<equiv> 2"

primrec seq_opt :: "('c \<Rightarrow> 'c option) list \<Rightarrow> 'c \<Rightarrow> 'c option" where
  "seq_opt [] c = Some c"
| "seq_opt (f # fs) c = Option.bind (f c) (seq_opt fs)"

type_synonym cursor = "bytes \<times> int"

abbreviation rdshort :: "hdr \<Rightarrow> bytes \<Rightarrow> nat \<Rightarrow> u16" where
  "rdshort h p i \<equiv> getshort h (rd p i) (rd p (i + 1))"

abbreviation rdlong :: "hdr \<Rightarrow> bytes \<Rightarrow> nat \<Rightarrow> u32" where
  "rdlong h p i \<equiv> getlong h (rd p i) (rd p (i + 1)) (rd p (i + 2)) (rd p (i + 3))"

text \<open>The common part: enough bytes left, the length and the type, then a check of the value.\<close>

definition ACKCI :: "u8 \<Rightarrow> u8 \<Rightarrow> bool \<Rightarrow> (bytes \<Rightarrow> bool) \<Rightarrow> cursor \<Rightarrow> cursor option" where
  "ACKCI opt cl neg chk = (\<lambda>(p, len).
     if \<not> neg then Some (p, len)
     else if len - uint cl < 0 then None
     else if rd p 1 \<noteq> cl \<or> rd p 0 \<noteq> opt then None
     else if \<not> chk p then None
     else Some (drop (unat cl) p, len - uint cl))"

text \<open>The cursor and the options to request next time.\<close>

definition REJCI :: "u8 \<Rightarrow> int \<Rightarrow> bool \<Rightarrow> (bytes \<Rightarrow> bool) \<Rightarrow> ('o \<Rightarrow> 'o)
    \<Rightarrow> cursor \<times> 'o \<Rightarrow> (cursor \<times> 'o) option" where
  "REJCI opt cl neg chk clear = (\<lambda>((p, len), try).
     if neg \<and> len \<ge> cl \<and> uint (rd p 1) = cl \<and> rd p 0 = opt
     then if chk p then Some ((drop (nat cl) p, len - cl), clear try) else None
     else Some ((p, len), try))"

section \<open>Parsers of a fixed encoding\<close>

text \<open>\<open>f\<close> consumes exactly the bytes \<open>e\<close>, and fails on anything else.\<close>

definition consumes :: "bytes \<Rightarrow> (cursor \<Rightarrow> cursor option) \<Rightarrow> bool" where
  "consumes e f \<longleftrightarrow> (\<forall>p len. 0 \<le> len \<longrightarrow> len \<le> int (length p) \<longrightarrow>
     f (p, len) = (if int (length e) \<le> len \<and> take (length e) p = e
                   then Some (drop (length e) p, len - int (length e)) else None))"

lemma consumesD:
  "consumes e f \<Longrightarrow> 0 \<le> len \<Longrightarrow> len \<le> int (length p) \<Longrightarrow>
   f (p, len) = (if int (length e) \<le> len \<and> take (length e) p = e
                 then Some (drop (length e) p, len - int (length e)) else None)"
  by (simp add: consumes_def)

lemma take_eq_append_iff:
  "take (length e) p = e \<and> take (length e') (drop (length e) p) = e' \<longleftrightarrow>
   take (length e + length e') p = e @ e'"
proof
  assume "take (length e) p = e \<and> take (length e') (drop (length e) p) = e'"
  then show "take (length e + length e') p = e @ e'" by (simp add: take_add)
next
  assume a: "take (length e + length e') p = e @ e'"
  from arg_cong [OF a, of "take (length e)"] have "take (length e) p = e" by simp
  moreover from arg_cong [OF a, of "drop (length e)"]
  have "take (length e') (drop (length e) p) = e'" by (simp add: drop_take)
  ultimately show "take (length e) p = e \<and> take (length e') (drop (length e) p) = e'" ..
qed

lemma consumes_bind:
  assumes "consumes e f" and "consumes e' g"
  shows "consumes (e @ e') (\<lambda>c. Option.bind (f c) g)"
  unfolding consumes_def
proof (intro allI impI)
  fix p len assume len: "(0::int) \<le> len" "len \<le> int (length (p::bytes))"
  show "Option.bind (f (p, len)) g =
      (if int (length (e @ e')) \<le> len \<and> take (length (e @ e')) p = e @ e'
       then Some (drop (length (e @ e')) p, len - int (length (e @ e'))) else None)"
  proof (cases "int (length e) \<le> len \<and> take (length e) p = e")
    case True
    then have f: "f (p, len) = Some (drop (length e) p, len - int (length e))"
      by (simp add: consumesD [OF assms(1) len])
    have "g (drop (length e) p, len - int (length e)) =
       (if int (length e') \<le> len - int (length e) \<and> take (length e') (drop (length e) p) = e'
        then Some (drop (length e') (drop (length e) p), len - int (length e) - int (length e')) else None)"
      using True len by (intro consumesD [OF assms(2)]) auto
    with True f show ?thesis
      using take_eq_append_iff [of e p e'] by (auto simp: add.commute)
  next
    case False
    then show ?thesis
      using take_eq_append_iff [of e p e'] by (auto simp: consumesD [OF assms(1) len])
  qed
qed

lemma consumes_Nil: "consumes [] Some"
  by (simp add: consumes_def)

lemma consumes_seq: "list_all2 consumes es fs \<Longrightarrow> consumes (concat es) (seq_opt fs)"
proof (induction rule: list_all2_induct)
  case Nil
  have "seq_opt [] = (Some :: cursor \<Rightarrow> cursor option)" by auto
  then show ?case using consumes_Nil by simp
next
  case (Cons e es f fs)
  then have "consumes (e @ concat es) (\<lambda>c. Option.bind (f c) (seq_opt fs))" by (intro consumes_bind)
  moreover have "(\<lambda>c. Option.bind (f c) (seq_opt fs)) = seq_opt (f # fs)" by auto
  ultimately show ?case by simp
qed

lemma consumes_all:
  assumes "consumes e f" and "0 \<le> len" and "len \<le> int (length p)"
  shows "(case f (p, len) of None \<Rightarrow> False | Some (_, rest) \<Rightarrow> rest = 0) \<longleftrightarrow> take (nat len) p = e \<and> len = int (length e)"
  using assms(2,3) by (auto simp: consumesD [OF assms(1)] split: if_splits)

text \<open>The common shape of the \<open>ACKCI\<close> macros, given what the value check means.\<close>

lemma take_eq_rd:
  "n \<le> length p \<Longrightarrow> length e = n \<Longrightarrow> take n p = e \<longleftrightarrow> (\<forall>i<n. rd p i = e ! i)"
  by (auto simp: list_eq_iff_nth_eq rd_def)

lemma consumes_ACKCI:
  assumes len: "length v + 2 = unat cl"
    and chk: "\<And>p. unat cl \<le> length p \<Longrightarrow> chk p \<longleftrightarrow> take (length v) (drop 2 p) = v"
  shows "consumes (if neg then [opt, cl] @ v else []) (ACKCI opt cl neg chk)"
proof (cases neg)
  case True
  have [simp]: "uint cl = int (length v) + 2"
    using len by (metis of_nat_add of_nat_numeral uint_nat)
  have K: "chk p \<and> rd p 0 = opt \<and> rd p 1 = cl \<longleftrightarrow> take (length v + 2) p = opt # cl # v"
    if "length v + 2 \<le> length p" for p
  proof (cases p)
    case (Cons a q)
    then obtain b q' where "p = a # b # q'" using \<open>length v + 2 \<le> length p\<close> by (cases q) auto
    moreover have "chk p \<longleftrightarrow> take (length v) (drop 2 p) = v" using chk [of p] that len by simp
    ultimately show ?thesis by (auto simp: numeral_2_eq_2)
  qed (use that in simp)
  show ?thesis
    unfolding consumes_def
  proof (intro allI impI)
    fix p len assume "(0::int) \<le> len" "len \<le> int (length (p::bytes))"
    then show "ACKCI opt cl neg chk (p, len) =
        (if int (length (if neg then [opt, cl] @ v else [])) \<le> len \<and>
            take (length (if neg then [opt, cl] @ v else [])) p = (if neg then [opt, cl] @ v else [])
         then Some (drop (length (if neg then [opt, cl] @ v else [])) p,
           len - int (length (if neg then [opt, cl] @ v else []))) else None)"
      using True K [of p] by (auto simp: ACKCI_def len [symmetric] Let_def)
  qed
qed (simp add: consumes_def ACKCI_def)

text \<open>Reading a value is comparing bytes.\<close>

lemma take2_drop: "i + 2 \<le> length p \<Longrightarrow> take 2 (drop i p) = [rd p i, rd p (i + 1)]"
  by (auto simp: list_eq_iff_nth_eq rd_def less_2_cases_iff nth_Cons split: nat.split)

lemma take4_drop:
  "i + 4 \<le> length p \<Longrightarrow> take 4 (drop i p) = [rd p i, rd p (i + 1), rd p (i + 2), rd p (i + 3)]"
  by (auto simp: list_eq_iff_nth_eq rd_def nth_Cons eval_nat_numeral less_Suc_eq split: nat.split)

lemma rdshort_iff:
  assumes "codec_ok h" and "i + 2 \<le> length p"
  shows "rdshort h p i = v \<longleftrightarrow> take 2 (drop i p) = putshort h v"
  using access_macros.gs_eq_iff [OF codec_access_macros [OF assms(1)]] take2_drop [OF assms(2)] by auto

lemma rdlong_iff:
  assumes "codec_ok h" and "i + 4 \<le> length p"
  shows "rdlong h p i = v \<longleftrightarrow> take 4 (drop i p) = putlong h v"
  using access_macros.gl_eq_iff [OF codec_access_macros [OF assms(1)]] take4_drop [OF assms(2)] by auto

lemmas rd2_iff = rdshort_iff [where i = 2, simplified] rdlong_iff [where i = 2, simplified]
  rdlong_iff [where i = 4, simplified]

section \<open>Rejected options\<close>

text \<open>
  A rejectable option: its encoding, whether it was requested, and how it is dropped from
  the next request. A good Reject is a selection of the requested options, in their order.
\<close>

type_synonym 'o rej_item = "bytes \<times> bool \<times> ('o \<Rightarrow> 'o)"

fun rej_ok :: "'o rej_item list \<Rightarrow> bytes \<Rightarrow> 'o \<Rightarrow> 'o \<Rightarrow> bool" where
  "rej_ok [] w t t' \<longleftrightarrow> w = [] \<and> t' = t"
| "rej_ok ((e, neg, clear) # xs) w t t' \<longleftrightarrow>
     rej_ok xs w t t' \<or> neg \<and> (\<exists>w'. w = e @ w' \<and> rej_ok xs w' (clear t) t')"

definition tlv :: "bytes \<Rightarrow> bool" where
  "tlv e \<longleftrightarrow> 2 \<le> length e \<and> uint (e ! 1) = int (length e)"

definition rejects :: "'o rej_item \<Rightarrow> (cursor \<times> 'o \<Rightarrow> (cursor \<times> 'o) option) \<Rightarrow> bool" where
  "rejects x f \<longleftrightarrow> (case x of (e, neg, clear) \<Rightarrow> tlv e \<and> (\<forall>p len t. 0 \<le> len \<longrightarrow> len \<le> int (length p) \<longrightarrow>
     f ((p, len), t) =
       (if neg \<and> int (length e) \<le> len \<and> rd p 1 = e ! 1 \<and> rd p 0 = hd e
        then if take (length e) p = e
             then Some ((drop (length e) p, len - int (length e)), clear t) else None
        else Some ((p, len), t))))"

lemma rej_ok_head:
  "rej_ok xs w t t' \<Longrightarrow> w \<noteq> [] \<Longrightarrow> \<forall>x \<in> set xs. fst x \<noteq> [] \<Longrightarrow>
   \<exists>(e, neg, clear) \<in> set xs. neg \<and> hd e = hd w"
  by (induction xs w t t' rule: rej_ok.induct) auto

lemma tlv_prefix:
  assumes "tlv e" and "take (nat len) p = e @ w'" and "0 \<le> len" and "len \<le> int (length p)"
  shows "int (length e) \<le> len" "rd p 1 = e ! 1" "rd p 0 = hd e" "take (length e) p = e"
    "w' = take (nat (len - int (length e))) (drop (length e) p)"
proof -
  have "length (take (nat len) p) = nat len" using assms(3,4) by simp
  then have l: "nat len = length e + length w'" by (simp add: assms(2))
  then show "int (length e) \<le> len" using assms(3) by linarith
  have p: "p = e @ w' @ drop (nat len) p" by (metis append_assoc append_take_drop_id assms(2))
  obtain a b e' where e: "e = a # b # e'"
    using assms(1) by (cases e rule: remdups_adj.cases) (auto simp: tlv_def)
  show "rd p 1 = e ! 1" "rd p 0 = hd e" by (subst p, simp add: e)+
  show "take (length e) p = e" by (subst p) simp
  have "nat (len - int (length e)) = length w'" using l assms(3) by linarith
  then show "w' = take (nat (len - int (length e))) (drop (length e) p)"
    by (subst p) simp
qed

lemma rej_seq_iff:
  assumes "list_all2 rejects xs fs"
    and "sorted_wrt (\<lambda>x y. fst (snd x) \<longrightarrow> fst (snd y) \<longrightarrow> hd (fst x) \<noteq> hd (fst y)) xs"
    and "0 \<le> len" and "len \<le> int (length p)"
  shows "(\<exists>p'. seq_opt fs ((p, len), t) = Some ((p', 0), t')) \<longleftrightarrow>
    rej_ok xs (take (nat len) p) t t'"
  using assms
proof (induction arbitrary: p len t rule: list_all2_induct)
  case Nil
  then show ?case by auto
next
  case (Cons x xs f fs)
  obtain e neg clear where x: "x = (e, neg, clear)" by (cases x)
  have f: "tlv e" "f ((p, len), t) =
       (if neg \<and> int (length e) \<le> len \<and> rd p 1 = e ! 1 \<and> rd p 0 = hd e
        then if take (length e) p = e
             then Some ((drop (length e) p, len - int (length e)), clear t) else None
        else Some ((p, len), t))"
    using Cons.hyps(1) Cons.prems(2,3) by (simp_all add: rejects_def x)
  have ne: "\<forall>y \<in> set xs. fst y \<noteq> []"
  proof
    fix y assume "y \<in> set xs"
    then obtain g where "rejects y g"
      using Cons.hyps(2) by (auto simp: list_all2_conv_all_nth in_set_conv_nth)
    then show "fst y \<noteq> []" by (auto simp: rejects_def tlv_def split: prod.splits)
  qed
  show ?case
  proof (cases "neg \<and> int (length e) \<le> len \<and> rd p 1 = e ! 1 \<and> rd p 0 = hd e")
    case True
    have "take (nat len) p \<noteq> []" "hd (take (nat len) p) = hd e"
      using True Cons.prems(2,3) f(1) by (cases p; auto simp: tlv_def)+
    then have "\<not> rej_ok xs (take (nat len) p) t t'"
      using rej_ok_head [OF _ _ ne] Cons.prems(1) True by (fastforce simp: x)
    then have R: "rej_ok (x # xs) (take (nat len) p) t t' \<longleftrightarrow>
        (\<exists>w'. take (nat len) p = e @ w' \<and> rej_ok xs w' (clear t) t')"
      using True by (simp add: x)
    show ?thesis
    proof (cases "take (length e) p = e")
      case e: True
      define w where "w = take (nat (len - int (length e))) (drop (length e) p)"
      have "take (nat len) p = take (length e + nat (len - int (length e))) p"
        using True by (intro arg_cong2 [where f = take] refl) linarith
      then have "take (nat len) p = e @ w" by (simp add: take_add e w_def)
      moreover have "(\<exists>p'. seq_opt fs ((drop (length e) p, len - int (length e)), clear t) = Some ((p', 0), t'))
          \<longleftrightarrow> rej_ok xs w (clear t) t'"
        unfolding w_def using True Cons.prems by (intro Cons.IH) auto
      ultimately show ?thesis using True e f R by simp
    next
      case ne: False
      then have "\<not> (\<exists>w'. take (nat len) p = e @ w')"
        using tlv_prefix(4) [OF f(1) _ Cons.prems(2,3)] by blast
      then show ?thesis using True ne f(2) R by auto
    qed
  next
    case False
    then have "rej_ok (x # xs) (take (nat len) p) t t' \<longleftrightarrow> rej_ok xs (take (nat len) p) t t'"
      using tlv_prefix(1-3) [OF f(1) _ Cons.prems(2,3)] by (auto simp: x)
    moreover have "(\<exists>p'. seq_opt fs ((p, len), t) = Some ((p', 0), t')) \<longleftrightarrow> rej_ok xs (take (nat len) p) t t'"
      using Cons.prems by (intro Cons.IH) auto
    moreover have "f ((p, len), t) = Some ((p, len), t)" using False f(2) by auto
    ultimately show ?thesis by simp
  qed
qed

lemma rejects_REJCI:
  assumes "length v + 2 = nat cl" and "2 \<le> cl" and "cl < 256"
    and chk: "\<And>p. nat cl \<le> length p \<Longrightarrow> chk p \<longleftrightarrow> take (length v) (drop 2 p) = v"
  shows "rejects ([opt, word_of_int cl] @ v, neg, clear) (REJCI opt cl neg chk clear)"
proof -
  have cl: "uint (word_of_int cl :: u8) = cl"
    using assms(2,3) by (simp add: uint_word_of_int)
  have L: "cl = int (length v) + 2" using assms(1,2) by linarith
  have K: "chk p \<longleftrightarrow> take (length v + 2) p = opt # word_of_int cl # v"
    if "length v + 2 \<le> length p" "rd p 0 = opt" "rd p 1 = word_of_int cl" for p
  proof (cases p)
    case (Cons a q)
    with that obtain b q' where "p = a # b # q'" by (cases q) auto
    with that chk [of p] show ?thesis by (simp add: L numeral_2_eq_2)
  qed (use that in simp)
  have u: "uint (rd p 1) = cl \<longleftrightarrow> rd p 1 = word_of_int cl" for p
    using cl by (metis word_of_int_uint)
  show ?thesis
    unfolding rejects_def tlv_def prod.case
  proof (intro conjI allI impI)
    fix p len t assume "(0::int) \<le> len" "len \<le> int (length (p::bytes))"
    with K [of p] u [of p] show "REJCI opt cl neg chk clear ((p, len), t) =
       (if neg \<and> int (length ([opt, word_of_int cl] @ v)) \<le> len
           \<and> rd p 1 = ([opt, word_of_int cl] @ v) ! 1 \<and> rd p 0 = hd ([opt, word_of_int cl] @ v)
        then if take (length ([opt, word_of_int cl] @ v)) p = [opt, word_of_int cl] @ v
             then Some ((drop (length ([opt, word_of_int cl] @ v)) p,
               len - int (length ([opt, word_of_int cl] @ v))), clear t) else None
        else Some ((p, len), t))"
      by (auto simp: REJCI_def L nat_add_distrib)
    next
    show "uint (([opt, word_of_int cl] @ v) ! 1) = int (length ([opt, word_of_int cl] @ v))"
      using cl L by simp
  qed simp
qed

fun rej_pick :: "'o rej_item list \<Rightarrow> bool list \<Rightarrow> bytes" where
  "rej_pick ((e, neg, clear) # xs) (b # bs) = (if b then e else []) @ rej_pick xs bs"
| "rej_pick xs bs = []"

fun rej_clear :: "'o rej_item list \<Rightarrow> bool list \<Rightarrow> 'o \<Rightarrow> 'o" where
  "rej_clear ((e, neg, clear) # xs) (b # bs) t = rej_clear xs bs (if b then clear t else t)"
| "rej_clear xs bs t = t"

lemma rej_ok_pick:
  "rej_ok xs w t t' \<longleftrightarrow>
     (\<exists>bs. list_all2 (\<lambda>x b. b \<longrightarrow> fst (snd x)) xs bs \<and> w = rej_pick xs bs \<and> t' = rej_clear xs bs t)"
proof (induction xs arbitrary: w t)
  case (Cons x xs)
  obtain e neg clear where x: "x = (e, neg, clear)" by (cases x)
  show ?case
  proof
    assume "rej_ok (x # xs) w t t'"
    then consider bs where "list_all2 (\<lambda>x b. b \<longrightarrow> fst (snd x)) xs bs" "w = rej_pick xs bs"
        "t' = rej_clear xs bs t"
      | bs where "neg" "list_all2 (\<lambda>x b. b \<longrightarrow> fst (snd x)) xs bs" "w = e @ rej_pick xs bs"
        "t' = rej_clear xs bs (clear t)"
      unfolding x rej_ok.simps Cons.IH by blast
    then show "\<exists>bs. list_all2 (\<lambda>x b. b \<longrightarrow> fst (snd x)) (x # xs) bs \<and>
        w = rej_pick (x # xs) bs \<and> t' = rej_clear (x # xs) bs t"
    proof cases
      case (1 bs)
      then show ?thesis by (intro exI [of _ "False # bs"]) (simp add: x)
    next
      case (2 bs)
      then show ?thesis by (intro exI [of _ "True # bs"]) (simp add: x)
    qed
  next
    assume "\<exists>bs. list_all2 (\<lambda>x b. b \<longrightarrow> fst (snd x)) (x # xs) bs \<and>
        w = rej_pick (x # xs) bs \<and> t' = rej_clear (x # xs) bs t"
    then obtain b bs where "b \<longrightarrow> neg" "list_all2 (\<lambda>x b. b \<longrightarrow> fst (snd x)) xs bs"
      "w = rej_pick (x # xs) (b # bs)" "t' = rej_clear (x # xs) (b # bs) t"
      unfolding list_all2_Cons1 x by fastforce
    then show "rej_ok (x # xs) w t t'"
      unfolding x rej_ok.simps Cons.IH by (cases b) auto
  qed
qed simp

section \<open>The options of a request\<close>

definition bad_ci :: "bytes \<Rightarrow> int \<Rightarrow> bool" where
  "bad_ci p l \<longleftrightarrow> l < 2 \<or> uint (rd p 1) < 2 \<or> uint (rd p 1) > l"

text \<open>Cut a request into options; an option with an impossible length takes up the rest.\<close>

function split_cis :: "bytes \<Rightarrow> bytes list" where
  "split_cis w =
     (if w = [] then []
      else if bad_ci w (int (length w)) then [w]
      else take (unat (rd w 1)) w # split_cis (drop (unat (rd w 1)) w))"
  by pat_completeness auto
termination
proof (relation "measure length", goal_cases)
  case (2 w)
  then have "2 \<le> uint (rd w 1)" by (simp add: bad_ci_def)
  then have "0 < unat (rd w 1)" by (simp add: unat_gt_0 word_neq_0_conv [symmetric]) auto
  with 2 show ?case by simp
qed simp

declare split_cis.simps [simp del]

lemma split_cis_step:
  assumes "w \<noteq> []"
  shows "split_cis w = (if bad_ci w (int (length w)) then [w]
     else take (unat (rd w 1)) w # split_cis (drop (unat (rd w 1)) w))"
  using assms by (subst split_cis.simps) simp

text \<open>The worse of two verdicts decides.\<close>

definition worse :: "ccode \<Rightarrow> ccode \<Rightarrow> ccode" where
  "worse a b = (if a = ConfRej \<or> b = ConfRej then ConfRej
                else if a = ConfNak \<or> b = ConfNak then ConfNak else ConfAck)"

lemma concat_split_cis: "concat (split_cis w) = w"
proof (induction w rule: split_cis.induct)
  case (1 w)
  show ?case by (subst split_cis.simps) (use 1 in simp)
qed

lemma worse_assoc: "worse (worse a b) c = worse a (worse b c)"
  by (auto simp: worse_def)

lemma worse_Ack: "worse c ConfAck = c" "worse ConfAck c = c"
  by (cases c; simp add: worse_def)+

lemma worse_eq_Ack: "worse a b = ConfAck \<longleftrightarrow> a = ConfAck \<and> b = ConfAck"
  by (cases a; cases b; simp add: worse_def)

lemma split_cis_Nil [simp]: "split_cis [] = []"
  by (simp add: split_cis.simps)

lemma split_cis_tlv:
  assumes "tlv e"
  shows "split_cis (e @ w) = e # split_cis w"
proof -
  have e: "2 \<le> length e" "uint (e ! 1) = int (length e)" using assms by (auto simp: tlv_def)
  then have "rd (e @ w) 1 = e ! 1" by (simp add: rd_def nth_append)
  moreover have "unat (e ! 1) = length e" using e(2) by (simp add: unat_eq_nat_uint)
  ultimately show ?thesis using e by (subst split_cis.simps) (auto simp: bad_ci_def)
qed

lemma split_cis_concat:
  "\<forall>e \<in> set es. e = [] \<or> tlv e \<Longrightarrow> split_cis (concat es) = filter (\<lambda>e. e \<noteq> []) es"
proof (induction es)
  case (Cons e es)
  then show ?case by (cases "e = []") (auto simp: split_cis_tlv)
qed simp

lemma rd_take_eq [simp]: "i < n \<Longrightarrow> rd (take n p) i = rd p i"
  by (simp add: rd_def)

end
