(* ===== verification/Lcp_Options.thy ===== *)
theory Lcp_Options
  imports Fsm Conf_Options
begin

text \<open>
  The configuration option callbacks of \<open>lcp.c\<close>: building a Configure-Request, checking the
  peer's Ack, Nak and Reject of it, and answering the peer's own request. Each C macro
  (\<open>ADDCI...\<close>, \<open>ACKCI...\<close>, \<open>NAKCI...\<close>, \<open>REJCI...\<close>) is a definition; a pair of the pointer \<open>p\<close>
  and the counter \<open>len\<close> is a cursor, \<open>goto bad\<close> is \<open>None\<close>.
\<close>

section \<open>Our request\<close>

abbreviation (input) CILEN_SHORT :: int where "CILEN_SHORT \<equiv> 4"
abbreviation (input) CILEN_CHAP :: int where "CILEN_CHAP \<equiv> 5"
abbreviation (input) CILEN_LONG :: int where "CILEN_LONG \<equiv> 6"
abbreviation (input) CILEN_LQR :: int where "CILEN_LQR \<equiv> 8"

definition lcp_cilen :: "lcp_options \<Rightarrow> int" where
  "lcp_cilen go =
     (if neg_mru go then CILEN_SHORT else 0) +
     (if neg_asyncmap go then CILEN_LONG else 0) +
     (if neg_chap go then CILEN_CHAP else 0) +
     (if \<not> neg_chap go \<and> neg_upap go then CILEN_SHORT else 0) +
     (if neg_lqr go then CILEN_LQR else 0) +
     (if neg_magicnumber go then CILEN_LONG else 0) +
     (if neg_pcompression go then CILEN_VOID else 0) +
     (if neg_accompression go then CILEN_VOID else 0)"

definition ADDCIVOID :: "u8 \<Rightarrow> bool \<Rightarrow> bytes" where
  "ADDCIVOID opt neg = (if neg then [opt, 2] else [])"

definition ADDCISHORT :: "hdr \<Rightarrow> u8 \<Rightarrow> bool \<Rightarrow> u16 \<Rightarrow> bytes" where
  "ADDCISHORT h opt neg val = (if neg then [opt, 4] @ putshort h val else [])"

definition ADDCICHAP :: "hdr \<Rightarrow> u8 \<Rightarrow> bool \<Rightarrow> u16 \<Rightarrow> u8 \<Rightarrow> bytes" where
  "ADDCICHAP h opt neg val digest = (if neg then [opt, 5] @ putshort h val @ [digest] else [])"

definition ADDCILONG :: "hdr \<Rightarrow> u8 \<Rightarrow> bool \<Rightarrow> u32 \<Rightarrow> bytes" where
  "ADDCILONG h opt neg val = (if neg then [opt, 6] @ putlong h val else [])"

definition ADDCILQR :: "hdr \<Rightarrow> u8 \<Rightarrow> bool \<Rightarrow> u32 \<Rightarrow> bytes" where
  "ADDCILQR h opt neg val = (if neg then [opt, 8] @ putshort h (LQR h) @ putlong h val else [])"

text \<open>The bytes \<open>lcp_addci\<close> writes.\<close>

definition lcp_addci :: "hdr \<Rightarrow> lcp_options \<Rightarrow> bytes" where
  "lcp_addci h go = concat
     [ADDCISHORT h (CI_MRU h) (neg_mru go) (word_of_int (mru go)),
      ADDCILONG h (CI_ASYNCMAP h) (neg_asyncmap go) (asyncmap go),
      ADDCICHAP h (CI_AUTHTYPE h) (neg_chap go) (CHAP h) (chap_mdtype go),
      ADDCISHORT h (CI_AUTHTYPE h) (\<not> neg_chap go \<and> neg_upap go) (UPAP h),
      ADDCILQR h (CI_QUALITY h) (neg_lqr go) (lqr_period go),
      ADDCILONG h (CI_MAGICNUMBER h) (neg_magicnumber go) (magicnumber go),
      ADDCIVOID (CI_PCOMPRESSION h) (neg_pcompression go),
      ADDCIVOID (CI_ACCOMPRESSION h) (neg_accompression go)]"

section \<open>The peer acknowledges it\<close>

definition ACKCIVOID :: "u8 \<Rightarrow> bool \<Rightarrow> cursor \<Rightarrow> cursor option" where
  "ACKCIVOID opt neg = ACKCI opt 2 neg (\<lambda>_. True)"

definition ACKCISHORT :: "hdr \<Rightarrow> u8 \<Rightarrow> bool \<Rightarrow> u16 \<Rightarrow> cursor \<Rightarrow> cursor option" where
  "ACKCISHORT h opt neg val = ACKCI opt 4 neg (\<lambda>p. rdshort h p 2 = val)"

definition ACKCICHAP :: "hdr \<Rightarrow> u8 \<Rightarrow> bool \<Rightarrow> u16 \<Rightarrow> u8 \<Rightarrow> cursor \<Rightarrow> cursor option" where
  "ACKCICHAP h opt neg val digest = ACKCI opt 5 neg (\<lambda>p. rdshort h p 2 = val \<and> rd p 4 = digest)"

definition ACKCILONG :: "hdr \<Rightarrow> u8 \<Rightarrow> bool \<Rightarrow> u32 \<Rightarrow> cursor \<Rightarrow> cursor option" where
  "ACKCILONG h opt neg val = ACKCI opt 6 neg (\<lambda>p. rdlong h p 2 = val)"

definition ACKCILQR :: "hdr \<Rightarrow> u8 \<Rightarrow> bool \<Rightarrow> u32 \<Rightarrow> cursor \<Rightarrow> cursor option" where
  "ACKCILQR h opt neg val = ACKCI opt 8 neg (\<lambda>p. rdshort h p 2 = LQR h \<and> rdlong h p 4 = val)"

definition lcp_ackci :: "hdr \<Rightarrow> lcp_options \<Rightarrow> bytes \<Rightarrow> int \<Rightarrow> bool" where
  "lcp_ackci h go p len =
     (case seq_opt
         [ACKCISHORT h (CI_MRU h) (neg_mru go) (word_of_int (mru go)),
          ACKCILONG h (CI_ASYNCMAP h) (neg_asyncmap go) (asyncmap go),
          ACKCICHAP h (CI_AUTHTYPE h) (neg_chap go) (CHAP h) (chap_mdtype go),
          ACKCISHORT h (CI_AUTHTYPE h) (\<not> neg_chap go \<and> neg_upap go) (UPAP h),
          ACKCILQR h (CI_QUALITY h) (neg_lqr go) (lqr_period go),
          ACKCILONG h (CI_MAGICNUMBER h) (neg_magicnumber go) (magicnumber go),
          ACKCIVOID (CI_PCOMPRESSION h) (neg_pcompression go),
          ACKCIVOID (CI_ACCOMPRESSION h) (neg_accompression go)] (p, len) of
        None \<Rightarrow> False
      | Some (_, rest) \<Rightarrow> rest = 0)"

section \<open>The peer rejects some of it\<close>

definition lcp_rejci_try :: "hdr \<Rightarrow> lcp_options \<Rightarrow> bytes \<Rightarrow> int \<Rightarrow> lcp_options option" where
  "lcp_rejci_try h go p len =
     (case seq_opt
         [REJCI (CI_MRU h) CILEN_SHORT (neg_mru go)
            (\<lambda>p. rdshort h p 2 = word_of_int (mru go)) (\<lambda>o1. o1\<lparr>neg_mru := False\<rparr>),
          REJCI (CI_ASYNCMAP h) CILEN_LONG (neg_asyncmap go)
            (\<lambda>p. rdlong h p 2 = asyncmap go) (\<lambda>o1. o1\<lparr>neg_asyncmap := False\<rparr>),
          REJCI (CI_AUTHTYPE h) CILEN_CHAP (neg_chap go)
            (\<lambda>p. rdshort h p 2 = CHAP h \<and> rd p 4 = chap_mdtype go) (\<lambda>o1. o1\<lparr>neg_chap := False\<rparr>),
          REJCI (CI_AUTHTYPE h) CILEN_SHORT (\<not> neg_chap go \<and> neg_upap go)
            (\<lambda>p. rdshort h p 2 = UPAP h) (\<lambda>o1. o1\<lparr>neg_upap := False\<rparr>),
          REJCI (CI_QUALITY h) CILEN_LQR (neg_lqr go)
            (\<lambda>p. rdshort h p 2 = LQR h \<and> rdlong h p 4 = lqr_period go) (\<lambda>o1. o1\<lparr>neg_lqr := False\<rparr>),
          REJCI (CI_MAGICNUMBER h) CILEN_LONG (neg_magicnumber go)
            (\<lambda>p. rdlong h p 2 = magicnumber go) (\<lambda>o1. o1\<lparr>neg_magicnumber := False\<rparr>),
          REJCI (CI_PCOMPRESSION h) CILEN_VOID (neg_pcompression go)
            (\<lambda>_. True) (\<lambda>o1. o1\<lparr>neg_pcompression := False\<rparr>),
          REJCI (CI_ACCOMPRESSION h) CILEN_VOID (neg_accompression go)
            (\<lambda>_. True) (\<lambda>o1. o1\<lparr>neg_accompression := False\<rparr>)] ((p, len), go) of
        None \<Rightarrow> None
      | Some ((_, rest), try) \<Rightarrow> if rest \<noteq> 0 then None else Some try)"

definition lcp_rejci :: "hdr \<Rightarrow> bytes \<Rightarrow> int \<Rightarrow> (ppp, bool) act" where
  "lcp_rejci h p len s =
     (case lcp_rejci_try h (lcp_gotoptions s) p len of
        None \<Rightarrow> Ret False s
      | Some try \<Rightarrow> Ret True (if fstate (lcp_fsm s) \<noteq> OPENED then s\<lparr>lcp_gotoptions := try\<rparr> else s))"

section \<open>The peer naks some of it\<close>

record lcp_nak =
  np :: bytes
  nlen :: int
  nno :: lcp_options
  ntry :: lcp_options
  ngen :: mgen

definition NAKCI :: "u8 \<Rightarrow> int \<Rightarrow> bool \<Rightarrow> (bytes \<Rightarrow> lcp_nak \<Rightarrow> lcp_nak) \<Rightarrow> lcp_nak \<Rightarrow> lcp_nak" where
  "NAKCI opt cl neg code n =
     (if neg \<and> nlen n \<ge> cl \<and> uint (rd (np n) 1) = cl \<and> rd (np n) 0 = opt
      then code (np n) (n\<lparr>np := drop (nat cl) (np n), nlen := nlen n - cl\<rparr>)
      else n)"

definition nak_first :: "hdr \<Rightarrow> (nat \<Rightarrow> u32) \<Rightarrow> lcp_options \<Rightarrow> lcp_options \<Rightarrow> lcp_nak \<Rightarrow> lcp_nak" where
  "nak_first h r wo go n0 =
     (let n1 = NAKCI (CI_MRU h) CILEN_SHORT (neg_mru go) (\<lambda>p n.
            let cishort = uint (rdshort h p 2) in
            n\<lparr>nno := (nno n)\<lparr>neg_mru := True\<rparr>,
              ntry := (if cishort \<le> mru wo \<or> cishort < DEFMRU h then (ntry n)\<lparr>mru := cishort\<rparr> else ntry n)\<rparr>) n0;
          n2 = NAKCI (CI_ASYNCMAP h) CILEN_LONG (neg_asyncmap go) (\<lambda>p n.
            n\<lparr>nno := (nno n)\<lparr>neg_asyncmap := True\<rparr>,
              ntry := (ntry n)\<lparr>asyncmap := asyncmap go OR rdlong h p 2\<rparr>\<rparr>) n1;
          n3 = NAKCI (CI_AUTHTYPE h) CILEN_CHAP (neg_chap go) (\<lambda>p n.
            n\<lparr>nno := (nno n)\<lparr>neg_chap := True\<rparr>, ntry := (ntry n)\<lparr>neg_chap := False\<rparr>\<rparr>) n2;
          n4 = NAKCI (CI_AUTHTYPE h) CILEN_SHORT (\<not> neg_chap go \<and> neg_upap go) (\<lambda>p n.
            n\<lparr>nno := (nno n)\<lparr>neg_upap := True\<rparr>, ntry := (ntry n)\<lparr>neg_upap := False\<rparr>\<rparr>) n3;
          n5 = NAKCI (CI_QUALITY h) CILEN_LQR (neg_lqr go) (\<lambda>p n.
            n\<lparr>nno := (nno n)\<lparr>neg_lqr := True\<rparr>,
              ntry := (if rdshort h p 2 \<noteq> LQR h then (ntry n)\<lparr>neg_lqr := False\<rparr>
                       else (ntry n)\<lparr>lqr_period := rdlong h p 4\<rparr>)\<rparr>) n4;
          n6 = NAKCI (CI_MAGICNUMBER h) CILEN_LONG (neg_magicnumber go) (\<lambda>p n.
            let (m, g) = magic r (ngen n) in
            n\<lparr>nno := (nno n)\<lparr>neg_magicnumber := True\<rparr>,
              ntry := (ntry n)\<lparr>magicnumber := m, numloops := numloops (ntry n) + 1\<rparr>, ngen := g\<rparr>) n5;
          n7 = NAKCI (CI_PCOMPRESSION h) CILEN_VOID (neg_pcompression go) (\<lambda>p n.
            n\<lparr>nno := (nno n)\<lparr>neg_pcompression := True\<rparr>, ntry := (ntry n)\<lparr>neg_pcompression := False\<rparr>\<rparr>) n6
      in NAKCI (CI_ACCOMPRESSION h) CILEN_VOID (neg_accompression go) (\<lambda>p n.
            n\<lparr>nno := (nno n)\<lparr>neg_accompression := True\<rparr>, ntry := (ntry n)\<lparr>neg_accompression := False\<rparr>\<rparr>) n7)"

text \<open>
  The remaining options must be ones we did not ask for: the \<open>switch\<close> in the loop. For an
  authentication type the length is not checked.
\<close>

definition nak_rest_ok :: "hdr \<Rightarrow> lcp_options \<Rightarrow> lcp_options \<Rightarrow> u8 \<Rightarrow> int \<Rightarrow> bool" where
  "nak_rest_ok h go no citype cl =
     (if citype = CI_MRU h then \<not> (neg_mru go \<or> neg_mru no \<or> cl \<noteq> CILEN_SHORT)
      else if citype = CI_ASYNCMAP h then \<not> (neg_asyncmap go \<or> neg_asyncmap no \<or> cl \<noteq> CILEN_LONG)
      else if citype = CI_AUTHTYPE h then
        \<not> (neg_chap go \<or> neg_chap no \<or> neg_upap go \<or> neg_upap no)
      else if citype = CI_MAGICNUMBER h then
        \<not> (neg_magicnumber go \<or> neg_magicnumber no \<or> cl \<noteq> CILEN_LONG)
      else if citype = CI_PCOMPRESSION h then
        \<not> (neg_pcompression go \<or> neg_pcompression no \<or> cl \<noteq> CILEN_VOID)
      else if citype = CI_ACCOMPRESSION h then
        \<not> (neg_accompression go \<or> neg_accompression no \<or> cl \<noteq> CILEN_VOID)
      else if citype = CI_QUALITY h then \<not> (neg_lqr go \<or> neg_lqr no \<or> cl \<noteq> CILEN_LQR)
      else False)"

text \<open>The loop over them: \<open>None\<close> if it never ends, else whether the packet is good.\<close>

partial_function (option) nak_rest ::
    "hdr \<Rightarrow> lcp_options \<Rightarrow> lcp_options \<Rightarrow> bytes \<Rightarrow> int \<Rightarrow> bool option" where
  "nak_rest h go no p len =
     (if len > CILEN_VOID
      then if len - uint (rd p 1) < 0 then Some False
           else if nak_rest_ok h go no (rd p 0) (uint (rd p 1))
           then nak_rest h go no (drop (unat (rd p 1)) p) (len - uint (rd p 1))
           else Some False
      else Some (len = 0))"

definition lcp_nakci :: "hdr \<Rightarrow> (nat \<Rightarrow> u32) \<Rightarrow> bytes \<Rightarrow> int \<Rightarrow> (ppp, bool) act" where
  "lcp_nakci h r p len s =
     (let go = lcp_gotoptions s;
          n = nak_first h r (lcp_wantoptions s) go
                \<lparr>np = p, nlen = len, nno = lcp_zero, ntry = go, ngen = mgen_of s\<rparr>;
          s1 = set_mgen (ngen n) s
      in case nak_rest h go (nno n) (np n) (nlen n) of
           None \<Rightarrow> Stuck
         | Some False \<Rightarrow> Ret False s1
         | Some True \<Rightarrow> Ret True (if fstate (lcp_fsm s1) \<noteq> OPENED then s1\<lparr>lcp_gotoptions := ntry n\<rparr> else s1))"

section \<open>The peer's request\<close>

text \<open>
  The \<open>switch\<close> of \<open>lcp_reqci\<close> on one option whose length is plausible: \<open>v_orc\<close> is the verdict,
  \<open>v_hint\<close> what is written over the value of the option in the packet, \<open>v_nak\<close> what is
  appended to the buffer of the Nak. \<open>p\<close> points to the type octet of the option.
\<close>

record lcp_verdict =
  v_orc :: ccode
  v_hint :: bytes
  v_nak :: bytes
  v_ho :: lcp_options
  v_gen :: mgen

abbreviation (input) verdict :: "ccode \<Rightarrow> lcp_options \<Rightarrow> mgen \<Rightarrow> lcp_verdict" where
  "verdict c ho g \<equiv> \<lparr>v_orc = c, v_hint = [], v_nak = [], v_ho = ho, v_gen = g\<rparr>"

definition nak_chap :: "hdr \<Rightarrow> lcp_options \<Rightarrow> bytes" where
  "nak_chap h ao = [CI_AUTHTYPE h, 5] @ putshort h (CHAP h) @ [chap_mdtype ao]"

definition nak_upap :: "hdr \<Rightarrow> bytes" where
  "nak_upap h = [CI_AUTHTYPE h, 4] @ putshort h (UPAP h)"

text \<open>The case of an authentication type.\<close>

definition reqci_authtype :: "hdr \<Rightarrow> lcp_options \<Rightarrow> lcp_options \<Rightarrow> mgen \<Rightarrow> bytes \<Rightarrow> u8 \<Rightarrow> lcp_verdict" where
  "reqci_authtype h ao ho g p cl =
     (let cishort = rdshort h p 2 in
      if uint cl < CILEN_SHORT \<or> \<not> (neg_upap ao \<or> neg_chap ao) then verdict ConfRej ho g
      else if cishort = UPAP h then
        (if neg_chap ho \<or> uint cl \<noteq> CILEN_SHORT then verdict ConfRej ho g
         else if \<not> neg_upap ao then (verdict ConfNak ho g)\<lparr>v_nak := nak_chap h ao\<rparr>
         else verdict ConfAck (ho\<lparr>neg_upap := True\<rparr>) g)
      else if cishort = CHAP h then
        (if neg_upap ho \<or> uint cl \<noteq> CILEN_CHAP then verdict ConfRej ho g
         else if \<not> neg_chap ao then (verdict ConfNak ho g)\<lparr>v_nak := nak_upap h\<rparr>
         else if rd p 4 \<noteq> chap_mdtype ao then (verdict ConfNak ho g)\<lparr>v_nak := nak_chap h ao\<rparr>
         else verdict ConfAck (ho\<lparr>chap_mdtype := rd p 4, neg_chap := True\<rparr>) g)
      else (verdict ConfNak ho g)\<lparr>v_nak := if neg_chap ao then nak_chap h ao else nak_upap h\<rparr>)"

definition reqci_switch :: "hdr \<Rightarrow> (nat \<Rightarrow> u32) \<Rightarrow> lcp_options \<Rightarrow> lcp_options \<Rightarrow> bool \<Rightarrow>
    lcp_options \<Rightarrow> mgen \<Rightarrow> bytes \<Rightarrow> u8 \<Rightarrow> u8 \<Rightarrow> lcp_verdict" where
  "reqci_switch h r ao go rid ho g p citype cl =
     (if citype = CI_MRU h then
        (if \<not> neg_mru ao \<or> uint cl \<noteq> CILEN_SHORT then verdict ConfRej ho g
         else let cishort = uint (rdshort h p 2) in
           if cishort < MINMRU h then (verdict ConfNak ho g)
             \<lparr>v_hint := if \<not> rid then putshort h (word_of_int (MINMRU h)) else []\<rparr>
           else verdict ConfAck (ho\<lparr>neg_mru := True, mru := cishort\<rparr>) g)
      else if citype = CI_ASYNCMAP h then
        (if \<not> neg_asyncmap ao \<or> uint cl \<noteq> CILEN_LONG then verdict ConfRej ho g
         else let cilong = rdlong h p 2 in
           if asyncmap ao AND NOT cilong \<noteq> 0 then (verdict ConfNak ho g)
             \<lparr>v_hint := if \<not> rid then putlong h (asyncmap ao OR cilong) else []\<rparr>
           else verdict ConfAck (ho\<lparr>neg_asyncmap := True, asyncmap := cilong\<rparr>) g)
      else if citype = CI_AUTHTYPE h then reqci_authtype h ao ho g p cl
      else if citype = CI_QUALITY h then
        (if \<not> neg_lqr ao \<or> uint cl \<noteq> CILEN_LQR then verdict ConfRej ho g
         else if rdshort h p 2 \<noteq> LQR h then (verdict ConfNak ho g)
           \<lparr>v_nak := [CI_QUALITY h, 8] @ putshort h (LQR h) @ putlong h (lqr_period ao)\<rparr>
         else verdict ConfAck ho g)
      else if citype = CI_MAGICNUMBER h then
        (if \<not> (neg_magicnumber ao \<or> neg_magicnumber go) \<or> uint cl \<noteq> CILEN_LONG
         then verdict ConfRej ho g
         else let cilong = rdlong h p 2 in
           if neg_magicnumber go \<and> cilong = magicnumber go then
             (let (m, g1) = magic r g in
              (verdict ConfNak ho g1)\<lparr>v_nak := [CI_MAGICNUMBER h, 6] @ putlong h m\<rparr>)
           else verdict ConfAck (ho\<lparr>neg_magicnumber := True, magicnumber := cilong\<rparr>) g)
      else if citype = CI_PCOMPRESSION h then
        (if \<not> neg_pcompression ao \<or> uint cl \<noteq> CILEN_VOID then verdict ConfRej ho g
         else verdict ConfAck (ho\<lparr>neg_pcompression := True\<rparr>) g)
      else if citype = CI_ACCOMPRESSION h then
        (if \<not> neg_accompression ao \<or> uint cl \<noteq> CILEN_VOID then verdict ConfRej ho g
         else verdict ConfAck (ho\<lparr>neg_accompression := True\<rparr>) g)
      else verdict ConfRej ho g)"

text \<open>
  The variables of the loop; \<open>next\<close> and \<open>rejp\<close> are offsets into the packet. The reject of an
  option moves it to \<open>rejp\<close>. \<open>cilen\<close> is an octet, also where the rest of a packet with a bad
  option length is rejected.
\<close>

record lcp_req =
  q_buf :: bytes
  q_l :: int
  q_next :: nat
  q_rejp :: nat
  q_nak :: bytes
  q_ho :: lcp_options
  q_rc :: ccode
  q_gen :: mgen

text \<open>From \<open>endswitch\<close> to the end of the loop body.\<close>

definition reqci_endswitch :: "hdr \<Rightarrow> bool \<Rightarrow> ccode \<Rightarrow> u8 \<Rightarrow> nat \<Rightarrow> u8 \<Rightarrow> lcp_req \<Rightarrow> lcp_req" where
  "reqci_endswitch h rid orc citype cip cl q =
     (let reject = (\<lambda>q. q\<lparr>q_rc := ConfRej,
             q_buf := (if cip \<noteq> q_rejp q then bcopy_in cip (q_rejp q) (unat cl) (q_buf q) else q_buf q),
             q_rejp := q_rejp q + unat cl\<rparr>)
      in case orc of
           ConfAck \<Rightarrow> q
         | ConfNak \<Rightarrow>
             if rid \<and> citype \<noteq> CI_MAGICNUMBER h then reject q
             else if q_rc q = ConfRej then q
             else q\<lparr>q_rc := ConfNak\<rparr>
         | ConfRej \<Rightarrow> reject q)"

definition reqci_body :: "hdr \<Rightarrow> (nat \<Rightarrow> u32) \<Rightarrow> lcp_options \<Rightarrow> lcp_options \<Rightarrow> bool \<Rightarrow> lcp_req \<Rightarrow> lcp_req" where
  "reqci_body h r ao go rid q =
     (let cip = q_next q; p = drop cip (q_buf q) in
      if bad_ci p (q_l q)
      then reqci_endswitch h rid ConfRej 0 cip (word_of_int (q_l q)) (q\<lparr>q_l := 0\<rparr>)
      else let citype = rd p 0; cl = rd p 1;
               v = reqci_switch h r ao go rid (q_ho q) (q_gen q) p citype cl
           in reqci_endswitch h rid (v_orc v) citype cip cl
                (q\<lparr>q_l := q_l q - uint cl, q_next := cip + unat cl,
                   q_buf := put_at (cip + 2) (v_hint v) (q_buf q), q_nak := q_nak q @ v_nak v,
                   q_ho := v_ho v, q_gen := v_gen v\<rparr>))"

lemma endswitch_l [simp]: "q_l (reqci_endswitch h rid orc ct cip cl q) = q_l q"
  by (simp add: reqci_endswitch_def Let_def split: ccode.split)

lemma reqci_body_l:
  "q_l (reqci_body h r ao go rid q) =
     (if bad_ci (drop (q_next q) (q_buf q)) (q_l q) then 0
      else q_l q - uint (rd (drop (q_next q) (q_buf q)) 1))"
  by (simp add: reqci_body_def Let_def)

function reqci_loop :: "hdr \<Rightarrow> (nat \<Rightarrow> u32) \<Rightarrow> lcp_options \<Rightarrow> lcp_options \<Rightarrow> bool \<Rightarrow> lcp_req \<Rightarrow> lcp_req" where
  "reqci_loop h r ao go rid q =
     (if q_l q = 0 then q else reqci_loop h r ao go rid (reqci_body h r ao go rid q))"
  by pat_completeness auto
termination
  by (relation "measure (\<lambda>(_, _, _, _, _, q). nat \<bar>q_l q\<bar>)")
    (auto simp: reqci_body_l bad_ci_def)

declare reqci_loop.simps [simp del]

definition lcp_reqci :: "hdr \<Rightarrow> (nat \<Rightarrow> u32) \<Rightarrow> bytes \<Rightarrow> int \<Rightarrow> bool \<Rightarrow> (ppp, ccode \<times> bytes \<times> int) act" where
  "lcp_reqci h r inp len rid s =
     (let q = reqci_loop h r (lcp_allowoptions s) (lcp_gotoptions s) rid
                \<lparr>q_buf = inp, q_l = len, q_next = 0, q_rejp = 0, q_nak = [], q_ho = lcp_zero,
                 q_rc = ConfAck, q_gen = mgen_of s\<rparr>;
          s1 = set_mgen (q_gen q) (s\<lparr>lcp_hisoptions := q_ho q\<rparr>)
      in Ret (case q_rc q of
           ConfAck \<Rightarrow> (ConfAck, q_buf q, int (q_next q))
         | ConfNak \<Rightarrow> (ConfNak, put_at 0 (q_nak q) (q_buf q), int (length (q_nak q)))
         | ConfRej \<Rightarrow> (ConfRej, q_buf q, int (q_rejp q))) s1)"

end
