(* ===== verification/Lcp_Options_Spec.thy ===== *)
theory Lcp_Options_Spec
  imports Lcp_Options
begin

text \<open>
  The option callbacks of \<open>lcp.c\<close> against their specification. A Configure-Request is the
  concatenation of encoded options: \<open>lcp_addci\<close> writes as many bytes as \<open>lcp_cilen\<close>
  announces, \<open>lcp_ackci\<close> accepts exactly those bytes, \<open>lcp_rejci\<close> exactly the
  subsequences of them, and \<open>lcp_reqci\<close> answers a request as the fold of its verdicts on the
  single options (\<open>reqci_spec\<close>).
\<close>

lemma consumes_ACKCIVOID: "consumes (ADDCIVOID opt neg) (ACKCIVOID opt neg)"
  using consumes_ACKCI [of "[]" 2 "\<lambda>_. True" neg opt]
  by (cases neg) (simp_all add: ACKCIVOID_def ADDCIVOID_def)

lemma consumes_ACKCISHORT:
  "codec_ok h \<Longrightarrow> consumes (ADDCISHORT h opt neg val) (ACKCISHORT h opt neg val)"
  unfolding ACKCISHORT_def ADDCISHORT_def
  by (intro consumes_ACKCI) (simp_all add: rd2_iff)

lemma consumes_ACKCILONG:
  "codec_ok h \<Longrightarrow> consumes (ADDCILONG h opt neg val) (ACKCILONG h opt neg val)"
  unfolding ACKCILONG_def ADDCILONG_def
  by (intro consumes_ACKCI) (simp_all add: rd2_iff)

lemma chap_value:
  assumes "codec_ok h" and "5 \<le> length p"
  shows "getshort h (rd p 2) (rd p 3) = v \<and> rd p 4 = d \<longleftrightarrow> take 3 (drop 2 p) = putshort h v @ [d]"
proof -
  have "take 3 (drop 2 p) = take 2 (drop 2 p) @ [rd p 4]"
    using assms(2) take_add [of 2 1 "drop 2 p"] by (simp add: take_Suc_conv_app_nth rd_def)
  with assms show ?thesis by (auto simp: rd2_iff)
qed

lemma lqr_value:
  assumes "codec_ok h" and "8 \<le> length p"
  shows "getshort h (rd p 2) (rd p 3) = v \<and> getlong h (rd p 4) (rd p 5) (rd p 6) (rd p 7) = w \<longleftrightarrow>
    take 6 (drop 2 p) = putshort h v @ putlong h w"
  using assms take_eq_append_iff [of "putshort h v" "drop 2 p" "putlong h w"] by (simp add: rd2_iff)

lemma consumes_ACKCICHAP:
  "codec_ok h \<Longrightarrow> consumes (ADDCICHAP h opt neg val digest) (ACKCICHAP h opt neg val digest)"
  unfolding ACKCICHAP_def ADDCICHAP_def by (intro consumes_ACKCI) (simp_all add: chap_value)

lemma consumes_ACKCILQR:
  "codec_ok h \<Longrightarrow> consumes (ADDCILQR h opt neg val) (ACKCILQR h opt neg val)"
  unfolding ACKCILQR_def ADDCILQR_def by (intro consumes_ACKCI) (simp_all add: lqr_value)

section \<open>Our request and its acknowledgement\<close>

lemma length_lcp_addci: "codec_ok h \<Longrightarrow> int (length (lcp_addci h go)) = lcp_cilen go"
  by (simp add: lcp_addci_def lcp_cilen_def ADDCIVOID_def ADDCISHORT_def ADDCILONG_def
      ADDCICHAP_def ADDCILQR_def)

lemma lcp_ackci_iff:
  assumes "codec_ok h" and "0 \<le> len" and "len \<le> int (length p)"
  shows "lcp_ackci h go p len \<longleftrightarrow> take (nat len) p = lcp_addci h go \<and> len = lcp_cilen go"
proof -
  have "consumes (lcp_addci h go) (seq_opt
         [ACKCISHORT h (CI_MRU h) (neg_mru go) (word_of_int (mru go)),
          ACKCILONG h (CI_ASYNCMAP h) (neg_asyncmap go) (asyncmap go),
          ACKCICHAP h (CI_AUTHTYPE h) (neg_chap go) (CHAP h) (chap_mdtype go),
          ACKCISHORT h (CI_AUTHTYPE h) (\<not> neg_chap go \<and> neg_upap go) (UPAP h),
          ACKCILQR h (CI_QUALITY h) (neg_lqr go) (lqr_period go),
          ACKCILONG h (CI_MAGICNUMBER h) (neg_magicnumber go) (magicnumber go),
          ACKCIVOID (CI_PCOMPRESSION h) (neg_pcompression go),
          ACKCIVOID (CI_ACCOMPRESSION h) (neg_accompression go)])"
    unfolding lcp_addci_def
    by (intro consumes_seq list.rel_intros consumes_ACKCIVOID consumes_ACKCISHORT
        consumes_ACKCILONG consumes_ACKCICHAP consumes_ACKCILQR assms(1))
  from consumes_all [OF this assms(2,3)] show ?thesis
    by (simp add: lcp_ackci_def length_lcp_addci [OF assms(1)])
qed

section \<open>Rejected options\<close>

text \<open>The options of an LCP request, and the request that contains only some of them.\<close>

definition lcp_rej_items :: "hdr \<Rightarrow> lcp_options \<Rightarrow> lcp_options rej_item list" where
  "lcp_rej_items h go =
     [(ADDCISHORT h (CI_MRU h) True (word_of_int (mru go)), neg_mru go, \<lambda>o1. o1\<lparr>neg_mru := False\<rparr>),
      (ADDCILONG h (CI_ASYNCMAP h) True (asyncmap go), neg_asyncmap go, \<lambda>o1. o1\<lparr>neg_asyncmap := False\<rparr>),
      (ADDCICHAP h (CI_AUTHTYPE h) True (CHAP h) (chap_mdtype go), neg_chap go, \<lambda>o1. o1\<lparr>neg_chap := False\<rparr>),
      (ADDCISHORT h (CI_AUTHTYPE h) True (UPAP h), \<not> neg_chap go \<and> neg_upap go, \<lambda>o1. o1\<lparr>neg_upap := False\<rparr>),
      (ADDCILQR h (CI_QUALITY h) True (lqr_period go), neg_lqr go, \<lambda>o1. o1\<lparr>neg_lqr := False\<rparr>),
      (ADDCILONG h (CI_MAGICNUMBER h) True (magicnumber go), neg_magicnumber go,
        \<lambda>o1. o1\<lparr>neg_magicnumber := False\<rparr>),
      (ADDCIVOID (CI_PCOMPRESSION h) True, neg_pcompression go, \<lambda>o1. o1\<lparr>neg_pcompression := False\<rparr>),
      (ADDCIVOID (CI_ACCOMPRESSION h) True, neg_accompression go, \<lambda>o1. o1\<lparr>neg_accompression := False\<rparr>)]"

text \<open>
  \<open>m\<close> asks for some of the options of \<open>go\<close>, with the same values; without the options of \<open>m\<close>
  there is less to ask for. (If CHAP is requested, PAP is not part of the request.)
\<close>

definition lcp_sub :: "lcp_options \<Rightarrow> lcp_options \<Rightarrow> bool" where
  "lcp_sub m go \<longleftrightarrow>
     (neg_mru m \<longrightarrow> neg_mru go) \<and> (neg_asyncmap m \<longrightarrow> neg_asyncmap go) \<and> (neg_chap m \<longrightarrow> neg_chap go) \<and>
     (neg_upap m \<longrightarrow> \<not> neg_chap go \<and> neg_upap go) \<and> (neg_lqr m \<longrightarrow> neg_lqr go) \<and>
     (neg_magicnumber m \<longrightarrow> neg_magicnumber go) \<and> (neg_pcompression m \<longrightarrow> neg_pcompression go) \<and>
     (neg_accompression m \<longrightarrow> neg_accompression go) \<and>
     m = go\<lparr>neg_mru := neg_mru m, neg_asyncmap := neg_asyncmap m, neg_chap := neg_chap m,
       neg_upap := neg_upap m, neg_lqr := neg_lqr m, neg_magicnumber := neg_magicnumber m,
       neg_pcompression := neg_pcompression m, neg_accompression := neg_accompression m\<rparr>"

definition lcp_without :: "lcp_options \<Rightarrow> lcp_options \<Rightarrow> lcp_options" where
  "lcp_without go m = go\<lparr>neg_mru := neg_mru go \<and> \<not> neg_mru m,
     neg_asyncmap := neg_asyncmap go \<and> \<not> neg_asyncmap m, neg_chap := neg_chap go \<and> \<not> neg_chap m,
     neg_upap := neg_upap go \<and> \<not> neg_upap m, neg_lqr := neg_lqr go \<and> \<not> neg_lqr m,
     neg_magicnumber := neg_magicnumber go \<and> \<not> neg_magicnumber m,
     neg_pcompression := neg_pcompression go \<and> \<not> neg_pcompression m,
     neg_accompression := neg_accompression go \<and> \<not> neg_accompression m\<rparr>"

lemma ADDCI_head:
  "hd (ADDCIVOID opt True) = opt" "hd (ADDCISHORT h opt True v) = opt" "hd (ADDCILONG h opt True w) = opt"
  "hd (ADDCICHAP h opt True v d) = opt" "hd (ADDCILQR h opt True w) = opt"
  by (simp_all add: ADDCIVOID_def ADDCISHORT_def ADDCILONG_def ADDCICHAP_def ADDCILQR_def)

text \<open>The \<open>REJCI\<close> macros on the encodings.\<close>

lemma rejects_void:
  "rejects (ADDCIVOID opt True, neg, clear) (REJCI opt CILEN_VOID neg (\<lambda>_. True) clear)"
  using rejects_REJCI [of "[]" CILEN_VOID "\<lambda>_. True" opt neg clear] by (simp add: ADDCIVOID_def)

lemma rejects_value:
  assumes "codec_ok h"
  shows "rejects (ADDCISHORT h opt True v, neg, clear)
     (REJCI opt CILEN_SHORT neg (\<lambda>p. rdshort h p 2 = v) clear)"
  "rejects (ADDCILONG h opt True w, neg, clear)
     (REJCI opt CILEN_LONG neg (\<lambda>p. rdlong h p 2 = w) clear)"
  using assms rejects_REJCI [of "putshort h v" CILEN_SHORT "\<lambda>p. rdshort h p 2 = v" opt neg clear]
    rejects_REJCI [of "putlong h w" CILEN_LONG "\<lambda>p. rdlong h p 2 = w" opt neg clear]
  by (simp_all add: ADDCISHORT_def ADDCILONG_def rd2_iff)

lemma rejects_values:
  assumes "codec_ok h"
  shows "rejects (ADDCICHAP h opt True v d, neg, clear)
     (REJCI opt CILEN_CHAP neg (\<lambda>p. rdshort h p 2 = v \<and> rd p 4 = d) clear)"
  "rejects (ADDCILQR h opt True w, neg, clear)
     (REJCI opt CILEN_LQR neg (\<lambda>p. rdshort h p 2 = LQR h \<and> rdlong h p 4 = w) clear)"
  using assms
    rejects_REJCI [of "putshort h v @ [d]" CILEN_CHAP "\<lambda>p. rdshort h p 2 = v \<and> rd p 4 = d" opt neg clear]
    rejects_REJCI [of "putshort h (LQR h) @ putlong h w" CILEN_LQR
      "\<lambda>p. rdshort h p 2 = LQR h \<and> rdlong h p 4 = w" opt neg clear]
  by (simp_all add: ADDCICHAP_def ADDCILQR_def chap_value lqr_value)

lemma ADDCI_if:
  "(if b then ADDCIVOID opt True else []) = ADDCIVOID opt b"
  "(if b then ADDCISHORT h opt True v else []) = ADDCISHORT h opt b v"
  "(if b then ADDCILONG h opt True w else []) = ADDCILONG h opt b w"
  "(if b then ADDCICHAP h opt True v d else []) = ADDCICHAP h opt b v d"
  "(if b then ADDCILQR h opt True w else []) = ADDCILQR h opt b w"
  by (simp_all add: ADDCIVOID_def ADDCISHORT_def ADDCILONG_def ADDCICHAP_def ADDCILQR_def)

lemma clear_if:
  "(if b then o1\<lparr>neg_mru := False\<rparr> else o1) = o1\<lparr>neg_mru := neg_mru o1 \<and> \<not> b\<rparr>"
  "(if b then o1\<lparr>neg_asyncmap := False\<rparr> else o1) = o1\<lparr>neg_asyncmap := neg_asyncmap o1 \<and> \<not> b\<rparr>"
  "(if b then o1\<lparr>neg_chap := False\<rparr> else o1) = o1\<lparr>neg_chap := neg_chap o1 \<and> \<not> b\<rparr>"
  "(if b then o1\<lparr>neg_upap := False\<rparr> else o1) = o1\<lparr>neg_upap := neg_upap o1 \<and> \<not> b\<rparr>"
  "(if b then o1\<lparr>neg_lqr := False\<rparr> else o1) = o1\<lparr>neg_lqr := neg_lqr o1 \<and> \<not> b\<rparr>"
  "(if b then o1\<lparr>neg_magicnumber := False\<rparr> else o1) = o1\<lparr>neg_magicnumber := neg_magicnumber o1 \<and> \<not> b\<rparr>"
  "(if b then o1\<lparr>neg_pcompression := False\<rparr> else o1) = o1\<lparr>neg_pcompression := neg_pcompression o1 \<and> \<not> b\<rparr>"
  "(if b then o1\<lparr>neg_accompression := False\<rparr> else o1) = o1\<lparr>neg_accompression := neg_accompression o1 \<and> \<not> b\<rparr>"
  by simp_all

definition lcp_flags :: "lcp_options \<Rightarrow> bool list" where
  "lcp_flags m = [neg_mru m, neg_asyncmap m, neg_chap m, neg_upap m, neg_lqr m, neg_magicnumber m,
     neg_pcompression m, neg_accompression m]"

lemma lcp_sub_items:
  "lcp_sub m go \<Longrightarrow> list_all2 (\<lambda>x b. b \<longrightarrow> fst (snd x)) (lcp_rej_items h go) (lcp_flags m)"
  by (simp add: lcp_sub_def lcp_rej_items_def lcp_flags_def)

lemma lcp_items_sub:
  assumes "list_all2 (\<lambda>x b. b \<longrightarrow> fst (snd x)) (lcp_rej_items h go) bs"
  obtains m where "lcp_sub m go" "bs = lcp_flags m"
proof -
  have "length bs = 8" using list_all2_lengthD [OF assms] by (simp add: lcp_rej_items_def)
  then obtain a b c d e f g k where bs: "bs = [a, b, c, d, e, f, g, k]"
    by (auto simp: eval_nat_numeral length_Suc_conv)
  show thesis
    using assms
    by (intro that [of "go\<lparr>neg_mru := a, neg_asyncmap := b, neg_chap := c, neg_upap := d,
        neg_lqr := e, neg_magicnumber := f, neg_pcompression := g, neg_accompression := k\<rparr>"])
      (simp_all add: lcp_sub_def lcp_rej_items_def lcp_flags_def bs)
qed

lemma lcp_pick:
  assumes "lcp_sub m go"
  shows "rej_pick (lcp_rej_items h go) (lcp_flags m) = lcp_addci h m"
    "rej_clear (lcp_rej_items h go) (lcp_flags m) go = lcp_without go m"
proof -
  note m = assms [unfolded lcp_sub_def, THEN conjunct2, THEN conjunct2, THEN conjunct2, THEN conjunct2,
    THEN conjunct2, THEN conjunct2, THEN conjunct2, THEN conjunct2]
  have "mru m = mru go" "asyncmap m = asyncmap go" "chap_mdtype m = chap_mdtype go"
      "lqr_period m = lqr_period go" "magicnumber m = magicnumber go"
    using arg_cong [OF m, of mru] arg_cong [OF m, of asyncmap] arg_cong [OF m, of chap_mdtype]
      arg_cong [OF m, of lqr_period] arg_cong [OF m, of magicnumber] by simp_all
  moreover have "(\<not> neg_chap m \<and> neg_upap m) = neg_upap m"
    using assms unfolding lcp_sub_def by blast
  ultimately show "rej_pick (lcp_rej_items h go) (lcp_flags m) = lcp_addci h m"
    by (simp add: lcp_rej_items_def lcp_flags_def lcp_addci_def ADDCI_if)
  show "rej_clear (lcp_rej_items h go) (lcp_flags m) go = lcp_without go m"
    unfolding lcp_rej_items_def lcp_flags_def rej_clear.simps clear_if lcp_without_def by simp
qed

lemma lcp_rej_ok_iff:
  "rej_ok (lcp_rej_items h go) w go t' \<longleftrightarrow>
     (\<exists>m. lcp_sub m go \<and> w = lcp_addci h m \<and> t' = lcp_without go m)"
  unfolding rej_ok_pick
proof
  assume "\<exists>bs. list_all2 (\<lambda>x b. b \<longrightarrow> fst (snd x)) (lcp_rej_items h go) bs \<and>
    w = rej_pick (lcp_rej_items h go) bs \<and> t' = rej_clear (lcp_rej_items h go) bs go"
  then show "\<exists>m. lcp_sub m go \<and> w = lcp_addci h m \<and> t' = lcp_without go m"
    by (metis lcp_items_sub lcp_pick)
next
  assume "\<exists>m. lcp_sub m go \<and> w = lcp_addci h m \<and> t' = lcp_without go m"
  then show "\<exists>bs. list_all2 (\<lambda>x b. b \<longrightarrow> fst (snd x)) (lcp_rej_items h go) bs \<and>
    w = rej_pick (lcp_rej_items h go) bs \<and> t' = rej_clear (lcp_rej_items h go) bs go"
    by (metis lcp_sub_items lcp_pick)
qed

lemma lcp_rejci_try_iff:
  assumes "codec_ok h" and "types_ok h" and "0 \<le> len" and "len \<le> int (length p)"
  shows "lcp_rejci_try h go p len = Some t' \<longleftrightarrow>
    (\<exists>m. lcp_sub m go \<and> take (nat len) p = lcp_addci h m \<and> t' = lcp_without go m)"
proof -
  let ?fs = "[REJCI (CI_MRU h) CILEN_SHORT (neg_mru go)
            (\<lambda>p. rdshort h p 2 = word_of_int (mru go)) (\<lambda>o1. o1\<lparr>neg_mru := False\<rparr>),
          REJCI (CI_ASYNCMAP h) CILEN_LONG (neg_asyncmap go)
            (\<lambda>p. rdlong h p 2 = asyncmap go) (\<lambda>o1. o1\<lparr>neg_asyncmap := False\<rparr>),
          REJCI (CI_AUTHTYPE h) CILEN_CHAP (neg_chap go)
            (\<lambda>p. rdshort h p 2 = CHAP h \<and> rd p 4 = chap_mdtype go) (\<lambda>o1. o1\<lparr>neg_chap := False\<rparr>),
          REJCI (CI_AUTHTYPE h) CILEN_SHORT (\<not> neg_chap go \<and> neg_upap go)
            (\<lambda>p. rdshort h p 2 = UPAP h) (\<lambda>o1. o1\<lparr>neg_upap := False\<rparr>),
          REJCI (CI_QUALITY h) CILEN_LQR (neg_lqr go)
            (\<lambda>p. rdshort h p 2 = LQR h \<and> rdlong h p 4 = lqr_period go) (\<lambda>o1. o1\<lparr>neg_lqr := False\<rparr>),
          REJCI (CI_MAGICNUMBER h) CILEN_LONG (neg_magicnumber go)
            (\<lambda>p. rdlong h p 2 = magicnumber go) (\<lambda>o1. o1\<lparr>neg_magicnumber := False\<rparr>),
          REJCI (CI_PCOMPRESSION h) CILEN_VOID (neg_pcompression go)
            (\<lambda>_. True) (\<lambda>o1. o1\<lparr>neg_pcompression := False\<rparr>),
          REJCI (CI_ACCOMPRESSION h) CILEN_VOID (neg_accompression go)
            (\<lambda>_. True) (\<lambda>o1. o1\<lparr>neg_accompression := False\<rparr>)]"
  have "list_all2 rejects (lcp_rej_items h go) ?fs"
    unfolding lcp_rej_items_def by (intro list.rel_intros rejects_void rejects_value rejects_values assms(1))
  moreover have "sorted_wrt (\<lambda>x y. fst (snd x) \<longrightarrow> fst (snd y) \<longrightarrow> hd (fst x) \<noteq> hd (fst y))
      (lcp_rej_items h go)"
    using assms(2) by (auto simp: lcp_rej_items_def types_ok_def ADDCI_head)
  ultimately have "(\<exists>p'. seq_opt ?fs ((p, len), go) = Some ((p', 0), t')) \<longleftrightarrow>
      (\<exists>m. lcp_sub m go \<and> take (nat len) p = lcp_addci h m \<and> t' = lcp_without go m)"
    unfolding lcp_rej_ok_iff [symmetric] by (rule rej_seq_iff) (fact assms)+
  moreover have "lcp_rejci_try h go p len = Some t' \<longleftrightarrow> (\<exists>p'. seq_opt ?fs ((p, len), go) = Some ((p', 0), t'))"
    unfolding lcp_rejci_try_def by (auto split: option.split)
  ultimately show ?thesis by simp
qed

section \<open>Naked options\<close>

text \<open>
  The loop over the options we did not ask for ends unless it comes to an authentication
  type of length 0, which is only accepted when we ask for no authentication.
\<close>

lemma nak_rest_ok_cl:
  "nak_rest_ok h go no ct cl \<Longrightarrow> ct = CI_AUTHTYPE h \<and> \<not> neg_chap go \<and> \<not> neg_upap go \<or> 0 < cl"
  by (auto simp: nak_rest_ok_def split: if_splits)

lemma nak_rest_ends:
  assumes "neg_chap go \<or> neg_upap go"
  shows "\<exists>b. nak_rest h go no p len = Some b"
proof (induction "nat len" arbitrary: p len rule: less_induct)
  case less
  show ?case
  proof (cases "len > CILEN_VOID \<and> \<not> len - uint (rd p 1) < 0 \<and> nak_rest_ok h go no (rd p 0) (uint (rd p 1))")
    case True
    then have "0 < uint (rd p 1)" using nak_rest_ok_cl [of h go no "rd p 0" "uint (rd p 1)"] assms by auto
    then have "nat (len - uint (rd p 1)) < nat len" using True by linarith
    from less [OF this] True show ?thesis by (subst nak_rest.simps) simp
  next
    case False
    then show ?thesis by (subst nak_rest.simps) auto
  qed
qed

lemma nak_rest_endless:
  assumes "\<not> neg_chap go" "\<not> neg_upap go" "\<not> neg_chap no" "\<not> neg_upap no" "types_ok h" "2 < len"
  shows "nak_rest h go no (CI_AUTHTYPE h # 0 # q) len = None"
proof -
  have ok: "nak_rest_ok h go no (CI_AUTHTYPE h) 0"
    using assms by (auto simp: nak_rest_ok_def types_ok_def)
  let ?P = "\<lambda>h' go' no' p l (b::bool). \<not> (h' = h \<and> go' = go \<and> no' = no \<and> p = CI_AUTHTYPE h # 0 # q \<and> l = len)"
  have "?P h' go' no' p l b" if "nak_rest h' go' no' p l = Some b" for h' go' no' p l b
  proof (rule nak_rest.raw_induct [of ?P, OF _ that])
    fix f h' go' no' p l b
    assume IH: "\<And>h' go' no' p l b. f h' go' no' p l = Some b \<Longrightarrow> ?P h' go' no' p l b"
      and "(if l > CILEN_VOID
        then if l - uint (rd p 1) < 0 then Some False
             else if nak_rest_ok h' go' no' (rd p 0) (uint (rd p 1))
             then f h' go' no' (drop (unat (rd p 1)) p) (l - uint (rd p 1)) else Some False
        else Some (l = 0)) = Some b"
    then show "?P h' go' no' p l b"
      using ok assms(6) IH [of h go no "CI_AUTHTYPE h # 0 # q" len b] by (auto split: if_splits)
  qed
  then show ?thesis by (metis not_None_eq)
qed


section \<open>What the peer may answer\<close>

definition sample_lcp :: lcp_options where
  "sample_lcp = lcp_zero\<lparr>neg_mru := True, mru := 1500, neg_chap := True, chap_mdtype := 5\<rparr>"

lemma sample_lcp_addci: "lcp_addci std_hdr sample_lcp = [1, 4, 5, 220, 3, 5, 0xc2, 0x23, 5]"
  by code_simp

lemma sample_lcp_cilen: "lcp_cilen sample_lcp = 9"
  by code_simp

text \<open>
  C28. A Configure-Ack for LCP is accepted exactly when it repeats the options of our request
  byte for byte.
\<close>

theorem lcp_ackci_exact:
  assumes "codec_ok h" and "0 \<le> len" and "len \<le> int (length p)"
  shows "lcp_ackci h go p len \<longleftrightarrow> take (nat len) p = lcp_addci h go"
  using lcp_ackci_iff [OF assms] length_lcp_addci [OF assms(1), of go] assms(2,3)
  by (metis length_take min.absorb2 nat_le_iff int_nat_eq)

theorem lcp_ackci_exact_witness:
  "lcp_ackci std_hdr sample_lcp [1, 4, 5, 220, 3, 5, 0xc2, 0x23, 5, 0] 9 \<and>
   \<not> lcp_ackci std_hdr sample_lcp [1, 4, 5, 221, 3, 5, 0xc2, 0x23, 5, 0] 9"
  using lcp_ackci_exact [of std_hdr 9 "[1, 4, 5, 220, 3, 5, 0xc2, 0x23, 5, 0]" sample_lcp]
    lcp_ackci_exact [of std_hdr 9 "[1, 4, 5, 221, 3, 5, 0xc2, 0x23, 5, 0]" sample_lcp]
  by (simp add: std_ok sample_lcp_addci)

text \<open>
  C29. A Configure-Reject for LCP is accepted exactly when it consists of options of our
  request, unchanged and in order; then, unless the link is open, precisely these options
  are dropped from the next request, and nothing else of the unit changes.
\<close>

theorem lcp_rejci_exact:
  assumes "codec_ok h" and "types_ok h" and "0 \<le> len" and "len \<le> int (length p)"
  shows "lcp_rejci h p len s = Ret True t \<longleftrightarrow>
    (\<exists>m. lcp_sub m (lcp_gotoptions s) \<and> take (nat len) p = lcp_addci h m \<and>
       t = (if fstate (lcp_fsm s) = OPENED then s
            else s\<lparr>lcp_gotoptions := lcp_without (lcp_gotoptions s) m\<rparr>))"
proof -
  have "lcp_rejci h p len s = Ret True t \<longleftrightarrow> (\<exists>o1. lcp_rejci_try h (lcp_gotoptions s) p len = Some o1 \<and>
      t = (if fstate (lcp_fsm s) = OPENED then s else s\<lparr>lcp_gotoptions := o1\<rparr>))"
    by (auto simp: lcp_rejci_def split: option.split)
  then show ?thesis unfolding lcp_rejci_try_iff [OF assms] by auto
qed

theorem lcp_rejci_exact_witness:
  "lcp_rejci std_hdr [3, 5, 0xc2, 0x23, 5] 5 (ppp_calloc\<lparr>lcp_gotoptions := sample_lcp\<rparr>) =
     Ret True (ppp_calloc\<lparr>lcp_gotoptions := sample_lcp\<lparr>neg_chap := False\<rparr>\<rparr>)"
proof -
  let ?m = "sample_lcp\<lparr>neg_mru := False\<rparr>"
  have "lcp_sub ?m sample_lcp" "lcp_addci std_hdr ?m = [3, 5, 0xc2, 0x23, 5]"
    "lcp_without sample_lcp ?m = sample_lcp\<lparr>neg_chap := False\<rparr>"
    by (simp_all add: lcp_sub_def lcp_without_def sample_lcp_def lcp_zero_def) code_simp
  then show ?thesis
    using lcp_rejci_exact [of std_hdr 5 "[3, 5, 0xc2, 0x23, 5]" "ppp_calloc\<lparr>lcp_gotoptions := sample_lcp\<rparr>"
        "ppp_calloc\<lparr>lcp_gotoptions := sample_lcp\<lparr>neg_chap := False\<rparr>\<rparr>"]
    by (auto simp: std_ok ppp_calloc_def fsm_zero_def intro!: exI [of _ ?m])
qed

section \<open>Naks\<close>








text \<open>
  C31. When we ask for authentication, checking a Configure-Nak always ends with a verdict.
\<close>

theorem lcp_nakci_returns:
  assumes "neg_chap (lcp_gotoptions s) \<or> neg_upap (lcp_gotoptions s)"
  shows "\<exists>good t. lcp_nakci h r p len s = Ret good t"
proof -
  obtain b where "nak_rest h (lcp_gotoptions s) (nno n) (np n) (nlen n) = Some b"
    if "n = nak_first h r (lcp_wantoptions s) (lcp_gotoptions s)
      \<lparr>np = p, nlen = len, nno = lcp_zero, ntry = lcp_gotoptions s, ngen = mgen_of s\<rparr>" for n
    using nak_rest_ends [OF assms] by metis
  then show ?thesis by (cases b) (auto simp: lcp_nakci_def Let_def)
qed

theorem lcp_nakci_returns_witness:
  "\<exists>good t. lcp_nakci std_hdr (\<lambda>_. 0) [3, 0, 0] 3 (ppp_calloc\<lparr>lcp_gotoptions := sample_lcp\<rparr>) = Ret good t"
  using lcp_nakci_returns [of "ppp_calloc\<lparr>lcp_gotoptions := sample_lcp\<rparr>"] by (simp add: sample_lcp_def)

text \<open>
  C32. When we ask for no authentication, a Configure-Nak that starts with an authentication
  option of length 0 is never answered: the loop over the remaining options does not end.
\<close>

theorem lcp_nakci_hangs:
  assumes "types_ok h" and "\<not> neg_chap (lcp_gotoptions s)" and "\<not> neg_upap (lcp_gotoptions s)" and "2 < len"
  shows "lcp_nakci h r (CI_AUTHTYPE h # 0 # q) len s = Stuck"
proof -
  let ?n = "\<lparr>np = CI_AUTHTYPE h # 0 # q, nlen = len, nno = lcp_zero, ntry = lcp_gotoptions s, ngen = mgen_of s\<rparr>"
  have "nak_first h r (lcp_wantoptions s) (lcp_gotoptions s) ?n = ?n"
    using assms by (simp add: nak_first_def NAKCI_def)
  moreover have "nak_rest h (lcp_gotoptions s) lcp_zero (CI_AUTHTYPE h # 0 # q) len = None"
    using assms by (intro nak_rest_endless) (simp_all add: lcp_zero_def)
  ultimately show ?thesis by (simp add: lcp_nakci_def Let_def)
qed

theorem lcp_nakci_hangs_witness:
  "lcp_nakci std_hdr (\<lambda>_. 0) [3, 0, 0] 3 ppp_calloc = Stuck"
  using lcp_nakci_hangs [of std_hdr ppp_calloc 3 "\<lambda>_. 0" "[0]"] std_ok
  by (simp add: ppp_calloc_def lcp_zero_def std_hdr_def)

end
