(* ===== verification/Lcp_Reqci_Spec.thy ===== *)
theory Lcp_Reqci_Spec
  imports Lcp_Options_Spec
begin

text \<open>
  The answer of \<open>lcp_reqci\<close> to a Configure-Request, specified without buffers and
  pointers: cut the request into options, judge one after the other, and send the rejected
  options, or else the suggestions for the Nak, or else the request itself. The
  implementation, which moves rejected options to the front of the packet while it parses
  it, computes exactly that. Then the agreement of two sides: a request built by
  \<open>lcp_addci\<close> is acknowledged by a peer that allows its options, and afterwards the peer's
  record of the other side's options is the one the request was built from.
\<close>

section \<open>Specification\<close>

text \<open>The verdict on one option, a Nak being turned into a Reject when we are fed up.\<close>

definition fed_up :: "hdr \<Rightarrow> bool \<Rightarrow> u8 \<Rightarrow> ccode \<Rightarrow> ccode" where
  "fed_up h rid ct orc = (if orc = ConfNak \<and> rid \<and> ct \<noteq> CI_MAGICNUMBER h then ConfRej else orc)"

definition ci_answer :: "hdr \<Rightarrow> (nat \<Rightarrow> u32) \<Rightarrow> lcp_options \<Rightarrow> lcp_options \<Rightarrow> bool \<Rightarrow>
    lcp_options \<Rightarrow> mgen \<Rightarrow> bytes \<Rightarrow> lcp_verdict" where
  "ci_answer h r ao go rid ho g ci =
     (if bad_ci ci (int (length ci)) then verdict ConfRej ho g
      else let v = reqci_switch h r ao go rid ho g ci (rd ci 0) (rd ci 1) in
        v\<lparr>v_orc := fed_up h rid (rd ci 0) (v_orc v)\<rparr>)"

text \<open>The whole answer: code, rejected options, suggestions, and what was agreed to.\<close>

fun reqci_spec :: "hdr \<Rightarrow> (nat \<Rightarrow> u32) \<Rightarrow> lcp_options \<Rightarrow> lcp_options \<Rightarrow> bool \<Rightarrow>
    lcp_options \<Rightarrow> mgen \<Rightarrow> bytes list \<Rightarrow> ccode \<times> bytes \<times> bytes \<times> lcp_options \<times> mgen" where
  "reqci_spec h r ao go rid ho g [] = (ConfAck, [], [], ho, g)"
| "reqci_spec h r ao go rid ho g (ci # cis) =
     (let v = ci_answer h r ao go rid ho g ci;
          (code, rej, nak, ho', g') = reqci_spec h r ao go rid (v_ho v) (v_gen v) cis
      in (worse (v_orc v) code, (if v_orc v = ConfRej then ci else []) @ rej, v_nak v @ nak, ho', g'))"

section \<open>One round of the loop\<close>

lemma authtype_local:
  "uint cl = int n \<Longrightarrow> reqci_authtype h ao ho g (take n p) cl = reqci_authtype h ao ho g p cl"
  unfolding reqci_authtype_def Let_def by (intro if_cong refl) simp_all

lemma switch_local:
  "uint cl = int n \<Longrightarrow>
   reqci_switch h r ao go rid ho g (take n p) ct cl = reqci_switch h r ao go rid ho g p ct cl"
  unfolding reqci_switch_def Let_def by (intro if_cong refl) (simp_all add: authtype_local)

lemma authtype_hint: "v_hint (reqci_authtype h ao ho g p cl) = []"
  by (simp add: reqci_authtype_def Let_def)

definition hint_ok :: "bool \<Rightarrow> u8 \<Rightarrow> lcp_verdict \<Rightarrow> bool" where
  "hint_ok rid cl v \<longleftrightarrow>
     v_hint v = [] \<or> v_orc v = ConfNak \<and> \<not> rid \<and> int (length (v_hint v)) + 2 = uint cl"

lemma hint_ok_if: "(c \<Longrightarrow> hint_ok rid cl a) \<Longrightarrow> (\<not> c \<Longrightarrow> hint_ok rid cl b) \<Longrightarrow> hint_ok rid cl (if c then a else b)"
  by simp

lemma switch_hint:
  "codec_ok h \<Longrightarrow> hint_ok rid cl (reqci_switch h r ao go rid ho g p ct cl)"
  unfolding reqci_switch_def Let_def case_prod_beta
  by (intro hint_ok_if) (simp_all add: hint_ok_def authtype_hint)

lemma endswitch_frame [simp]:
  "q_ho (reqci_endswitch h rid orc ct cip cl q) = q_ho q"
  "q_gen (reqci_endswitch h rid orc ct cip cl q) = q_gen q"
  "q_nak (reqci_endswitch h rid orc ct cip cl q) = q_nak q"
  "q_next (reqci_endswitch h rid orc ct cip cl q) = q_next q"
  by (simp_all add: reqci_endswitch_def Let_def split: ccode.split)

lemma endswitch_rc:
  "q_rc (reqci_endswitch h rid orc ct cip cl q) = worse (q_rc q) (fed_up h rid ct orc)"
  by (cases "q_rc q"; cases orc) (auto simp: reqci_endswitch_def Let_def fed_up_def worse_def)

lemma endswitch_keep:
  "fed_up h rid ct orc \<noteq> ConfRej \<Longrightarrow> q_buf (reqci_endswitch h rid orc ct cip cl q) = q_buf q"
  "fed_up h rid ct orc \<noteq> ConfRej \<Longrightarrow> q_rejp (reqci_endswitch h rid orc ct cip cl q) = q_rejp q"
  by (cases orc; auto simp: reqci_endswitch_def Let_def fed_up_def)+

lemma endswitch_reject:
  assumes "fed_up h rid ct orc = ConfRej" and "q_rejp q \<le> cip" and "cip + unat cl \<le> length (q_buf q)"
  defines "q' \<equiv> reqci_endswitch h rid orc ct cip cl q"
  shows "q_rejp q' = q_rejp q + unat cl" "length (q_buf q') = length (q_buf q)"
    "take (q_rejp q') (q_buf q') = take (q_rejp q) (q_buf q) @ take (unat cl) (drop cip (q_buf q))"
    "drop (cip + unat cl) (q_buf q') = drop (cip + unat cl) (q_buf q)"
proof -
  have q': "q_rejp q' = q_rejp q + unat cl" "q_buf q' =
      (if cip \<noteq> q_rejp q then bcopy_in cip (q_rejp q) (unat cl) (q_buf q) else q_buf q)"
    using assms(1) by (cases orc; auto simp: q'_def reqci_endswitch_def Let_def fed_up_def split: if_splits)+
  let ?c = "take (unat cl) (drop cip (q_buf q))"
  have l: "length ?c = unat cl" using assms(3) by simp
  show "q_rejp q' = q_rejp q + unat cl" by (rule q')
  show "length (q_buf q') = length (q_buf q)"
    unfolding q'(2) bcopy_in_def using assms(2,3) l by simp
  show "take (q_rejp q') (q_buf q') = take (q_rejp q) (q_buf q) @ ?c"
    unfolding q' bcopy_in_def
    using take_put_at [of "q_rejp q" "q_buf q" ?c] assms(2,3) l by (simp add: take_add)
  show "drop (cip + unat cl) (q_buf q') = drop (cip + unat cl) (q_buf q)"
    unfolding q' bcopy_in_def
    using drop_put_at [of "q_rejp q" ?c "cip + unat cl" "q_buf q"] assms(2,3) l by simp
qed

text \<open>The part of the packet still to be parsed, and what the pointers satisfy.\<close>

definition todo :: "lcp_req \<Rightarrow> bytes" where
  "todo q = take (nat (q_l q)) (drop (q_next q) (q_buf q))"

definition req_inv :: "lcp_req \<Rightarrow> bool" where
  "req_inv q \<longleftrightarrow> 0 \<le> q_l q \<and> (q_l q = 0 \<or> q_rejp q \<le> q_next q) \<and> int (q_next q) + q_l q \<le> int (length (q_buf q))"

lemma length_todo: "req_inv q \<Longrightarrow> int (length (todo q)) = q_l q"
  by (auto simp: req_inv_def todo_def)

lemma bad_todo: "req_inv q \<Longrightarrow> bad_ci (drop (q_next q) (q_buf q)) (q_l q) \<longleftrightarrow> bad_ci (todo q) (int (length (todo q)))"
  by (auto simp: length_todo bad_ci_def) (auto simp: todo_def)

lemma uint_int_unat: "uint (x :: 'a :: len word) = int (unat x)"
  by simp

text \<open>What one round has to do with the option \<open>ci\<close>.\<close>

definition round_ok :: "lcp_verdict \<Rightarrow> bytes \<Rightarrow> bytes list \<Rightarrow> lcp_req \<Rightarrow> lcp_req \<Rightarrow> bool" where
  "round_ok v ci cis q q' \<longleftrightarrow>
     req_inv q' \<and> split_cis (todo q') = cis \<and> q_ho q' = v_ho v \<and> q_gen q' = v_gen v \<and>
     q_nak q' = q_nak q @ v_nak v \<and> q_rc q' = worse (q_rc q) (v_orc v) \<and>
     q_rejp q' = q_rejp q + (if v_orc v = ConfRej then length ci else 0) \<and>
     take (q_rejp q') (q_buf q') = take (q_rejp q) (q_buf q) @ (if v_orc v = ConfRej then ci else []) \<and>
     (v_orc v = ConfAck \<longrightarrow> q_buf q' = q_buf q \<and> q_next q' = q_next q + length ci)"

lemma round_bad:
  assumes inv: "req_inv q" and bad: "bad_ci (drop (q_next q) (q_buf q)) (q_l q)" and "q_l q < 256"
    and l: "q_l q \<noteq> 0"
  shows "round_ok (verdict ConfRej (q_ho q) (q_gen q)) (todo q) [] q (reqci_body h r ao go rid q)"
proof -
  let ?cl = "word_of_int (q_l q) :: u8"
  have cl: "unat ?cl = nat (q_l q)"
    using inv assms(3) by (simp add: req_inv_def unat_eq_nat_uint uint_word_of_int)
  have body: "reqci_body h r ao go rid q = reqci_endswitch h rid ConfRej 0 (q_next q) ?cl (q\<lparr>q_l := 0\<rparr>)"
    using bad by (simp add: reqci_body_def Let_def)
  have f: "fed_up h rid 0 ConfRej = ConfRej" by (simp add: fed_up_def)
  have r: "q_rejp (q\<lparr>q_l := 0\<rparr>) \<le> q_next q" "q_next q + unat ?cl \<le> length (q_buf (q\<lparr>q_l := 0\<rparr>))"
    using inv cl l by (simp_all add: req_inv_def) linarith
  note e = endswitch_reject [OF f r, folded body, simplified]
  have nx: "q_next (reqci_body h r ao go rid q) = q_next q" "q_l (reqci_body h r ao go rid q) = 0"
    by (simp_all add: body)
  then have td: "split_cis (todo (reqci_body h r ao go rid q)) = []"
    by (simp add: todo_def split_cis.simps)
  have "length (todo q) = nat (q_l q)" using length_todo [OF inv] by linarith
  moreover have "todo q = take (unat ?cl) (drop (q_next q) (q_buf q))" by (simp add: todo_def cl)
  ultimately show ?thesis
    using inv e nx cl td
    by (simp add: round_ok_def req_inv_def body endswitch_rc f)
qed

lemma round_good:
  assumes h: "codec_ok h" and inv: "req_inv q" and l: "q_l q \<noteq> 0"
    and good: "\<not> bad_ci (drop (q_next q) (q_buf q)) (q_l q)"
  defines "n \<equiv> unat (rd (todo q) 1)"
  shows "round_ok (ci_answer h r ao go rid (q_ho q) (q_gen q) (take n (todo q))) (take n (todo q))
    (split_cis (drop n (todo q))) q (reqci_body h r ao go rid q)"
proof -
  let ?p = "drop (q_next q) (q_buf q)"
  define v where "v = reqci_switch h r ao go rid (q_ho q) (q_gen q) ?p (rd ?p 0) (rd ?p 1)"
  let ?q = "q\<lparr>q_l := q_l q - uint (rd ?p 1), q_next := q_next q + unat (rd ?p 1),
    q_buf := put_at (q_next q + 2) (v_hint v) (q_buf q), q_nak := q_nak q @ v_nak v,
    q_ho := v_ho v, q_gen := v_gen v\<rparr>"
  let ?q' = "reqci_body h r ao go rid q"
  let ?ci = "take n (todo q)"
  have len: "2 \<le> q_l q" "2 \<le> uint (rd ?p 1)" "uint (rd ?p 1) \<le> q_l q"
    using good by (auto simp: bad_ci_def)
  have rd1: "rd (todo q) 1 = rd ?p 1" "rd (todo q) 0 = rd ?p 0"
    using len(1) by (auto simp: todo_def)
  then have n: "unat (rd ?p 1) = n" "uint (rd ?p 1) = int n" by (simp_all add: n_def)
  have ci: "?ci = take n ?p" using len n by (simp add: todo_def min_def)
  have fits: "q_next q + n \<le> length (q_buf q)" "q_rejp q \<le> q_next q"
    using inv len n l by (auto simp: req_inv_def)
  have ans: "ci_answer h r ao go rid (q_ho q) (q_gen q) ?ci =
      v\<lparr>v_orc := fed_up h rid (rd ?p 0) (v_orc v)\<rparr>"
  proof -
    have "length ?ci = n" using fits by (simp add: ci)
    moreover have "rd ?ci 0 = rd ?p 0" "rd ?ci 1 = rd ?p 1" using len(2) n by (simp_all add: ci)
    ultimately show ?thesis
      using len n by (simp add: ci_answer_def bad_ci_def Let_def ci switch_local v_def)
  qed
  have body: "?q' = reqci_endswitch h rid (v_orc v) (rd ?p 0) (q_next q) (rd ?p 1) ?q"
    using good by (simp add: reqci_body_def Let_def v_def)
  have hint: "hint_ok rid (rd ?p 1) v" unfolding v_def using h by (rule switch_hint)
  have "v_hint v = [] \<or> int (length (v_hint v)) + 2 = int n" using hint n(2) by (auto simp: hint_ok_def)
  moreover have "2 \<le> int n" using len(2) unfolding n(2) .
  ultimately have "length (v_hint v) + 2 \<le> n" by (elim disjE) simp_all
  then have buf: "length (q_buf ?q) = length (q_buf q)" "take (q_next q) (q_buf ?q) = take (q_next q) (q_buf q)"
      "drop (q_next q + n) (q_buf ?q) = drop (q_next q + n) (q_buf q)"
    using fits by (simp_all add: take_put_at_before drop_put_at)
  have same: "q_buf ?q = q_buf q" if "fed_up h rid (rd ?p 0) (v_orc v) \<noteq> ConfNak"
    using hint that by (auto simp: hint_ok_def fed_up_def put_at_def split: if_splits)
  have rc: "q_rc ?q' = worse (q_rc q) (fed_up h rid (rd ?p 0) (v_orc v))"
    by (simp add: body endswitch_rc)
  have take_rejp: "take (q_rejp q) (q_buf ?q) = take (q_rejp q) (q_buf q)"
    using arg_cong [OF buf(2), of "take (q_rejp q)"] fits(2) by (simp add: min_def split: if_splits)
  have key: "drop (q_next q + n) (q_buf ?q') = drop (q_next q + n) (q_buf q)
      \<and> length (q_buf ?q') = length (q_buf q)
      \<and> q_rejp ?q' = q_rejp q + (if fed_up h rid (rd ?p 0) (v_orc v) = ConfRej then n else 0)
      \<and> take (q_rejp ?q') (q_buf ?q') = take (q_rejp q) (q_buf q) @
          (if fed_up h rid (rd ?p 0) (v_orc v) = ConfRej then take n ?p else [])"
  proof (cases "fed_up h rid (rd ?p 0) (v_orc v) = ConfRej")
    case True
    have "q_rejp ?q \<le> q_next q" "q_next q + unat (rd ?p 1) \<le> length (q_buf ?q)"
      using fits n(1) buf(1) by simp_all
    from endswitch_reject [OF True this, folded body] same True show ?thesis by (simp add: n(1) [simplified])
  next
    case False
    from endswitch_keep [OF this] have "q_buf ?q' = q_buf ?q" "q_rejp ?q' = q_rejp ?q"
      by (simp_all add: body)
    then show ?thesis using False buf(1,3) take_rejp by simp
  qed
  have td: "todo ?q' = drop n (todo q)"
    using key inv len n by (simp add: todo_def body nat_diff_distrib drop_take add.commute)
  have "req_inv ?q'"
    using key inv len n fits by (simp add: req_inv_def body)
  moreover have "length ?ci = n" using fits by (simp add: ci)
  moreover have "fed_up h rid (rd ?p 0) (v_orc v) = ConfAck \<longrightarrow> q_buf ?q' = q_buf q"
    using endswitch_keep(1) [of h rid "rd ?p 0" "v_orc v"] same by (simp add: body)
  moreover have "q_ho ?q' = v_ho v" "q_gen ?q' = v_gen v" "q_nak ?q' = q_nak q @ v_nak v"
      "q_next ?q' = q_next q + n"
    by (simp_all add: body n(1) [simplified])
  ultimately show ?thesis
    unfolding round_ok_def ans using td rc key by (auto simp: ci)
qed

lemma round_step:
  assumes "codec_ok h" and "req_inv q" and "q_l q \<noteq> 0"
    and "split_cis (todo q) = ci # cis" and "length ci < 256"
  shows "round_ok (ci_answer h r ao go rid (q_ho q) (q_gen q) ci) ci cis q (reqci_body h r ao go rid q)"
proof -
  have ne: "todo q \<noteq> []" using assms(3) length_todo [OF assms(2)] by auto
  show ?thesis
  proof (cases "bad_ci (drop (q_next q) (q_buf q)) (q_l q)")
    case True
    then have bad: "bad_ci (todo q) (int (length (todo q)))" using bad_todo [OF assms(2)] by simp
    then have "ci = todo q" "cis = []" using assms(4) ne by (simp_all add: split_cis_step)
    moreover have "q_l q < 256" using assms(5) length_todo [OF assms(2)] calculation(1) by simp
    ultimately show ?thesis
      using round_bad [OF assms(2) True _ assms(3)] bad by (simp add: ci_answer_def)
  next
    case False
    then have "\<not> bad_ci (todo q) (int (length (todo q)))" using bad_todo [OF assms(2)] by simp
    then have "ci = take (unat (rd (todo q) 1)) (todo q)" "cis = split_cis (drop (unat (rd (todo q) 1)) (todo q))"
      using assms(4) ne by (simp_all add: split_cis_step)
    then show ?thesis using round_good [OF assms(1-3) False] by simp
  qed
qed

section \<open>The loop\<close>

definition loop_ok :: "ccode \<times> bytes \<times> bytes \<times> lcp_options \<times> mgen \<Rightarrow> nat \<Rightarrow> lcp_req \<Rightarrow> lcp_req \<Rightarrow> bool" where
  "loop_ok = (\<lambda>(code, rej, nak, ho, g) n q q'.
     q_ho q' = ho \<and> q_gen q' = g \<and> q_nak q' = q_nak q @ nak \<and> q_rc q' = worse (q_rc q) code \<and>
     q_rejp q' = q_rejp q + length rej \<and> take (q_rejp q') (q_buf q') = take (q_rejp q) (q_buf q) @ rej \<and>
     (code = ConfAck \<longrightarrow> q_buf q' = q_buf q \<and> q_next q' = q_next q + n))"

lemma loop_spec:
  assumes "codec_ok h" and "req_inv q" and "\<forall>ci \<in> set (split_cis (todo q)). length ci < 256"
  shows "loop_ok (reqci_spec h r ao go rid (q_ho q) (q_gen q) (split_cis (todo q)))
    (length (todo q)) q (reqci_loop h r ao go rid q)"
  using assms(2,3)
proof (induction "split_cis (todo q)" arbitrary: q)
  case Nil
  then have "todo q = []" using concat_split_cis [of "todo q"] by simp
  moreover from this have "q_l q = 0" using length_todo [OF Nil(2)] by simp
  ultimately show ?case
    using Nil(1) by (simp add: loop_ok_def reqci_loop.simps [of _ _ _ _ _ q] worse_Ack flip: Nil(1))
next
  case (Cons ci cis)
  note split = Cons.hyps(2) [symmetric]
  have td: "todo q = ci @ concat cis" using concat_split_cis [of "todo q"] split by simp
  have "todo q \<noteq> []" using split by (auto simp: split_cis.simps)
  then have l: "q_l q \<noteq> 0" using length_todo [OF Cons.prems(1)] by auto
  define q' where "q' = reqci_body h r ao go rid q"
  define v where "v = ci_answer h r ao go rid (q_ho q) (q_gen q) ci"
  have "length ci < 256" using Cons.prems(2) split by simp
  from round_step [OF assms(1) Cons.prems(1) l split this]
  have R: "round_ok v ci cis q q'" unfolding v_def q'_def .
  then have inv: "req_inv q'" and cis: "cis = split_cis (todo q')" by (simp_all add: round_ok_def)
  have "\<forall>ci \<in> set (split_cis (todo q')). length ci < 256"
    using Cons.prems(2) split cis by simp
  from Cons.hyps(1) [OF cis inv this]
  have IH: "loop_ok (reqci_spec h r ao go rid (v_ho v) (v_gen v) cis) (length (todo q')) q'
      (reqci_loop h r ao go rid q')"
    using R cis by (simp add: round_ok_def)
  have loop: "reqci_loop h r ao go rid q = reqci_loop h r ao go rid q'"
    using l by (simp add: reqci_loop.simps [of _ _ _ _ _ q] q'_def)
  have len: "length (todo q) = length ci + length (todo q')"
    using concat_split_cis [of "todo q'"] cis td by simp
  obtain code rej nak ho g where "reqci_spec h r ao go rid (v_ho v) (v_gen v) cis = (code, rej, nak, ho, g)"
    by (metis prod_cases5)
  with IH R loop len show ?case
    unfolding split
    by (simp add: loop_ok_def round_ok_def flip: v_def) (auto simp: worse_assoc worse_eq_Ack)
qed

text \<open>The bytes sent back for each code.\<close>

definition answer_body :: "bytes \<Rightarrow> ccode \<times> bytes \<times> bytes \<times> lcp_options \<times> mgen \<Rightarrow> bytes" where
  "answer_body w = (\<lambda>(code, rej, nak, _). case code of ConfAck \<Rightarrow> w | ConfNak \<Rightarrow> nak | ConfRej \<Rightarrow> rej)"

lemma lcp_reqci_refines:
  assumes "codec_ok h" and "0 \<le> len" and "len \<le> int (length inp)"
    and "\<forall>ci \<in> set (split_cis (take (nat len) inp)). length ci < 256"
    and sp_def: "sp = reqci_spec h r (lcp_allowoptions s) (lcp_gotoptions s) rid lcp_zero (mgen_of s)
    (split_cis (take (nat len) inp))"
  shows "\<exists>buf n. lcp_reqci h r inp len rid s = Ret (fst sp, buf, n)
      (set_mgen (snd (snd (snd (snd sp)))) (s\<lparr>lcp_hisoptions := fst (snd (snd (snd sp)))\<rparr>))
    \<and> n = int (length (answer_body (take (nat len) inp) sp))
    \<and> take (nat n) buf = answer_body (take (nat len) inp) sp"
proof -
  let ?q = "\<lparr>q_buf = inp, q_l = len, q_next = 0, q_rejp = 0, q_nak = [], q_ho = lcp_zero,
    q_rc = ConfAck, q_gen = mgen_of s\<rparr>"
  let ?q' = "reqci_loop h r (lcp_allowoptions s) (lcp_gotoptions s) rid ?q"
  have inv: "req_inv ?q" and td: "todo ?q = take (nat len) inp"
    using assms(2,3) by (simp_all add: req_inv_def todo_def)
  obtain code rej nak ho g where sp: "sp = (code, rej, nak, ho, g)" by (metis prod_cases5)
  have L: "loop_ok sp (nat len) ?q ?q'"
    using loop_spec [OF assms(1) inv, unfolded td, OF assms(4)] assms(2,3) unfolding sp_def by simp
  have "length (take (nat len) inp) = nat len" using assms(2,3) by simp
  with L show ?thesis
    unfolding lcp_reqci_def Let_def
    by (cases code)
      (auto simp: loop_ok_def sp worse_Ack answer_body_def put_at_def)
qed

section \<open>Agreement of the two sides\<close>

lemma tlv_ADDCI:
  assumes "codec_ok h"
  shows "tlv (ADDCIVOID opt True)" "tlv (ADDCISHORT h opt True v)" "tlv (ADDCILONG h opt True w)"
    "tlv (ADDCICHAP h opt True v d)" "tlv (ADDCILQR h opt True w)"
  using assms by (simp_all add: tlv_def ADDCIVOID_def ADDCISHORT_def ADDCILONG_def ADDCICHAP_def ADDCILQR_def)

lemma ADDCI_cases:
  assumes "codec_ok h"
  shows "ADDCIVOID opt b = [] \<or> tlv (ADDCIVOID opt b)" "ADDCISHORT h opt b v = [] \<or> tlv (ADDCISHORT h opt b v)"
    "ADDCILONG h opt b w = [] \<or> tlv (ADDCILONG h opt b w)"
    "ADDCICHAP h opt b v d = [] \<or> tlv (ADDCICHAP h opt b v d)"
    "ADDCILQR h opt b w = [] \<or> tlv (ADDCILQR h opt b w)"
  using tlv_ADDCI [OF assms]
  by (cases b; simp add: ADDCIVOID_def ADDCISHORT_def ADDCILONG_def ADDCICHAP_def ADDCILQR_def)+

lemma split_lcp_addci:
  assumes "codec_ok h"
  shows "split_cis (lcp_addci h po) = filter (\<lambda>e. e \<noteq> [])
     [ADDCISHORT h (CI_MRU h) (neg_mru po) (word_of_int (mru po)),
      ADDCILONG h (CI_ASYNCMAP h) (neg_asyncmap po) (asyncmap po),
      ADDCICHAP h (CI_AUTHTYPE h) (neg_chap po) (CHAP h) (chap_mdtype po),
      ADDCISHORT h (CI_AUTHTYPE h) (\<not> neg_chap po \<and> neg_upap po) (UPAP h),
      ADDCILQR h (CI_QUALITY h) (neg_lqr po) (lqr_period po),
      ADDCILONG h (CI_MAGICNUMBER h) (neg_magicnumber po) (magicnumber po),
      ADDCIVOID (CI_PCOMPRESSION h) (neg_pcompression po),
      ADDCIVOID (CI_ACCOMPRESSION h) (neg_accompression po)]"
  unfolding lcp_addci_def
  by (rule split_cis_concat) (use ADDCI_cases [OF assms] in \<open>simp del: filter.simps\<close>)

text \<open>
  \<open>lcp_agreeable h ao go po\<close>: a side that allows \<open>ao\<close> and requests \<open>go\<close> itself has nothing
  against the peer's request \<open>po\<close>.
\<close>

definition lcp_agreeable :: "hdr \<Rightarrow> lcp_options \<Rightarrow> lcp_options \<Rightarrow> lcp_options \<Rightarrow> bool" where
  "lcp_agreeable h ao go po \<longleftrightarrow>
     (neg_mru po \<longrightarrow> neg_mru ao \<and> MINMRU h \<le> mru po \<and> 0 \<le> mru po \<and> mru po < 2 ^ 16) \<and>
     (neg_asyncmap po \<longrightarrow> neg_asyncmap ao \<and> asyncmap ao AND NOT (asyncmap po) = 0) \<and>
     (neg_chap po \<longrightarrow> neg_chap ao \<and> chap_mdtype po = chap_mdtype ao) \<and>
     (\<not> neg_chap po \<and> neg_upap po \<longrightarrow> neg_upap ao) \<and>
     (neg_lqr po \<longrightarrow> neg_lqr ao) \<and>
     (neg_magicnumber po \<longrightarrow> (neg_magicnumber ao \<or> neg_magicnumber go) \<and>
        \<not> (neg_magicnumber go \<and> magicnumber po = magicnumber go)) \<and>
     (neg_pcompression po \<longrightarrow> neg_pcompression ao) \<and>
     (neg_accompression po \<longrightarrow> neg_accompression ao)"

text \<open>What is noted of the peer's request.\<close>

definition lcp_heard :: "lcp_options \<Rightarrow> lcp_options" where
  "lcp_heard po = lcp_zero\<lparr>neg_mru := neg_mru po, mru := (if neg_mru po then mru po else 0),
     neg_asyncmap := neg_asyncmap po, asyncmap := (if neg_asyncmap po then asyncmap po else 0),
     neg_chap := neg_chap po, chap_mdtype := (if neg_chap po then chap_mdtype po else 0),
     neg_upap := \<not> neg_chap po \<and> neg_upap po, neg_magicnumber := neg_magicnumber po,
     magicnumber := (if neg_magicnumber po then magicnumber po else 0),
     neg_pcompression := neg_pcompression po, neg_accompression := neg_accompression po\<rparr>"

lemma ack_step:
  assumes "neg \<Longrightarrow> e \<noteq> [] \<and> ci_answer h r ao go rid ho g e = verdict ConfAck ho' g"
    and "\<not> neg \<Longrightarrow> e = [] \<and> ho' = ho"
    and "reqci_spec h r ao go rid ho' g (filter (\<lambda>e. e \<noteq> []) es) = (ConfAck, [], [], ho2, g2)"
  shows "reqci_spec h r ao go rid ho g (filter (\<lambda>e. e \<noteq> []) (e # es)) = (ConfAck, [], [], ho2, g2)"
  using assms by (cases neg) (simp_all add: worse_Ack)

lemma answer_tlv:
  assumes "tlv ci"
  shows "ci_answer h r ao go rid ho g ci =
    (let v = reqci_switch h r ao go rid ho g ci (hd ci) (ci ! 1)
     in v\<lparr>v_orc := fed_up h rid (hd ci) (v_orc v)\<rparr>)"
proof -
  have "rd ci 0 = hd ci" "rd ci 1 = ci ! 1" "\<not> bad_ci ci (int (length ci))"
    using assms by (cases ci; auto simp: tlv_def bad_ci_def rd_def hd_conv_nth)+
  then show ?thesis by (simp add: ci_answer_def)
qed

lemma fed_up_Ack [simp]: "fed_up h rid ct ConfAck = ConfAck"
  by (simp add: fed_up_def)

lemma ADDCI_value:
  assumes "codec_ok h"
  shows "rdshort h (ADDCISHORT h opt True v) 2 = v" "rdlong h (ADDCILONG h opt True w) 2 = w"
    "rdshort h (ADDCICHAP h opt True v d) 2 = v" "rd (ADDCICHAP h opt True v d) 4 = d"
    "rdshort h (ADDCILQR h opt True w) 2 = LQR h"
proof -
  show "rdshort h (ADDCISHORT h opt True v) 2 = v" "rdlong h (ADDCILONG h opt True w) 2 = w"
    "rdshort h (ADDCILQR h opt True w) 2 = LQR h"
    using assms by (simp_all add: ADDCISHORT_def ADDCILONG_def ADDCILQR_def rd2_iff)
  show "rdshort h (ADDCICHAP h opt True v d) 2 = v" "rd (ADDCICHAP h opt True v d) 4 = d"
    using chap_value [OF assms, of "ADDCICHAP h opt True v d" v d] assms by (simp_all add: ADDCICHAP_def)
qed

lemma ADDCI_second:
  "ADDCIVOID opt True ! Suc 0 = 2" "ADDCISHORT h opt True v ! Suc 0 = 4" "ADDCILONG h opt True w ! Suc 0 = 6"
  "ADDCICHAP h opt True v d ! Suc 0 = 5" "ADDCILQR h opt True w ! Suc 0 = 8"
  by (simp_all add: ADDCIVOID_def ADDCISHORT_def ADDCILONG_def ADDCICHAP_def ADDCILQR_def)

lemmas ci_simps = answer_tlv [OF tlv_ADDCI(1)] answer_tlv [OF tlv_ADDCI(2)] answer_tlv [OF tlv_ADDCI(3)]
  answer_tlv [OF tlv_ADDCI(4)] answer_tlv [OF tlv_ADDCI(5)] ADDCI_head ADDCI_second Let_def

text \<open>The case labels before the one that applies.\<close>

lemma types_neq:
  assumes "types_ok h"
  shows "CI_ASYNCMAP h \<noteq> CI_MRU h" "CI_AUTHTYPE h \<noteq> CI_MRU h" "CI_AUTHTYPE h \<noteq> CI_ASYNCMAP h" "CI_QUALITY h \<noteq> CI_MRU h"
    "CI_QUALITY h \<noteq> CI_ASYNCMAP h" "CI_QUALITY h \<noteq> CI_AUTHTYPE h" "CI_MAGICNUMBER h \<noteq> CI_MRU h" "CI_MAGICNUMBER h \<noteq> CI_ASYNCMAP h"
    "CI_MAGICNUMBER h \<noteq> CI_AUTHTYPE h" "CI_MAGICNUMBER h \<noteq> CI_QUALITY h" "CI_PCOMPRESSION h \<noteq> CI_MRU h" "CI_PCOMPRESSION h \<noteq> CI_ASYNCMAP h"
    "CI_PCOMPRESSION h \<noteq> CI_AUTHTYPE h" "CI_PCOMPRESSION h \<noteq> CI_QUALITY h" "CI_PCOMPRESSION h \<noteq> CI_MAGICNUMBER h" "CI_ACCOMPRESSION h \<noteq> CI_MRU h"
    "CI_ACCOMPRESSION h \<noteq> CI_ASYNCMAP h" "CI_ACCOMPRESSION h \<noteq> CI_AUTHTYPE h" "CI_ACCOMPRESSION h \<noteq> CI_QUALITY h" "CI_ACCOMPRESSION h \<noteq> CI_MAGICNUMBER h"
    "CI_ACCOMPRESSION h \<noteq> CI_PCOMPRESSION h"
    "CHAP h \<noteq> UPAP h"
  using assms by (auto simp: types_ok_def)

lemma answer_mru:
  assumes "codec_ok h" and "neg_mru ao" and "MINMRU h \<le> m" and "0 \<le> m" and "m < 2 ^ 16"
  shows "ci_answer h r ao go rid ho g (ADDCISHORT h (CI_MRU h) True (word_of_int m)) =
    verdict ConfAck (ho\<lparr>neg_mru := True, mru := m\<rparr>) g"
proof -
  have "uint (word_of_int m :: u16) = m" using assms(4,5) by (simp add: uint_word_of_int)
  then show ?thesis using assms(2,3) ADDCI_value(1) [OF assms(1)]
    by (simp add: ci_simps assms(1) reqci_switch_def)
qed

lemma answer_asyncmap:
  assumes "codec_ok h" and "types_ok h" and "neg_asyncmap ao" and "asyncmap ao AND NOT w = 0"
  shows "ci_answer h r ao go rid ho g (ADDCILONG h (CI_ASYNCMAP h) True w) =
    verdict ConfAck (ho\<lparr>neg_asyncmap := True, asyncmap := w\<rparr>) g"
  using assms ADDCI_value(2) [OF assms(1)]
  by (simp add: ci_simps reqci_switch_def types_neq)

lemma answer_chap:
  assumes "codec_ok h" and "types_ok h" and "neg_chap ao" and "\<not> neg_upap ho" and "d = chap_mdtype ao"
  shows "ci_answer h r ao go rid ho g (ADDCICHAP h (CI_AUTHTYPE h) True (CHAP h) d) =
    verdict ConfAck (ho\<lparr>chap_mdtype := d, neg_chap := True\<rparr>) g"
  using assms ADDCI_value(3,4) [OF assms(1)]
  by (simp add: ci_simps reqci_switch_def reqci_authtype_def types_neq)

lemma answer_upap:
  assumes "codec_ok h" and "types_ok h" and "neg_upap ao" and "\<not> neg_chap ho"
  shows "ci_answer h r ao go rid ho g (ADDCISHORT h (CI_AUTHTYPE h) True (UPAP h)) =
    verdict ConfAck (ho\<lparr>neg_upap := True\<rparr>) g"
  using assms ADDCI_value(1) [OF assms(1)]
  by (simp add: ci_simps reqci_switch_def reqci_authtype_def types_neq)

lemma answer_lqr:
  assumes "codec_ok h" and "types_ok h" and "neg_lqr ao"
  shows "ci_answer h r ao go rid ho g (ADDCILQR h (CI_QUALITY h) True w) = verdict ConfAck ho g"
  using assms ADDCI_value(5) [OF assms(1)]
  by (simp add: ci_simps reqci_switch_def types_neq)

lemma answer_magic:
  assumes "codec_ok h" and "types_ok h" and "neg_magicnumber ao \<or> neg_magicnumber go"
    and "\<not> (neg_magicnumber go \<and> w = magicnumber go)"
  shows "ci_answer h r ao go rid ho g (ADDCILONG h (CI_MAGICNUMBER h) True w) =
    verdict ConfAck (ho\<lparr>neg_magicnumber := True, magicnumber := w\<rparr>) g"
  using assms ADDCI_value(2) [OF assms(1)]
  by (auto simp: ci_simps reqci_switch_def types_neq)

lemma answer_comp:
  assumes "codec_ok h" and "types_ok h"
  shows "neg_pcompression ao \<Longrightarrow> ci_answer h r ao go rid ho g (ADDCIVOID (CI_PCOMPRESSION h) True) =
      verdict ConfAck (ho\<lparr>neg_pcompression := True\<rparr>) g"
    "neg_accompression ao \<Longrightarrow> ci_answer h r ao go rid ho g (ADDCIVOID (CI_ACCOMPRESSION h) True) =
      verdict ConfAck (ho\<lparr>neg_accompression := True\<rparr>) g"
  using assms by (simp_all add: ci_simps reqci_switch_def types_neq)

lemma ADDCI_no [simp]:
  "ADDCIVOID opt False = []" "ADDCISHORT h opt False v = []" "ADDCILONG h opt False w = []"
  "ADDCICHAP h opt False v d = []" "ADDCILQR h opt False w = []"
  by (simp_all add: ADDCIVOID_def ADDCISHORT_def ADDCILONG_def ADDCICHAP_def ADDCILQR_def)

lemma ADDCI_nonempty [simp]:
  "ADDCIVOID opt True \<noteq> []" "ADDCISHORT h opt True v \<noteq> []" "ADDCILONG h opt True w \<noteq> []"
  "ADDCICHAP h opt True v d \<noteq> []" "ADDCILQR h opt True w \<noteq> []"
  by (simp_all add: ADDCIVOID_def ADDCISHORT_def ADDCILONG_def ADDCICHAP_def ADDCILQR_def)

lemma spec_agrees:
  assumes h: "codec_ok h" "types_ok h" and ok: "lcp_agreeable h ao go po"
  shows "reqci_spec h r ao go rid lcp_zero g (split_cis (lcp_addci h po)) =
    (ConfAck, [], [], lcp_heard po, g)"
proof -
  define h1 where "h1 = (if neg_mru po then lcp_zero\<lparr>neg_mru := True, mru := mru po\<rparr> else lcp_zero)"
  define h2 where "h2 = (if neg_asyncmap po then h1\<lparr>neg_asyncmap := True, asyncmap := asyncmap po\<rparr> else h1)"
  define h3 where "h3 = (if neg_chap po then h2\<lparr>chap_mdtype := chap_mdtype po, neg_chap := True\<rparr> else h2)"
  define h4 where "h4 = (if \<not> neg_chap po \<and> neg_upap po then h3\<lparr>neg_upap := True\<rparr> else h3)"
  define h6 where "h6 = (if neg_magicnumber po
    then h4\<lparr>neg_magicnumber := True, magicnumber := magicnumber po\<rparr> else h4)"
  define h7 where "h7 = (if neg_pcompression po then h6\<lparr>neg_pcompression := True\<rparr> else h6)"
  define h8 where "h8 = (if neg_accompression po then h7\<lparr>neg_accompression := True\<rparr> else h7)"
  have auth: "\<not> neg_upap h2" "\<not> neg_chap po \<Longrightarrow> \<not> neg_chap h3"
    by (simp_all add: h3_def h2_def h1_def lcp_zero_def)
  have "h8 = lcp_heard po"
    by (simp add: h8_def h7_def h6_def h4_def h3_def h2_def h1_def lcp_heard_def lcp_zero_def)
  note [simp] = answer_mru [OF h(1)] answer_asyncmap [OF h] answer_chap [OF h] answer_upap [OF h]
    answer_lqr [OF h] answer_magic [OF h] answer_comp [OF h]
  have "reqci_spec h r ao go rid lcp_zero g (split_cis (lcp_addci h po)) = (ConfAck, [], [], h8, g)"
    unfolding split_lcp_addci [OF h(1)]
    apply (rule ack_step [where neg = "neg_mru po" and ho' = h1])
      apply (use ok in \<open>simp add: lcp_agreeable_def h1_def\<close>)
     apply (simp add: h1_def)
    apply (rule ack_step [where neg = "neg_asyncmap po" and ho' = h2])
      apply (use ok in \<open>simp add: lcp_agreeable_def h2_def\<close>)
     apply (simp add: h2_def)
    apply (rule ack_step [where neg = "neg_chap po" and ho' = h3])
      apply (use ok auth in \<open>simp add: lcp_agreeable_def h3_def\<close>)
     apply (simp add: h3_def)
    apply (rule ack_step [where neg = "\<not> neg_chap po \<and> neg_upap po" and ho' = h4])
      apply (use ok auth in \<open>simp add: lcp_agreeable_def h4_def\<close>)
     apply (auto simp: h4_def)[1]
    apply (rule ack_step [where neg = "neg_lqr po" and ho' = h4])
      apply (use ok in \<open>simp add: lcp_agreeable_def\<close>)
     apply simp
    apply (rule ack_step [where neg = "neg_magicnumber po" and ho' = h6])
      apply (use ok in \<open>simp add: lcp_agreeable_def h6_def\<close>)
     apply (simp add: h6_def)
    apply (rule ack_step [where neg = "neg_pcompression po" and ho' = h7])
      apply (use ok in \<open>simp add: lcp_agreeable_def h7_def\<close>)
     apply (simp add: h7_def)
    apply (rule ack_step [where neg = "neg_accompression po" and ho' = h8])
      apply (use ok in \<open>simp add: lcp_agreeable_def h8_def\<close>)
     apply (simp add: h8_def)
    apply simp
    done
  then show ?thesis by (simp add: \<open>h8 = lcp_heard po\<close>)
qed

section \<open>What we answer\<close>

lemma std_fields: "CI_MRU std_hdr = 1" "MINMRU std_hdr = 128"
  by (simp_all add: std_hdr_def)

lemma tlv_short: "tlv e \<Longrightarrow> length e < 256"
  using uint_lt2p [of "e ! 1"] by (simp add: tlv_def)

lemma lcp_addci_short:
  assumes "codec_ok h" and "ci \<in> set (split_cis (lcp_addci h po))"
  shows "length ci < 256"
proof -
  have "ci \<noteq> [] \<Longrightarrow> tlv ci"
    using assms(2) ADDCI_cases [OF assms(1)] unfolding split_lcp_addci [OF assms(1)]
    by (auto simp del: filter.simps) blast+
  then show ?thesis using tlv_short [of ci] by (cases ci) auto
qed



text \<open>
  C27. Agreement: if this side has nothing against a request of the peer (\<open>lcp_agreeable\<close>),
  it answers the packet the peer's \<open>lcp_addci\<close> builds with an Ack, notes the options as
  the peer stated them, and the Ack it sends is one the peer's \<open>lcp_ackci\<close> accepts.
\<close>

theorem lcp_agreement:
  assumes "codec_ok h" and "types_ok h"
    and "lcp_agreeable h (lcp_allowoptions s) (lcp_gotoptions s) po"
  shows "\<exists>buf. lcp_reqci h r (lcp_addci h po @ pad) (lcp_cilen po) rid s =
      Ret (ConfAck, buf, lcp_cilen po) (s\<lparr>lcp_hisoptions := lcp_heard po\<rparr>) \<and>
    lcp_ackci h po buf (lcp_cilen po)"
proof -
  have len: "lcp_cilen po = int (length (lcp_addci h po))" using length_lcp_addci [OF assms(1)] by simp
  have "\<exists>buf n. lcp_reqci h r (lcp_addci h po @ pad) (lcp_cilen po) rid s = Ret (ConfAck, buf, n)
      (set_mgen (mgen_of s) (s\<lparr>lcp_hisoptions := lcp_heard po\<rparr>)) \<and> n = lcp_cilen po \<and> take (nat n) buf = lcp_addci h po"
    using lcp_reqci_refines [of h "lcp_cilen po" "lcp_addci h po @ pad" _ r s rid]
      spec_agrees [OF assms, of r rid "mgen_of s"] lcp_addci_short [OF assms(1), of _ po] assms(1)
    by (simp add: len answer_body_def)
  then obtain buf where buf: "lcp_reqci h r (lcp_addci h po @ pad) (lcp_cilen po) rid s =
      Ret (ConfAck, buf, lcp_cilen po) (s\<lparr>lcp_hisoptions := lcp_heard po\<rparr>)"
      "take (nat (lcp_cilen po)) buf = lcp_addci h po"
    by (auto simp: set_mgen_def mgen_of_def)
  then have "length (lcp_addci h po) \<le> length buf"
    by (metis len nat_int length_take min.cobounded1)
  with buf show ?thesis using lcp_ackci_iff [OF assms(1), of "lcp_cilen po" buf po] by (auto simp: len)
qed

theorem lcp_agreement_witness:
  "\<exists>buf. lcp_reqci std_hdr (\<lambda>_. 0) [1, 4, 5, 220, 3, 5, 0xc2, 0x23, 5] 9 False
       (ppp_calloc\<lparr>lcp_allowoptions := sample_lcp\<rparr>) =
      Ret (ConfAck, buf, 9) (ppp_calloc\<lparr>lcp_allowoptions := sample_lcp, lcp_hisoptions := sample_lcp\<rparr>) \<and>
    lcp_ackci std_hdr sample_lcp buf 9"
proof -
  have "lcp_heard sample_lcp = sample_lcp" by (simp add: lcp_heard_def sample_lcp_def lcp_zero_def)
  moreover have "lcp_agreeable std_hdr sample_lcp lcp_zero sample_lcp"
    by (simp add: lcp_agreeable_def sample_lcp_def lcp_zero_def std_hdr_def)
  ultimately show ?thesis
    using lcp_agreement [of std_hdr "ppp_calloc\<lparr>lcp_allowoptions := sample_lcp\<rparr>" sample_lcp "\<lambda>_. 0" "[]" False]
    by (simp add: std_ok sample_lcp_addci sample_lcp_cilen ppp_calloc_def)
qed

text \<open>
  A request for a receive unit that is too small is answered with a Nak that contains
  no suggestion: the minimum is written into the packet, but the Nak is taken from another
  buffer, so its length is 0.
\<close>

theorem lcp_small_mru_nak_empty:
  assumes "codec_ok h" and "neg_mru (lcp_allowoptions s)" and "uint m < MINMRU h"
  shows "\<exists>buf. lcp_reqci h r (ADDCISHORT h (CI_MRU h) True m) 4 False s =
     Ret (ConfNak, buf, 0) (s\<lparr>lcp_hisoptions := lcp_zero\<rparr>)"
proof -
  let ?w = "ADDCISHORT h (CI_MRU h) True m"
  have w: "length ?w = 4" using assms(1) by (simp add: ADDCISHORT_def)
  have cis: "split_cis ?w = [?w]" using split_cis_tlv [OF tlv_ADDCI(2) [OF assms(1)], of "CI_MRU h" m "[]"] by simp
  have "ci_answer h r (lcp_allowoptions s) (lcp_gotoptions s) False lcp_zero (mgen_of s) ?w =
      (verdict ConfNak lcp_zero (mgen_of s))\<lparr>v_hint := putshort h (word_of_int (MINMRU h))\<rparr>"
    using assms(2,3) ADDCI_value(1) [OF assms(1)] by (simp add: ci_simps assms(1) reqci_switch_def fed_up_def)
  then show ?thesis
    using lcp_reqci_refines [of h 4 ?w _ r s False] assms(1)
    by (auto simp: w cis worse_Ack answer_body_def set_mgen_def mgen_of_def)
qed

theorem lcp_small_mru_nak_empty_witness:
  "\<exists>buf. lcp_reqci std_hdr (\<lambda>_. 0) (ADDCISHORT std_hdr 1 True 64) 4 False
       (ppp_calloc\<lparr>lcp_allowoptions := lcp_zero\<lparr>neg_mru := True\<rparr>\<rparr>) =
     Ret (ConfNak, buf, 0) (ppp_calloc\<lparr>lcp_allowoptions := lcp_zero\<lparr>neg_mru := True\<rparr>\<rparr>)"
  using lcp_small_mru_nak_empty [of std_hdr "ppp_calloc\<lparr>lcp_allowoptions := lcp_zero\<lparr>neg_mru := True\<rparr>\<rparr>" 64 "\<lambda>_. 0"]
  by (simp add: std_ok std_fields ppp_calloc_def)

end
