(* ===== verification/Ipcp_Options.thy ===== *)
theory Ipcp_Options
  imports Fsm Conf_Options
begin

text \<open>
  The configuration option callbacks of \<open>ipcp.c\<close>: IP addresses (the old option with both
  addresses and the new one) and Van Jacobson header compression (RFC 1332 and the older
  form). The macros and loops correspond to those of \<open>Lcp_Options\<close>; other than there, the
  answer to the peer's request is built in the packet itself.
\<close>

abbreviation (input) CILEN_COMPRESS :: int where "CILEN_COMPRESS \<equiv> 4"
abbreviation (input) CILEN_VJ :: int where "CILEN_VJ \<equiv> 6"
abbreviation (input) CILEN_ADDR :: int where "CILEN_ADDR \<equiv> 6"
abbreviation (input) CILEN_ADDRS :: int where "CILEN_ADDRS \<equiv> 10"

section \<open>Our request\<close>

definition ipcp_resetci :: "(ppp, unit) act" where
  "ipcp_resetci s =
     (let wo = ipcp_wantoptions s;
          w1 = wo\<lparr>req_addr := neg_addr wo \<and> neg_addr (ipcp_allowoptions s)\<rparr>;
          w2 = (if ouraddr w1 = 0 then w1\<lparr>accept_local := True\<rparr> else w1);
          w3 = (if hisaddr w2 = 0 then w2\<lparr>accept_remote := True\<rparr> else w2)
      in Ret () (s\<lparr>ipcp_wantoptions := w3, ipcp_gotoptions := w3, cis_received := 0\<rparr>))"

definition LENCIVJ :: "bool \<Rightarrow> bool \<Rightarrow> int" where
  "LENCIVJ neg old = (if neg then if old then CILEN_COMPRESS else CILEN_VJ else 0)"

definition LENCIADDR :: "bool \<Rightarrow> bool \<Rightarrow> int" where
  "LENCIADDR neg old = (if neg then if old then CILEN_ADDRS else CILEN_ADDR else 0)"

definition ipcp_cilen :: "ipcp_options \<Rightarrow> int" where
  "ipcp_cilen go = LENCIADDR (neg_addr go) (old_addrs go) + LENCIVJ (neg_vj go) (old_vj go)"

text \<open>
  The \<open>ADDCI\<close> macros: the bytes written, the space left, and the new value of \<open>neg\<close>,
  which is cleared when the option does not fit.
\<close>

definition vj_bytes :: "hdr \<Rightarrow> u16 \<Rightarrow> bool \<Rightarrow> u8 \<Rightarrow> u8 \<Rightarrow> bytes" where
  "vj_bytes h val old ms cf =
     [CI_COMPRESSTYPE h, if old then 4 else 6] @ putshort h val @ (if old then [] else [ms, cf])"

definition addr_bytes :: "hdr \<Rightarrow> bool \<Rightarrow> u32 \<Rightarrow> u32 \<Rightarrow> bytes" where
  "addr_bytes h old val1 val2 =
     [if old then CI_ADDRS h else CI_ADDR h, if old then 10 else 6] @
     putlong h (ntohl h val1) @ (if old then putlong h (ntohl h val2) else [])"

definition ADDCIVJ :: "hdr \<Rightarrow> bool \<Rightarrow> u16 \<Rightarrow> bool \<Rightarrow> u8 \<Rightarrow> u8 \<Rightarrow> int \<Rightarrow> bytes \<times> int \<times> bool" where
  "ADDCIVJ h neg val old ms cf len =
     (let vjlen = (if old then CILEN_COMPRESS else CILEN_VJ) in
      if neg then if len \<ge> vjlen then (vj_bytes h val old ms cf, len - vjlen, True) else ([], len, False)
      else ([], len, False))"

definition ADDCIADDR :: "hdr \<Rightarrow> bool \<Rightarrow> bool \<Rightarrow> u32 \<Rightarrow> u32 \<Rightarrow> int \<Rightarrow> bytes \<times> int \<times> bool" where
  "ADDCIADDR h neg old val1 val2 len =
     (let addrlen = (if old then CILEN_ADDRS else CILEN_ADDR) in
      if neg then if len \<ge> addrlen then (addr_bytes h old val1 val2, len - addrlen, True) else ([], len, False)
      else ([], len, False))"

text \<open>The change to the old forms of the options.\<close>

definition older_forms :: "ipcp_options \<Rightarrow> ipcp_options \<Rightarrow> int \<Rightarrow> ipcp_options \<Rightarrow> ipcp_options" where
  "older_forms wo ho received go =
     (let g1 = (if neg_addr wo \<and> \<not> neg_addr go \<and> \<not> old_addrs go
                then go\<lparr>neg_addr := True, old_addrs := True\<rparr> else go)
      in if neg_vj wo \<and> \<not> neg_vj g1 \<and> \<not> old_vj g1
         then if received = 0 then g1\<lparr>neg_vj := True\<rparr>
              else if neg_vj ho \<and> old_vj ho
              then g1\<lparr>neg_vj := True, old_vj := True, vj_protocol := vj_protocol ho\<rparr> else g1
         else g1)"

definition ipcp_addci :: "hdr \<Rightarrow> int \<Rightarrow> (ppp, bytes \<times> int) act" where
  "ipcp_addci h len0 s =
     (let go = older_forms (ipcp_wantoptions s) (ipcp_hisoptions s) (cis_received s) (ipcp_gotoptions s);
          (b1, len1, n1) = ADDCIADDR h (neg_addr go) (old_addrs go) (ouraddr go) (hisaddr go) len0;
          g1 = go\<lparr>neg_addr := n1\<rparr>;
          (b2, len2, n2) = ADDCIVJ h (neg_vj g1) (vj_protocol g1) (old_vj g1) (maxslotindex g1) (cflag g1) len1
      in Ret (b1 @ b2, len0 - len2) (s\<lparr>ipcp_gotoptions := g1\<lparr>neg_vj := n2\<rparr>\<rparr>))"

section \<open>The peer acknowledges it\<close>

definition ACKCIVJ :: "hdr \<Rightarrow> bool \<Rightarrow> u16 \<Rightarrow> bool \<Rightarrow> u8 \<Rightarrow> u8 \<Rightarrow> cursor \<Rightarrow> cursor option" where
  "ACKCIVJ h neg val old ms cf =
     ACKCI (CI_COMPRESSTYPE h) (if old then 4 else 6) neg
       (\<lambda>p. rdshort h p 2 = val \<and> (\<not> old \<longrightarrow> rd p 4 = ms \<and> rd p 5 = cf))"

definition ACKCIADDR :: "hdr \<Rightarrow> bool \<Rightarrow> bool \<Rightarrow> u32 \<Rightarrow> u32 \<Rightarrow> cursor \<Rightarrow> cursor option" where
  "ACKCIADDR h neg old val1 val2 =
     ACKCI (if old then CI_ADDRS h else CI_ADDR h) (if old then 10 else 6) neg
       (\<lambda>p. val1 = htonl h (rdlong h p 2) \<and> (old \<longrightarrow> val2 = htonl h (rdlong h p 6)))"

definition ipcp_ackci :: "hdr \<Rightarrow> ipcp_options \<Rightarrow> bytes \<Rightarrow> int \<Rightarrow> bool" where
  "ipcp_ackci h go p len =
     (case seq_opt [ACKCIADDR h (neg_addr go) (old_addrs go) (ouraddr go) (hisaddr go),
           ACKCIVJ h (neg_vj go) (vj_protocol go) (old_vj go) (maxslotindex go) (cflag go)] (p, len) of
        None \<Rightarrow> False
      | Some (_, rest) \<Rightarrow> rest = 0)"

section \<open>The peer naks some of it\<close>

record ipcp_nak =
  ip :: bytes
  ilen :: int
  ino :: ipcp_options
  itry :: ipcp_options

text \<open>Take over a suggested address where we accept suggestions and it is not zero.\<close>

definition take_our :: "ipcp_options \<Rightarrow> u32 \<Rightarrow> ipcp_options \<Rightarrow> ipcp_options" where
  "take_our go a try = (if accept_local go \<and> a \<noteq> 0 then try\<lparr>ouraddr := a\<rparr> else try)"

definition take_his :: "ipcp_options \<Rightarrow> u32 \<Rightarrow> ipcp_options \<Rightarrow> ipcp_options" where
  "take_his go a try = (if accept_remote go \<and> a \<noteq> 0 then try\<lparr>hisaddr := a\<rparr> else try)"

definition NAKCIADDR :: "hdr \<Rightarrow> ipcp_options \<Rightarrow> ipcp_nak \<Rightarrow> ipcp_nak" where
  "NAKCIADDR h go n =
     (let cl = (if old_addrs go then CILEN_ADDRS else CILEN_ADDR); p = ip n in
      if neg_addr go \<and> ilen n \<ge> cl \<and> uint (rd p 1) = cl \<and> rd p 0 = CI_ADDR h
      then let ciaddr1 = htonl h (rdlong h p 2);
               ciaddr2 = (if old_addrs go then htonl h (rdlong h p 6) else 0);
               no = (if old_addrs go then (ino n)\<lparr>old_addrs := True\<rparr> else ino n)
           in n\<lparr>ip := drop (nat cl) p, ilen := ilen n - cl, ino := no\<lparr>neg_addr := True\<rparr>,
                itry := take_his go ciaddr2 (take_our go ciaddr1 (itry n))\<rparr>
      else n)"

definition NAKCIVJ :: "hdr \<Rightarrow> ipcp_options \<Rightarrow> ipcp_nak \<Rightarrow> ipcp_nak" where
  "NAKCIVJ h go n =
     (let p = ip n; cl = uint (rd p 1) in
      if neg_vj go \<and> (cl = CILEN_COMPRESS \<or> cl = CILEN_VJ) \<and> ilen n \<ge> cl \<and> rd p 0 = CI_COMPRESSTYPE h
      then let cishort = rdshort h p 2; try = itry n;
               try' = (if cl = CILEN_VJ
                 then if cishort = IPCP_VJ_COMP h
                      then let t1 = try\<lparr>old_vj := False\<rparr>;
                               t2 = (if rd p 4 < maxslotindex go then t1\<lparr>maxslotindex := rd p 4\<rparr> else t1)
                           in if rd p 5 = 0 then t2\<lparr>cflag := 0\<rparr> else t2
                      else try\<lparr>neg_vj := False\<rparr>
                 else if cishort = IPCP_VJ_COMP h \<or> cishort = IPCP_VJ_COMP_OLD h
                      then try\<lparr>old_vj := True, vj_protocol := cishort\<rparr>
                      else try\<lparr>neg_vj := False\<rparr>)
           in n\<lparr>ip := drop (nat cl) p, ilen := ilen n - cl, ino := (ino n)\<lparr>neg_vj := True\<rparr>, itry := try'\<rparr>
      else n)"

text \<open>The \<open>switch\<close> on an option we did not ask for; \<open>None\<close> is \<open>goto bad\<close>.\<close>

definition ipcp_nak_extra :: "hdr \<Rightarrow> ipcp_options \<Rightarrow> bytes \<Rightarrow> int \<Rightarrow> ipcp_nak \<Rightarrow> ipcp_nak option" where
  "ipcp_nak_extra h go p cl n =
     (if rd p 0 = CI_COMPRESSTYPE h then
        (if neg_vj go \<or> neg_vj (ino n) \<or> (cl \<noteq> CILEN_VJ \<and> cl \<noteq> CILEN_COMPRESS) then None
         else Some (n\<lparr>ino := (ino n)\<lparr>neg_vj := True\<rparr>\<rparr>))
      else if rd p 0 = CI_ADDRS h then
        (if (neg_addr go \<and> old_addrs go) \<or> old_addrs (ino n) \<or> cl \<noteq> CILEN_ADDRS then None
         else Some (n\<lparr>itry := take_his go (htonl h (rdlong h p 6))
                       (take_our go (htonl h (rdlong h p 2)) ((itry n)\<lparr>neg_addr := True, old_addrs := True\<rparr>)),
                      ino := (ino n)\<lparr>old_addrs := True\<rparr>\<rparr>))
      else if rd p 0 = CI_ADDR h then
        (if neg_addr go \<or> neg_addr (ino n) \<or> cl \<noteq> CILEN_ADDR then None
         else Some (n\<lparr>itry := take_our go (htonl h (rdlong h p 2)) ((itry n)\<lparr>neg_addr := True, old_addrs := False\<rparr>),
                      ino := (ino n)\<lparr>neg_addr := True\<rparr>\<rparr>))
      else None)"

lemma nak_extra_cl: "ipcp_nak_extra h go p cl n = Some n' \<Longrightarrow> 0 < cl \<and> ilen n' = ilen n"
  by (auto simp: ipcp_nak_extra_def split: if_splits)

function ipcp_nak_rest :: "hdr \<Rightarrow> ipcp_options \<Rightarrow> ipcp_nak \<Rightarrow> ipcp_nak option" where
  "ipcp_nak_rest h go n =
     (if ilen n > CILEN_VOID
      then let cl = uint (rd (ip n) 1) in
           if ilen n - cl < 0 then None
           else (case ipcp_nak_extra h go (ip n) cl n of
                   None \<Rightarrow> None
                 | Some n1 \<Rightarrow> ipcp_nak_rest h go (n1\<lparr>ip := drop (nat cl) (ip n), ilen := ilen n - cl\<rparr>))
      else Some n)"
  by pat_completeness auto
termination
  by (relation "measure (\<lambda>(_, _, n). nat (ilen n))") (auto dest!: nak_extra_cl)

declare ipcp_nak_rest.simps [simp del]

definition ipcp_nakci :: "hdr \<Rightarrow> bytes \<Rightarrow> int \<Rightarrow> (ppp, bool) act" where
  "ipcp_nakci h p len s =
     (let go = ipcp_gotoptions s in
      case ipcp_nak_rest h go (NAKCIVJ h go (NAKCIADDR h go
             \<lparr>ip = p, ilen = len, ino = ipcp_zero, itry = go\<rparr>)) of
        None \<Rightarrow> Ret False s
      | Some n \<Rightarrow> if ilen n \<noteq> 0 then Ret False s
                  else Ret True (if fstate (ipcp_fsm s) \<noteq> OPENED then s\<lparr>ipcp_gotoptions := itry n\<rparr> else s))"

section \<open>The peer rejects some of it\<close>

text \<open>
  The rejection of the address takes down the link (\<open>die\<close>) before its value is compared.
\<close>

definition REJCIADDR :: "env \<Rightarrow> bytes \<Rightarrow> int \<Rightarrow> ipcp_options \<Rightarrow> (ppp, (cursor \<times> ipcp_options) option) act" where
  "REJCIADDR E p len try s =
     (let h = eh E; go = ipcp_gotoptions s; cl = (if old_addrs go then CILEN_ADDRS else CILEN_ADDR) in
      if neg_addr go \<and> len \<ge> cl \<and> uint (rd p 1) = cl
         \<and> rd p 0 = (if old_addrs go then CI_ADDRS h else CI_ADDR h)
      then bnd (die_fn E) (\<lambda>_ s. let go = ipcp_gotoptions s in
             Ret (if htonl h (rdlong h p 2) \<noteq> ouraddr go then None
                  else if old_addrs go \<and> htonl h (rdlong h p 6) \<noteq> hisaddr go then None
                  else Some ((drop (nat cl) p, len - cl), try\<lparr>neg_addr := False\<rparr>)) s) s
      else Ret (Some ((p, len), try)) s)"

definition REJCIVJ :: "hdr \<Rightarrow> ipcp_options \<Rightarrow> cursor \<times> ipcp_options \<Rightarrow> (cursor \<times> ipcp_options) option" where
  "REJCIVJ h go =
     REJCI (CI_COMPRESSTYPE h) (if old_vj go then CILEN_COMPRESS else CILEN_VJ) (neg_vj go)
       (\<lambda>p. rdshort h p 2 = vj_protocol go \<and>
            (\<not> old_vj go \<longrightarrow> rd p 4 = maxslotindex go \<and> rd p 5 = cflag go))
       (\<lambda>try. try\<lparr>neg_vj := False\<rparr>)"

definition ipcp_rejci :: "env \<Rightarrow> bytes \<Rightarrow> int \<Rightarrow> (ppp, bool) act" where
  "ipcp_rejci E p len s =
     bnd (REJCIADDR E p len (ipcp_gotoptions s)) (\<lambda>r s.
       case Option.bind r (REJCIVJ (eh E) (ipcp_gotoptions s)) of
         None \<Rightarrow> Ret False s
       | Some ((_, rest), try) \<Rightarrow>
           if rest \<noteq> 0 then Ret False s
           else Ret True (if fstate (ipcp_fsm s) \<noteq> OPENED then s\<lparr>ipcp_gotoptions := try\<rparr> else s)) s"

section \<open>The peer's request\<close>

text \<open>
  The \<open>switch\<close> of \<open>ipcp_reqci\<close>: the verdict, what is written into the option (offset from its
  type octet, and bytes), and the new values of \<open>*ho\<close> and \<open>*go\<close>.
\<close>

record ipcp_verdict =
  iv_orc :: ccode
  iv_edits :: "(nat \<times> bytes) list"
  iv_ho :: ipcp_options
  iv_go :: ipcp_options

abbreviation (input) iverdict :: "ccode \<Rightarrow> (nat \<times> bytes) list \<Rightarrow> ipcp_options \<Rightarrow> ipcp_options \<Rightarrow> ipcp_verdict" where
  "iverdict c es ho go \<equiv> \<lparr>iv_orc = c, iv_edits = es, iv_ho = ho, iv_go = go\<rparr>"

text \<open>Whether the peer's idea of its own address is to be corrected.\<close>

definition nak_his :: "ipcp_options \<Rightarrow> u32 \<Rightarrow> bool" where
  "nak_his wo a \<longleftrightarrow> a \<noteq> hisaddr wo \<and> (a = 0 \<or> \<not> accept_remote wo)"

definition hint_his :: "hdr \<Rightarrow> ipcp_options \<Rightarrow> (nat \<times> bytes) list" where
  "hint_his h wo = [(2, putlong h (ntohl h (hisaddr wo)))]"

definition reqci_addrs :: "hdr \<Rightarrow> ipcp_options \<Rightarrow> ipcp_options \<Rightarrow> bool \<Rightarrow> ipcp_options \<Rightarrow> ipcp_options \<Rightarrow>
    bytes \<Rightarrow> u8 \<Rightarrow> ipcp_verdict" where
  "reqci_addrs h wo ao rid ho go p cl =
     (if \<not> neg_addr ao \<or> uint cl \<noteq> CILEN_ADDRS then iverdict ConfRej [] ho go
      else let ciaddr1 = htonl h (rdlong h p 2); ciaddr2 = htonl h (rdlong h p 6);
               n1 = nak_his wo ciaddr1;
               n2 = (ciaddr2 \<noteq> ouraddr wo \<and> (ciaddr2 = 0 \<or> \<not> accept_local wo));
               e1 = (if n1 \<and> \<not> rid then hint_his h wo else []);
               e2 = (if n2 \<and> \<not> rid then [(6, putlong h (ntohl h (ouraddr wo)))] else []);
               go' = (if ciaddr2 \<noteq> ouraddr wo \<and> \<not> n2 then go\<lparr>ouraddr := ciaddr2\<rparr> else go)
           in iverdict (if n1 \<or> n2 then ConfNak else ConfAck) (e1 @ e2)
                (ho\<lparr>neg_addr := True, old_addrs := True, hisaddr := ciaddr1, ouraddr := ciaddr2\<rparr>) go')"

definition reqci_addr :: "hdr \<Rightarrow> ipcp_options \<Rightarrow> ipcp_options \<Rightarrow> bool \<Rightarrow> ipcp_options \<Rightarrow> ipcp_options \<Rightarrow>
    bytes \<Rightarrow> u8 \<Rightarrow> ipcp_verdict" where
  "reqci_addr h wo ao rid ho go p cl =
     (if \<not> neg_addr ao \<or> uint cl \<noteq> CILEN_ADDR then iverdict ConfRej [] ho go
      else let ciaddr1 = htonl h (rdlong h p 2); n1 = nak_his wo ciaddr1 in
           iverdict (if n1 then ConfNak else ConfAck) (if n1 \<and> \<not> rid then hint_his h wo else [])
             (ho\<lparr>neg_addr := True, hisaddr := ciaddr1\<rparr>) go)"

definition reqci_compress :: "hdr \<Rightarrow> ipcp_options \<Rightarrow> ipcp_options \<Rightarrow> bool \<Rightarrow> ipcp_options \<Rightarrow> ipcp_options \<Rightarrow>
    bytes \<Rightarrow> u8 \<Rightarrow> ipcp_verdict" where
  "reqci_compress h wo ao rid ho go p cl =
     (let cishort = rdshort h p 2 in
      if \<not> neg_vj ao \<or> (uint cl \<noteq> CILEN_VJ \<and> uint cl \<noteq> CILEN_COMPRESS) then iverdict ConfRej [] ho go
      else if \<not> (cishort = IPCP_VJ_COMP h \<or> (cishort = IPCP_VJ_COMP_OLD h \<and> uint cl = CILEN_COMPRESS))
        then iverdict ConfRej [] ho go
      else let ho1 = ho\<lparr>neg_vj := True, vj_protocol := cishort\<rparr> in
        if uint cl = CILEN_VJ then
          (let n1 = (rd p 4 > maxslotindex ao);
               n2 = (rd p 5 \<noteq> 0 \<and> cflag ao = 0);
               e1 = (if n1 \<and> \<not> rid then [(4, [maxslotindex ao])] else []);
               e2 = (if n2 \<and> \<not> rid then [(5, [cflag wo])] else [])
           in iverdict (if n1 \<or> n2 then ConfNak else ConfAck) (e1 @ e2)
                (ho1\<lparr>maxslotindex := rd p 4, cflag := cflag wo\<rparr>) go)
        else iverdict ConfAck [] (ho1\<lparr>old_vj := True, maxslotindex := MAX_STATES h - 1, cflag := 1\<rparr>) go)"

definition ipcp_switch :: "hdr \<Rightarrow> ipcp_options \<Rightarrow> ipcp_options \<Rightarrow> bool \<Rightarrow> ipcp_options \<Rightarrow> ipcp_options \<Rightarrow>
    bytes \<Rightarrow> u8 \<Rightarrow> u8 \<Rightarrow> ipcp_verdict" where
  "ipcp_switch h wo ao rid ho go p citype cl =
     (if citype = CI_ADDRS h then reqci_addrs h wo ao rid ho go p cl
      else if citype = CI_ADDR h then reqci_addr h wo ao rid ho go p cl
      else if citype = CI_COMPRESSTYPE h then reqci_compress h wo ao rid ho go p cl
      else iverdict ConfRej [] ho go)"

record ipcp_req =
  r_buf :: bytes
  r_l :: int
  r_next :: nat
  r_ucp :: nat
  r_ho :: ipcp_options
  r_go :: ipcp_options
  r_rc :: ccode

definition apply_edits :: "nat \<Rightarrow> (nat \<times> bytes) list \<Rightarrow> bytes \<Rightarrow> bytes" where
  "apply_edits base es buf = fold (\<lambda>(off, bs). put_at (base + off) bs) es buf"

text \<open>
  From \<open>endswitch\<close> to the end of the loop body: the option is kept in the answer unless the
  answer already has a worse code; the first worse one starts the answer over.
\<close>

definition keep_ci :: "nat \<Rightarrow> nat \<Rightarrow> ipcp_req \<Rightarrow> ipcp_req" where
  "keep_ci cip cl q =
     q\<lparr>r_buf := (if r_ucp q \<noteq> cip then bcopy_in cip (r_ucp q) cl (r_buf q) else r_buf q),
       r_ucp := r_ucp q + cl\<rparr>"

definition ipcp_endswitch :: "bool \<Rightarrow> ccode \<Rightarrow> nat \<Rightarrow> nat \<Rightarrow> ipcp_req \<Rightarrow> ipcp_req" where
  "ipcp_endswitch rid orc cip cl q =
     (let orc1 = (if orc = ConfNak \<and> rid then ConfRej else orc) in
      if orc = ConfAck \<and> r_rc q \<noteq> ConfAck then q
      else if orc1 = ConfNak \<and> r_rc q = ConfRej then q
      else if orc1 = ConfNak \<and> r_rc q = ConfAck then keep_ci cip cl (q\<lparr>r_rc := ConfNak, r_ucp := 0\<rparr>)
      else if orc1 = ConfRej \<and> r_rc q \<noteq> ConfRej then keep_ci cip cl (q\<lparr>r_rc := ConfRej, r_ucp := 0\<rparr>)
      else keep_ci cip cl q)"

lemma keep_ci_frame [simp]:
  "r_l (keep_ci cip cl q) = r_l q" "r_ho (keep_ci cip cl q) = r_ho q" "r_go (keep_ci cip cl q) = r_go q"
  "r_next (keep_ci cip cl q) = r_next q" "r_rc (keep_ci cip cl q) = r_rc q"
  by (simp_all add: keep_ci_def)

definition ipcp_body :: "hdr \<Rightarrow> ipcp_options \<Rightarrow> ipcp_options \<Rightarrow> bool \<Rightarrow> ipcp_req \<Rightarrow> ipcp_req" where
  "ipcp_body h wo ao rid q =
     (let cip = r_next q; p = drop cip (r_buf q) in
      if bad_ci p (r_l q)
      then ipcp_endswitch rid ConfRej cip (nat (r_l q mod 2 ^ 16)) (q\<lparr>r_l := 0\<rparr>)
      else let v = ipcp_switch h wo ao rid (r_ho q) (r_go q) p (rd p 0) (rd p 1)
           in ipcp_endswitch rid (iv_orc v) cip (unat (rd p 1))
                (q\<lparr>r_l := r_l q - uint (rd p 1), r_next := cip + unat (rd p 1),
                   r_buf := apply_edits cip (iv_edits v) (r_buf q), r_ho := iv_ho v, r_go := iv_go v\<rparr>))"

lemma ipcp_endswitch_l [simp]: "r_l (ipcp_endswitch rid orc cip cl q) = r_l q"
  by (simp add: ipcp_endswitch_def Let_def)

lemma ipcp_body_l:
  "r_l (ipcp_body h wo ao rid q) =
     (if bad_ci (drop (r_next q) (r_buf q)) (r_l q) then 0
      else r_l q - uint (rd (drop (r_next q) (r_buf q)) 1))"
  by (simp add: ipcp_body_def Let_def)

function ipcp_loop :: "hdr \<Rightarrow> ipcp_options \<Rightarrow> ipcp_options \<Rightarrow> bool \<Rightarrow> ipcp_req \<Rightarrow> ipcp_req" where
  "ipcp_loop h wo ao rid q =
     (if r_l q = 0 then q else ipcp_loop h wo ao rid (ipcp_body h wo ao rid q))"
  by pat_completeness auto
termination
  by (relation "measure (\<lambda>(_, _, _, _, q). nat \<bar>r_l q\<bar>)")
    (auto simp: ipcp_body_l bad_ci_def)

declare ipcp_loop.simps [simp del]

text \<open>After the loop: ask for the peer's address if the request did not have it.\<close>

definition ask_addr :: "hdr \<Rightarrow> bool \<Rightarrow> ipcp_req \<Rightarrow> ipcp_options \<Rightarrow> ipcp_req \<times> ipcp_options" where
  "ask_addr h rid q wo =
     (if r_rc q \<noteq> ConfRej \<and> \<not> neg_addr (r_ho q) \<and> req_addr wo \<and> \<not> rid
      then let (q1, wo1) = (if r_rc q = ConfAck
                 then (q\<lparr>r_rc := ConfNak, r_ucp := 0\<rparr>, wo\<lparr>req_addr := False\<rparr>) else (q, wo))
           in (q1\<lparr>r_buf := put_at (r_ucp q1) ([CI_ADDR h, 6] @ putlong h (ntohl h (hisaddr wo))) (r_buf q1),
                  r_ucp := r_ucp q1 + 6\<rparr>, wo1)
      else (q, wo))"

definition ipcp_reqci :: "hdr \<Rightarrow> bytes \<Rightarrow> int \<Rightarrow> bool \<Rightarrow> (ppp, ccode \<times> bytes \<times> int) act" where
  "ipcp_reqci h inp len rid s =
     (let wo = ipcp_wantoptions s;
          q = ipcp_loop h wo (ipcp_allowoptions s) rid
                \<lparr>r_buf = inp, r_l = len, r_next = 0, r_ucp = 0, r_ho = ipcp_zero,
                 r_go = ipcp_gotoptions s, r_rc = ConfAck\<rparr>;
          (q1, wo1) = ask_addr h rid q wo
      in Ret (r_rc q1, r_buf q1, int (r_ucp q1))
           (s\<lparr>ipcp_hisoptions := r_ho q1, ipcp_gotoptions := r_go q1, ipcp_wantoptions := wo1\<rparr>))"

end
