(* ===== verification/Ipcp_Options_Spec.thy ===== *)
theory Ipcp_Options_Spec
  imports Ipcp_Options
begin

text \<open>
  The option callbacks of \<open>ipcp.c\<close> against their specification: what our request contains
  and that exactly it is acknowledged, when a Nak is understood, and the answer to the
  peer's request as the fold of the verdicts on its options.
\<close>

section \<open>Our request and its acknowledgement\<close>

definition ipcp_bytes :: "hdr \<Rightarrow> ipcp_options \<Rightarrow> bytes" where
  "ipcp_bytes h go =
     (if neg_addr go then addr_bytes h (old_addrs go) (ouraddr go) (hisaddr go) else []) @
     (if neg_vj go then vj_bytes h (vj_protocol go) (old_vj go) (maxslotindex go) (cflag go) else [])"

lemma length_ipcp_bytes: "codec_ok h \<Longrightarrow> int (length (ipcp_bytes h go)) = ipcp_cilen go"
  by (simp add: ipcp_bytes_def ipcp_cilen_def addr_bytes_def vj_bytes_def LENCIADDR_def LENCIVJ_def)

lemma htonl_eq_iff: "codec_ok h \<Longrightarrow> x = htonl h y \<longleftrightarrow> y = ntohl h x"
  by (metis codec_lengths(7,8))

lemma addr_value:
  assumes "codec_ok h"
  shows "6 \<le> length p \<Longrightarrow> a = htonl h (rdlong h p 2) \<longleftrightarrow> take 4 (drop 2 p) = putlong h (ntohl h a)"
    "10 \<le> length p \<Longrightarrow> a = htonl h (rdlong h p 2) \<and> b = htonl h (rdlong h p 6) \<longleftrightarrow>
      take 8 (drop 2 p) = putlong h (ntohl h a) @ putlong h (ntohl h b)"
  using assms rdlong_iff [of h 2 p "ntohl h a"] rdlong_iff [of h 6 p "ntohl h b"]
    take_eq_append_iff [of "putlong h (ntohl h a)" "drop 2 p" "putlong h (ntohl h b)"]
  by (simp_all add: htonl_eq_iff)

lemma vj_value:
  assumes "codec_ok h" and "6 \<le> length p"
  shows "rdshort h p 2 = v \<and> rd p 4 = a \<and> rd p 5 = b \<longleftrightarrow> take 4 (drop 2 p) = putshort h v @ [a, b]"
proof -
  have "take 4 (drop 2 p) = take 2 (drop 2 p) @ take 2 (drop 4 p)"
    using take_add [of 2 2 "drop 2 p"] by simp
  also have "take 2 (drop 4 p) = [rd p 4, rd p 5]"
    using take2_drop [of 4 p] assms(2) by simp
  finally show ?thesis using assms by (auto simp: rd2_iff)
qed

lemma consumes_ACKCIADDR:
  assumes "codec_ok h"
  shows "consumes (if neg then addr_bytes h old a b else []) (ACKCIADDR h neg old a b)"
proof (cases old)
  case True
  have "consumes (if neg then [CI_ADDRS h, 10] @ (putlong h (ntohl h a) @ putlong h (ntohl h b)) else [])
      (ACKCI (CI_ADDRS h) 10 neg (\<lambda>p. a = htonl h (rdlong h p 2) \<and> b = htonl h (rdlong h p 6)))"
    by (rule consumes_ACKCI) (use assms addr_value(2) [OF assms] in simp_all)
  then show ?thesis using True by (cases neg) (simp_all add: ACKCIADDR_def addr_bytes_def)
next
  case False
  have "consumes (if neg then [CI_ADDR h, 6] @ putlong h (ntohl h a) else [])
      (ACKCI (CI_ADDR h) 6 neg (\<lambda>p. a = htonl h (rdlong h p 2)))"
    by (rule consumes_ACKCI) (use assms addr_value(1) [OF assms] in simp_all)
  then show ?thesis using False by (cases neg) (simp_all add: ACKCIADDR_def addr_bytes_def)
qed

lemma consumes_ACKCIVJ:
  assumes "codec_ok h"
  shows "consumes (if neg then vj_bytes h v old a b else []) (ACKCIVJ h neg v old a b)"
proof (cases old)
  case True
  have "consumes (if neg then [CI_COMPRESSTYPE h, 4] @ putshort h v else [])
      (ACKCI (CI_COMPRESSTYPE h) 4 neg (\<lambda>p. rdshort h p 2 = v))"
    by (rule consumes_ACKCI) (use assms in \<open>simp_all add: rd2_iff\<close>)
  then show ?thesis using True by (cases neg) (simp_all add: ACKCIVJ_def vj_bytes_def)
next
  case False
  have "consumes (if neg then [CI_COMPRESSTYPE h, 6] @ (putshort h v @ [a, b]) else [])
      (ACKCI (CI_COMPRESSTYPE h) 6 neg (\<lambda>p. rdshort h p 2 = v \<and> rd p 4 = a \<and> rd p 5 = b))"
    by (rule consumes_ACKCI) (use assms vj_value [OF assms] in simp_all)
  then show ?thesis using False by (cases neg) (simp_all add: ACKCIVJ_def vj_bytes_def)
qed

lemma ipcp_ackci_iff:
  assumes "codec_ok h" and "0 \<le> len" and "len \<le> int (length p)"
  shows "ipcp_ackci h go p len \<longleftrightarrow> take (nat len) p = ipcp_bytes h go \<and> len = ipcp_cilen go"
proof -
  have "consumes (concat [if neg_addr go then addr_bytes h (old_addrs go) (ouraddr go) (hisaddr go) else [],
      if neg_vj go then vj_bytes h (vj_protocol go) (old_vj go) (maxslotindex go) (cflag go) else []])
      (seq_opt [ACKCIADDR h (neg_addr go) (old_addrs go) (ouraddr go) (hisaddr go),
        ACKCIVJ h (neg_vj go) (vj_protocol go) (old_vj go) (maxslotindex go) (cflag go)])"
    by (intro consumes_seq list.rel_intros consumes_ACKCIADDR consumes_ACKCIVJ assms(1))
  from consumes_all [OF this assms(2,3)] show ?thesis
    using length_ipcp_bytes [OF assms(1), of go] by (simp add: ipcp_ackci_def ipcp_bytes_def)
qed

text \<open>
  The request is built in the space \<open>ipcp_cilen\<close> computed, which does not account for the
  change to the old forms: an option that was not requested before is not requested now.
\<close>

lemma older_forms_fields:
  "ouraddr (older_forms wo ho n go) = ouraddr go" "hisaddr (older_forms wo ho n go) = hisaddr go"
  "maxslotindex (older_forms wo ho n go) = maxslotindex go" "cflag (older_forms wo ho n go) = cflag go"
  "neg_addr go \<Longrightarrow> neg_addr (older_forms wo ho n go) \<and> old_addrs (older_forms wo ho n go) = old_addrs go"
  "neg_vj go \<Longrightarrow> neg_vj (older_forms wo ho n go) \<and> old_vj (older_forms wo ho n go) = old_vj go
     \<and> vj_protocol (older_forms wo ho n go) = vj_protocol go"
  "\<not> neg_addr go \<Longrightarrow> neg_addr (older_forms wo ho n go) \<Longrightarrow> old_addrs (older_forms wo ho n go)"
  by (simp_all add: older_forms_def Let_def split: if_splits)

lemma ADDCIADDR_request:
  assumes "go1 = older_forms wo ho n go"
  shows "ADDCIADDR h (neg_addr go1) (old_addrs go1) (ouraddr go1) (hisaddr go1) (ipcp_cilen go) =
    (if neg_addr go then addr_bytes h (old_addrs go) (ouraddr go) (hisaddr go) else [],
     LENCIVJ (neg_vj go) (old_vj go), neg_addr go)"
  using assms older_forms_fields [where wo = wo and ho = ho and n = n and go = go]
  by (auto simp: ADDCIADDR_def ipcp_cilen_def LENCIADDR_def LENCIVJ_def Let_def)

lemma ADDCIVJ_request:
  assumes "go1 = older_forms wo ho n go"
  shows "ADDCIVJ h (neg_vj go1) (vj_protocol go1) (old_vj go1) (maxslotindex go1) (cflag go1)
      (LENCIVJ (neg_vj go) (old_vj go)) =
    (if neg_vj go then vj_bytes h (vj_protocol go) (old_vj go) (maxslotindex go) (cflag go) else [],
     0, neg_vj go)"
  using assms older_forms_fields [where wo = wo and ho = ho and n = n and go = go]
  by (auto simp: ADDCIVJ_def LENCIVJ_def Let_def)

text \<open>
  The request of IPCP: given the space that \<open>ipcp_cilen\<close> computed, \<open>ipcp_addci\<close> writes the
  options we want, as they stood before the call, and fills the space exactly. The change to
  the old forms of the options, which it makes after the space was computed, therefore never
  reaches the peer: a flag it sets is cleared again because the option does not fit.
\<close>

theorem ipcp_addci_request:
  "\<exists>go'. ipcp_addci h (ipcp_cilen (ipcp_gotoptions s)) s =
      Ret (ipcp_bytes h (ipcp_gotoptions s), ipcp_cilen (ipcp_gotoptions s)) (s\<lparr>ipcp_gotoptions := go'\<rparr>)
    \<and> neg_addr go' = neg_addr (ipcp_gotoptions s) \<and> neg_vj go' = neg_vj (ipcp_gotoptions s)
    \<and> ipcp_bytes h go' = ipcp_bytes h (ipcp_gotoptions s)"
proof -
  let ?go = "ipcp_gotoptions s"
  define go1 where "go1 = older_forms (ipcp_wantoptions s) (ipcp_hisoptions s) (cis_received s) ?go"
  let ?go' = "go1\<lparr>neg_addr := neg_addr ?go, neg_vj := neg_vj ?go\<rparr>"
  have "ipcp_addci h (ipcp_cilen ?go) s = Ret (ipcp_bytes h ?go, ipcp_cilen ?go) (s\<lparr>ipcp_gotoptions := ?go'\<rparr>)"
    using ADDCIADDR_request [OF go1_def, of h] ADDCIVJ_request [OF go1_def, of h]
    by (simp add: ipcp_addci_def ipcp_bytes_def flip: go1_def)
  moreover have "ipcp_bytes h ?go' = ipcp_bytes h ?go"
    using older_forms_fields [where wo = "ipcp_wantoptions s" and ho = "ipcp_hisoptions s" and n = "cis_received s" and go = ?go]
    by (auto simp: ipcp_bytes_def simp flip: go1_def)
  ultimately show ?thesis by (intro exI [of _ ?go']) simp
qed

section \<open>The peer's request: specification\<close>

text \<open>
  Every option gets a verdict; a Nak becomes a Reject when we are fed up. The answer
  consists of the options with the worst verdict, with our suggestions written into them.
\<close>

definition ipcp_answer :: "hdr \<Rightarrow> ipcp_options \<Rightarrow> ipcp_options \<Rightarrow> bool \<Rightarrow> ipcp_options \<Rightarrow> ipcp_options \<Rightarrow>
    bytes \<Rightarrow> ipcp_verdict" where
  "ipcp_answer h wo ao rid ho go ci =
     (if bad_ci ci (int (length ci)) then iverdict ConfRej [] ho go
      else let v = ipcp_switch h wo ao rid ho go ci (rd ci 0) (rd ci 1)
           in v\<lparr>iv_orc := if iv_orc v = ConfNak \<and> rid then ConfRej else iv_orc v\<rparr>)"

fun ipcp_answers :: "hdr \<Rightarrow> ipcp_options \<Rightarrow> ipcp_options \<Rightarrow> bool \<Rightarrow> ipcp_options \<Rightarrow> ipcp_options \<Rightarrow>
    bytes list \<Rightarrow> (ccode \<times> bytes) list \<times> ipcp_options \<times> ipcp_options" where
  "ipcp_answers h wo ao rid ho go [] = ([], ho, go)"
| "ipcp_answers h wo ao rid ho go (ci # cis) =
     (let v = ipcp_answer h wo ao rid ho go ci;
          (as, ho', go') = ipcp_answers h wo ao rid (iv_ho v) (iv_go v) cis
      in ((iv_orc v, apply_edits 0 (iv_edits v) ci) # as, ho', go'))"

definition answers_code :: "(ccode \<times> bytes) list \<Rightarrow> ccode" where
  "answers_code as = fold (\<lambda>a c. worse c (fst a)) as ConfAck"

definition answers_body :: "ccode \<Rightarrow> (ccode \<times> bytes) list \<Rightarrow> bytes" where
  "answers_body c as = concat (map snd (filter (\<lambda>a. fst a = c) as))"

section \<open>Edits\<close>

lemma put_at_append:
  "off + length bs \<le> length w \<Longrightarrow> put_at (length a + off) bs (a @ w @ z) = a @ put_at off bs w @ z"
  by (simp add: put_at_def)

lemma put_at_window:
  assumes "off + length bs \<le> n" and "base + n \<le> length buf"
  shows "take n (drop base (put_at (base + off) bs buf)) = put_at off bs (take n (drop base buf))"
    "take base (put_at (base + off) bs buf) = take base buf"
    "drop (base + n) (put_at (base + off) bs buf) = drop (base + n) buf"
    "length (put_at (base + off) bs buf) = length buf"
proof -
  let ?a = "take base buf" and ?w = "take n (drop base buf)" and ?z = "drop (base + n) buf"
  have buf: "buf = ?a @ ?w @ ?z"
    by (metis append_take_drop_id drop_drop add.commute)
  have l: "length ?a = base" "length ?w = n" using assms(2) by simp_all
  have "put_at (base + off) bs buf = ?a @ put_at off bs ?w @ ?z"
    using put_at_append [of off bs ?w ?a ?z] assms(1) l buf by simp
  moreover have "length (put_at off bs ?w) = n" using assms(1) l by simp
  ultimately show "take n (drop base (put_at (base + off) bs buf)) = put_at off bs ?w"
    "take base (put_at (base + off) bs buf) = ?a" "drop (base + n) (put_at (base + off) bs buf) = ?z"
    using l(1) by simp_all
  show "length (put_at (base + off) bs buf) = length buf"
    using assms by simp
qed

definition edits_fit :: "nat \<Rightarrow> (nat \<times> bytes) list \<Rightarrow> bool" where
  "edits_fit n es \<longleftrightarrow> (\<forall>(off, bs) \<in> set es. off + length bs \<le> n)"

lemma apply_edits_window:
  assumes "edits_fit n es" and "base + n \<le> length buf"
  shows "take n (drop base (apply_edits base es buf)) = apply_edits 0 es (take n (drop base buf)) \<and>
    take base (apply_edits base es buf) = take base buf \<and>
    drop (base + n) (apply_edits base es buf) = drop (base + n) buf \<and>
    length (apply_edits base es buf) = length buf"
  using assms
proof (induction es arbitrary: buf)
  case (Cons e es)
  obtain off bs where e: "e = (off, bs)" by (cases e)
  have fit: "off + length bs \<le> n" "edits_fit n es" using Cons.prems by (auto simp: edits_fit_def e)
  note w = put_at_window [OF fit(1) Cons.prems(2)]
  have "base + n \<le> length (put_at (base + off) bs buf)" using Cons.prems(2) w(4) by simp
  from Cons.IH [OF fit(2) this] w show ?case by (simp add: apply_edits_def e)
qed (simp add: apply_edits_def)

lemma apply_no_edits [simp]: "apply_edits b [] buf = buf"
  by (simp add: apply_edits_def)

section \<open>One round of the loop\<close>

lemma ipcp_switch_local:
  "uint cl = int n \<Longrightarrow>
   ipcp_switch h wo ao rid ho go (take n p) ct cl = ipcp_switch h wo ao rid ho go p ct cl"
  unfolding ipcp_switch_def reqci_addrs_def reqci_addr_def reqci_compress_def Let_def
  by (intro if_cong refl) auto

definition iv_ok :: "bool \<Rightarrow> u8 \<Rightarrow> ipcp_verdict \<Rightarrow> bool" where
  "iv_ok rid cl v \<longleftrightarrow> iv_edits v = [] \<or> iv_orc v = ConfNak \<and> \<not> rid \<and> edits_fit (unat cl) (iv_edits v)"

lemma uint_unat_eq: "uint (x :: u8) = int n \<Longrightarrow> unat x = n"
  by (simp add: unat_eq_nat_uint)

lemma ipcp_switch_ok: "codec_ok h \<Longrightarrow> iv_ok rid cl (ipcp_switch h wo ao rid ho go p ct cl)"
proof -
  assume h: "codec_ok h"
  have A: "iv_ok rid cl (reqci_addrs h wo ao rid ho go p cl)"
    using h uint_unat_eq [of cl 10]
    by (auto simp: reqci_addrs_def Let_def iv_ok_def edits_fit_def hint_his_def)
  have B: "iv_ok rid cl (reqci_addr h wo ao rid ho go p cl)"
    using h uint_unat_eq [of cl 6]
    by (auto simp: reqci_addr_def Let_def iv_ok_def edits_fit_def hint_his_def)
  have C: "iv_ok rid cl (reqci_compress h wo ao rid ho go p cl)"
    using h uint_unat_eq [of cl 6]
    by (auto simp: reqci_compress_def Let_def iv_ok_def edits_fit_def)
  show ?thesis using A B C by (simp add: ipcp_switch_def iv_ok_def)
qed

lemma keep_ci_ok:
  assumes "r_ucp q \<le> cip" and "cip + cl \<le> length (r_buf q)" and q'_def: "q' = keep_ci cip cl q"
  shows "r_ucp q' = r_ucp q + cl" "length (r_buf q') = length (r_buf q)"
    "take (r_ucp q') (r_buf q') = take (r_ucp q) (r_buf q) @ take cl (drop cip (r_buf q))"
    "drop (cip + cl) (r_buf q') = drop (cip + cl) (r_buf q)"
proof -
  let ?c = "take cl (drop cip (r_buf q))"
  have l: "length ?c = cl" using assms(2) by simp
  have q': "r_ucp q' = r_ucp q + cl" "r_buf q' =
      (if r_ucp q \<noteq> cip then bcopy_in cip (r_ucp q) cl (r_buf q) else r_buf q)"
    by (simp_all add: q'_def keep_ci_def)
  show "r_ucp q' = r_ucp q + cl" by (rule q')
  show "length (r_buf q') = length (r_buf q)"
    unfolding q' bcopy_in_def using assms(1,2) l by simp
  show "take (r_ucp q') (r_buf q') = take (r_ucp q) (r_buf q) @ ?c"
    unfolding q' bcopy_in_def
    using take_put_at [of "r_ucp q" "r_buf q" ?c] assms(1,2) l by (simp add: take_add)
  show "drop (cip + cl) (r_buf q') = drop (cip + cl) (r_buf q)"
    unfolding q' bcopy_in_def
    using drop_put_at [of "r_ucp q" ?c "cip + cl" "r_buf q"] assms(1,2) l by simp
qed

lemma ipcp_endswitch_frame [simp]:
  "r_ho (ipcp_endswitch rid orc cip cl q) = r_ho q" "r_go (ipcp_endswitch rid orc cip cl q) = r_go q"
  "r_next (ipcp_endswitch rid orc cip cl q) = r_next q"
  by (simp_all add: ipcp_endswitch_def Let_def)

definition fed_up_ipcp :: "bool \<Rightarrow> ccode \<Rightarrow> ccode" where
  "fed_up_ipcp rid orc = (if orc = ConfNak \<and> rid then ConfRej else orc)"

text \<open>How the code and the answer so far change with a verdict on an option.\<close>

definition extend :: "ccode \<Rightarrow> bytes \<Rightarrow> ccode \<Rightarrow> bytes \<Rightarrow> bytes" where
  "extend rc acc c ci = (if worse rc c = rc then acc else []) @ (if c = worse rc c then ci else [])"

lemma ipcp_endswitch_ok:
  assumes "r_ucp q \<le> cip" and "cip + cl \<le> length (r_buf q)"
    and q'_def: "q' = ipcp_endswitch rid orc cip cl q" and c_def: "c = fed_up_ipcp rid orc"
  shows "r_rc q' = worse (r_rc q) c \<and> r_ucp q' \<le> cip + cl \<and> length (r_buf q') = length (r_buf q) \<and>
    drop (cip + cl) (r_buf q') = drop (cip + cl) (r_buf q) \<and>
    take (r_ucp q') (r_buf q') =
      extend (r_rc q) (take (r_ucp q) (r_buf q)) c (take cl (drop cip (r_buf q)))"
proof -
  have zero: "r_ucp (q\<lparr>r_rc := rc, r_ucp := 0\<rparr>) \<le> cip" "cip + cl \<le> length (r_buf (q\<lparr>r_rc := rc, r_ucp := 0\<rparr>))" for rc
    using assms(2) by simp_all
  show ?thesis
    using keep_ci_ok [OF assms(1,2) refl] keep_ci_ok [OF zero refl] assms(1,2)
    by (cases orc; cases "r_rc q"; cases rid)
      (simp_all add: q'_def c_def ipcp_endswitch_def fed_up_ipcp_def worse_def extend_def Let_def)
qed

definition ipcp_todo :: "ipcp_req \<Rightarrow> bytes" where
  "ipcp_todo q = take (nat (r_l q)) (drop (r_next q) (r_buf q))"

definition ireq_inv :: "ipcp_req \<Rightarrow> bool" where
  "ireq_inv q \<longleftrightarrow> 0 \<le> r_l q \<and> r_l q < 2 ^ 16 \<and> (r_l q = 0 \<or> r_ucp q \<le> r_next q) \<and>
     r_ucp q \<le> length (r_buf q) \<and> int (r_next q) + r_l q \<le> int (length (r_buf q))"

lemma length_ipcp_todo: "ireq_inv q \<Longrightarrow> int (length (ipcp_todo q)) = r_l q"
  by (auto simp: ireq_inv_def ipcp_todo_def)

lemma bad_ipcp_todo:
  "ireq_inv q \<Longrightarrow> bad_ci (drop (r_next q) (r_buf q)) (r_l q) \<longleftrightarrow> bad_ci (ipcp_todo q) (int (length (ipcp_todo q)))"
  by (auto simp: length_ipcp_todo bad_ci_def) (auto simp: ipcp_todo_def)

definition iround_ok :: "ipcp_verdict \<Rightarrow> bytes \<Rightarrow> bytes list \<Rightarrow> ipcp_req \<Rightarrow> ipcp_req \<Rightarrow> bool" where
  "iround_ok v ci cis q q' \<longleftrightarrow>
     ireq_inv q' \<and> split_cis (ipcp_todo q') = cis \<and> r_ho q' = iv_ho v \<and> r_go q' = iv_go v \<and>
     r_rc q' = worse (r_rc q) (iv_orc v) \<and>
     take (r_ucp q') (r_buf q') =
       extend (r_rc q) (take (r_ucp q) (r_buf q)) (iv_orc v) (apply_edits 0 (iv_edits v) ci)"

lemma iround_bad:
  assumes inv: "ireq_inv q" and l: "r_l q \<noteq> 0" and bad: "bad_ci (drop (r_next q) (r_buf q)) (r_l q)"
  shows "iround_ok (iverdict ConfRej [] (r_ho q) (r_go q)) (ipcp_todo q) [] q (ipcp_body h wo ao rid q)"
proof -
  let ?n = "nat (r_l q mod 2 ^ 16)" and ?q = "q\<lparr>r_l := 0\<rparr>" and ?q' = "ipcp_body h wo ao rid q"
  have n: "?n = nat (r_l q)" using inv by (simp add: ireq_inv_def)
  have body: "?q' = ipcp_endswitch rid ConfRej (r_next q) ?n ?q"
    using bad by (simp add: ipcp_body_def Let_def)
  have r: "r_ucp ?q \<le> r_next q" "r_next q + ?n \<le> length (r_buf ?q)"
    using inv l n by (simp_all add: ireq_inv_def) linarith
  have e: "r_rc ?q' = worse (r_rc q) ConfRej" "r_ucp ?q' \<le> r_next q + ?n"
      "length (r_buf ?q') = length (r_buf q)" "take (r_ucp ?q') (r_buf ?q') =
      extend (r_rc q) (take (r_ucp q) (r_buf q)) ConfRej (take ?n (drop (r_next q) (r_buf q)))"
    using ipcp_endswitch_ok [OF r refl refl, of rid ConfRej] by (simp_all add: body fed_up_ipcp_def)
  have q': "r_l ?q' = 0" "r_next ?q' = r_next q" "r_ho ?q' = r_ho q" "r_go ?q' = r_go q"
    by (simp_all add: body)
  then have "split_cis (ipcp_todo ?q') = []" by (simp add: ipcp_todo_def)
  moreover have "take ?n (drop (r_next q) (r_buf q)) = ipcp_todo q" unfolding n by (simp add: ipcp_todo_def)
  moreover have "ireq_inv ?q'" using q' e r inv by (simp add: ireq_inv_def)
  ultimately show ?thesis using e q' by (simp add: iround_ok_def)
qed

lemma iround_good:
  assumes h: "codec_ok h" and inv: "ireq_inv q" and l: "r_l q \<noteq> 0"
    and good: "\<not> bad_ci (drop (r_next q) (r_buf q)) (r_l q)"
  defines "n \<equiv> unat (rd (ipcp_todo q) 1)"
  shows "iround_ok (ipcp_answer h wo ao rid (r_ho q) (r_go q) (take n (ipcp_todo q))) (take n (ipcp_todo q))
    (split_cis (drop n (ipcp_todo q))) q (ipcp_body h wo ao rid q)"
proof -
  let ?p = "drop (r_next q) (r_buf q)"
  define v where "v = ipcp_switch h wo ao rid (r_ho q) (r_go q) ?p (rd ?p 0) (rd ?p 1)"
  let ?q = "q\<lparr>r_l := r_l q - uint (rd ?p 1), r_next := r_next q + unat (rd ?p 1),
    r_buf := apply_edits (r_next q) (iv_edits v) (r_buf q), r_ho := iv_ho v, r_go := iv_go v\<rparr>"
  let ?q' = "ipcp_body h wo ao rid q"
  let ?ci = "take n (ipcp_todo q)"
  have len: "2 \<le> r_l q" "2 \<le> uint (rd ?p 1)" "uint (rd ?p 1) \<le> r_l q"
    using good by (auto simp: bad_ci_def)
  have rd1: "rd (ipcp_todo q) 1 = rd ?p 1" "rd (ipcp_todo q) 0 = rd ?p 0"
    using len(1) by (auto simp: ipcp_todo_def)
  then have n: "unat (rd ?p 1) = n" "uint (rd ?p 1) = int n" by (simp_all add: n_def)
  have ci: "?ci = take n ?p" using len n by (simp add: ipcp_todo_def min_def)
  have fits: "r_next q + n \<le> length (r_buf q)" "r_ucp q \<le> r_next q"
    using inv len n l by (auto simp: ireq_inv_def)
  have ans: "ipcp_answer h wo ao rid (r_ho q) (r_go q) ?ci = v\<lparr>iv_orc := fed_up_ipcp rid (iv_orc v)\<rparr>"
  proof -
    have "length ?ci = n" using fits by (simp add: ci)
    moreover have "rd ?ci 0 = rd ?p 0" "rd ?ci 1 = rd ?p 1" using len(2) n by (simp_all add: ci)
    ultimately show ?thesis
      using len n by (simp add: ipcp_answer_def bad_ci_def Let_def ci ipcp_switch_local v_def fed_up_ipcp_def)
  qed
  have body: "?q' = ipcp_endswitch rid (iv_orc v) (r_next q) (unat (rd ?p 1)) ?q"
    using good by (simp add: ipcp_body_def Let_def v_def)
  have "iv_ok rid (rd ?p 1) v" unfolding v_def using h by (rule ipcp_switch_ok)
  then have "edits_fit n (iv_edits v)" using n(1) by (auto simp: iv_ok_def edits_fit_def)
  note w = apply_edits_window [OF this fits(1)]
  have pre: "take (r_ucp q) (r_buf ?q) = take (r_ucp q) (r_buf q)"
    using arg_cong [OF w [THEN conjunct2, THEN conjunct1], of "take (r_ucp q)"] fits(2)
    by (simp add: min_def split: if_splits)
  have r: "r_ucp ?q \<le> r_next q" "r_next q + unat (rd ?p 1) \<le> length (r_buf ?q)"
    using fits n(1) w by simp_all
  have e: "r_rc ?q' = worse (r_rc q) (fed_up_ipcp rid (iv_orc v))" "r_ucp ?q' \<le> r_next q + n"
      "length (r_buf ?q') = length (r_buf q)"
      "drop (r_next q + n) (r_buf ?q') = drop (r_next q + n) (r_buf q)"
      "take (r_ucp ?q') (r_buf ?q') = extend (r_rc q) (take (r_ucp q) (r_buf q))
        (fed_up_ipcp rid (iv_orc v)) (apply_edits 0 (iv_edits v) ?ci)"
    using ipcp_endswitch_ok [OF r refl refl, of rid "iv_orc v", folded body] w pre
    by (simp_all add: n(1) [simplified] ci)
  have q': "r_l ?q' = r_l q - int n" "r_next ?q' = r_next q + n" "r_ho ?q' = iv_ho v" "r_go ?q' = iv_go v"
    by (simp_all add: body n [simplified])
  have td: "ipcp_todo ?q' = drop n (ipcp_todo q)"
    using e q' inv len n by (simp add: ipcp_todo_def nat_diff_distrib drop_take add.commute)
  have "ireq_inv ?q'" using e q' inv len n fits by (simp add: ireq_inv_def)
  then show ?thesis unfolding iround_ok_def ans using td e q' by simp
qed

lemma iround_step:
  assumes "codec_ok h" and "ireq_inv q" and "r_l q \<noteq> 0" and "split_cis (ipcp_todo q) = ci # cis"
  shows "iround_ok (ipcp_answer h wo ao rid (r_ho q) (r_go q) ci) ci cis q (ipcp_body h wo ao rid q)"
proof -
  have ne: "ipcp_todo q \<noteq> []" using assms(3) length_ipcp_todo [OF assms(2)] by auto
  show ?thesis
  proof (cases "bad_ci (drop (r_next q) (r_buf q)) (r_l q)")
    case True
    then have bad: "bad_ci (ipcp_todo q) (int (length (ipcp_todo q)))" using bad_ipcp_todo [OF assms(2)] by simp
    then have "ci = ipcp_todo q" "cis = []" using assms(4) ne by (simp_all add: split_cis_step)
    then show ?thesis
      using iround_bad [OF assms(2,3) True] bad by (simp add: ipcp_answer_def)
  next
    case False
    then have "\<not> bad_ci (ipcp_todo q) (int (length (ipcp_todo q)))" using bad_ipcp_todo [OF assms(2)] by simp
    then have "ci = take (unat (rd (ipcp_todo q) 1)) (ipcp_todo q)"
        "cis = split_cis (drop (unat (rd (ipcp_todo q) 1)) (ipcp_todo q))"
      using assms(4) ne by (simp_all add: split_cis_step)
    then show ?thesis using iround_good [OF assms(1-3) False] by simp
  qed
qed

section \<open>The loop\<close>

definition total_code :: "ccode \<Rightarrow> (ccode \<times> bytes) list \<Rightarrow> ccode" where
  "total_code rc as = fold (\<lambda>a c. worse c (fst a)) as rc"

definition total_body :: "ccode \<Rightarrow> bytes \<Rightarrow> (ccode \<times> bytes) list \<Rightarrow> bytes" where
  "total_body rc acc as = (if total_code rc as = rc then acc else []) @ answers_body (total_code rc as) as"

lemma worse_fold: "fold (\<lambda>a c. worse c (fst a)) as (worse rc c) = worse (fold (\<lambda>a c. worse c (fst a)) as rc) c"
proof (induction as arbitrary: rc)
  case (Cons a as)
  have "worse (worse rc c) (fst a) = worse (worse rc (fst a)) c" by (auto simp: worse_def)
  then show ?case using Cons by simp
qed simp

lemma total_code_worse: "total_code rc as = worse rc (answers_code as)"
  using worse_fold [of as ConfAck rc]
  by (auto simp: total_code_def answers_code_def worse_Ack) (auto simp: worse_def)

lemma total_Cons:
  "total_code rc ((c, ci) # as) = total_code (worse rc c) as"
  "total_body rc acc ((c, ci) # as) = total_body (worse rc c) (extend rc acc c ci) as"
proof -
  show t: "total_code rc ((c, ci) # as) = total_code (worse rc c) as" by (simp add: total_code_def)
  have "worse (worse rc c) (answers_code as) = rc \<Longrightarrow> worse rc c = rc"
    "worse (worse rc c) (answers_code as) = c \<Longrightarrow> worse rc c = c"
    by (cases rc; cases c; cases "answers_code as"; simp add: worse_def)+
  then show "total_body rc acc ((c, ci) # as) = total_body (worse rc c) (extend rc acc c ci) as"
    by (auto simp: total_body_def t extend_def answers_body_def) (auto simp: total_code_worse)
qed

lemma ipcp_loop_spec:
  assumes "codec_ok h" and "ireq_inv q"
    and "ipcp_answers h wo ao rid (r_ho q) (r_go q) (split_cis (ipcp_todo q)) = (as, ho, go)"
    and "q' = ipcp_loop h wo ao rid q"
  shows "r_ho q' = ho \<and> r_go q' = go \<and> r_rc q' = total_code (r_rc q) as \<and> r_ucp q' \<le> length (r_buf q') \<and>
    take (r_ucp q') (r_buf q') = total_body (r_rc q) (take (r_ucp q) (r_buf q)) as"
  using assms(2-)
proof (induction "split_cis (ipcp_todo q)" arbitrary: q as)
  case Nil
  then have "ipcp_todo q = []" using concat_split_cis [of "ipcp_todo q"] by simp
  moreover from this have "r_l q = 0" using length_ipcp_todo [OF Nil(2)] by simp
  ultimately show ?case
    using Nil by (auto simp: ipcp_loop.simps [of _ _ _ _ q] total_code_def total_body_def answers_body_def ireq_inv_def)
next
  case (Cons ci cis)
  note split = Cons.hyps(2) [symmetric]
  have "ipcp_todo q \<noteq> []" using split by auto
  then have l: "r_l q \<noteq> 0" using length_ipcp_todo [OF Cons.prems(1)] by auto
  define q1 where "q1 = ipcp_body h wo ao rid q"
  define v where "v = ipcp_answer h wo ao rid (r_ho q) (r_go q) ci"
  have R: "iround_ok v ci cis q q1"
    unfolding v_def q1_def by (rule iround_step [OF assms(1) Cons.prems(1) l split])
  obtain as' where as': "ipcp_answers h wo ao rid (iv_ho v) (iv_go v) cis = (as', ho, go)"
      "as = (iv_orc v, apply_edits 0 (iv_edits v) ci) # as'"
    using Cons.prems(2) unfolding split by (auto simp: v_def [symmetric] Let_def split: prod.splits)
  have q1: "cis = split_cis (ipcp_todo q1)" "ireq_inv q1" "r_ho q1 = iv_ho v" "r_go q1 = iv_go v"
      "r_rc q1 = worse (r_rc q) (iv_orc v)"
      "take (r_ucp q1) (r_buf q1) = extend (r_rc q) (take (r_ucp q) (r_buf q)) (iv_orc v)
        (apply_edits 0 (iv_edits v) ci)"
    using R by (simp_all add: iround_ok_def)
  have "q' = ipcp_loop h wo ao rid q1"
    using l Cons.prems(3) by (simp add: ipcp_loop.simps [of _ _ _ _ q] q1_def)
  from Cons.hyps(1) [OF q1(1,2) _ this, of as'] as' q1 show ?case by (simp add: total_Cons)
qed

section \<open>The answer\<close>

text \<open>With our own question for the peer's address, when it did not tell.\<close>

definition asks_addr :: "bool \<Rightarrow> ipcp_options \<Rightarrow> ipcp_options \<Rightarrow> ccode \<Rightarrow> bool" where
  "asks_addr rid wo ho code \<longleftrightarrow> code \<noteq> ConfRej \<and> \<not> neg_addr ho \<and> req_addr wo \<and> \<not> rid"

definition ipcp_reply :: "hdr \<Rightarrow> bool \<Rightarrow> ipcp_options \<Rightarrow> ipcp_options \<Rightarrow> (ccode \<times> bytes) list \<Rightarrow> ccode \<times> bytes" where
  "ipcp_reply h rid wo ho as =
     (let code = answers_code as in
      if asks_addr rid wo ho code
      then (ConfNak, (if code = ConfAck then [] else answers_body code as)
              @ addr_bytes h False (hisaddr wo) 0)
      else (code, answers_body code as))"

lemma take_put_at_end:
  "pos \<le> length buf \<Longrightarrow> k = length bs \<Longrightarrow> take (pos + k) (put_at pos bs buf) = take pos buf @ bs"
  by (simp add: take_put_at)

lemma ask_addr_ok:
  assumes "codec_ok h" and "r_ucp q \<le> length (r_buf q)" and eq: "ask_addr h rid q wo = (q1, wo1)"
  shows "r_ho q1 = r_ho q" "r_go q1 = r_go q" "wo1 = wo\<lparr>req_addr := req_addr wo1\<rparr>"
    "r_rc q1 = (if asks_addr rid wo (r_ho q) (r_rc q) then ConfNak else r_rc q)"
    "r_ucp q1 \<le> length (r_buf q1)"
    "take (r_ucp q1) (r_buf q1) =
       (if asks_addr rid wo (r_ho q) (r_rc q)
        then (if r_rc q = ConfAck then [] else take (r_ucp q) (r_buf q)) @ addr_bytes h False (hisaddr wo) 0
        else take (r_ucp q) (r_buf q))"
proof -
  have bytes: "CI_ADDR h # 6 # putlong h (ntohl h (hisaddr wo)) = addr_bytes h False (hisaddr wo) 0"
    by (simp add: addr_bytes_def)
  have six: "6 = length (addr_bytes h False (hisaddr wo) 0)"
    using assms(1) by (simp add: addr_bytes_def)
  note put = take_put_at_end [OF assms(2) six] take_put_at_end [of 0 "r_buf q", OF _ six, simplified]
  have len: "r_ucp q + 6 \<le> length (put_at (r_ucp q) (addr_bytes h False (hisaddr wo) 0) (r_buf q))"
      "6 \<le> length (put_at 0 (addr_bytes h False (hisaddr wo) 0) (r_buf q))"
    using assms(2) six by (simp_all add: put_at_def)
  show "r_ho q1 = r_ho q" "r_go q1 = r_go q" "wo1 = wo\<lparr>req_addr := req_addr wo1\<rparr>"
    "r_rc q1 = (if asks_addr rid wo (r_ho q) (r_rc q) then ConfNak else r_rc q)"
    "r_ucp q1 \<le> length (r_buf q1)"
    "take (r_ucp q1) (r_buf q1) =
       (if asks_addr rid wo (r_ho q) (r_rc q)
        then (if r_rc q = ConfAck then [] else take (r_ucp q) (r_buf q)) @ addr_bytes h False (hisaddr wo) 0
        else take (r_ucp q) (r_buf q))"
    using eq assms(2) put len
    by (cases "r_rc q"; auto simp: ask_addr_def asks_addr_def bytes split: if_splits)+
qed

lemma ipcp_reqci_refines:
  assumes "codec_ok h" and "0 \<le> len" and "len < 2 ^ 16" and "len \<le> int (length inp)"
    and sp: "ipcp_answers h (ipcp_wantoptions s) (ipcp_allowoptions s) rid ipcp_zero (ipcp_gotoptions s)
      (split_cis (take (nat len) inp)) = (as, ho, go)"
    and rp: "ipcp_reply h rid (ipcp_wantoptions s) ho as = (code, body)"
  shows "\<exists>buf wo. ipcp_reqci h inp len rid s = Ret (code, buf, int (length body))
      (s\<lparr>ipcp_hisoptions := ho, ipcp_gotoptions := go, ipcp_wantoptions := wo\<rparr>)
    \<and> take (length body) buf = body
    \<and> wo = (ipcp_wantoptions s)\<lparr>req_addr := req_addr wo\<rparr>"
proof -
  let ?wo = "ipcp_wantoptions s"
  let ?q = "\<lparr>r_buf = inp, r_l = len, r_next = 0, r_ucp = 0, r_ho = ipcp_zero,
    r_go = ipcp_gotoptions s, r_rc = ConfAck\<rparr>"
  define q' where "q' = ipcp_loop h ?wo (ipcp_allowoptions s) rid ?q"
  obtain q1 wo1 where ask: "ask_addr h rid q' ?wo = (q1, wo1)" by (cases "ask_addr h rid q' ?wo")
  have inv: "ireq_inv ?q" using assms(2-4) by (simp add: ireq_inv_def)
  have td: "ipcp_todo ?q = take (nat len) inp" by (simp add: ipcp_todo_def)
  have L: "r_ho q' = ho" "r_go q' = go" "r_rc q' = answers_code as" "r_ucp q' \<le> length (r_buf q')"
      "take (r_ucp q') (r_buf q') = answers_body (answers_code as) as"
    using ipcp_loop_spec [OF assms(1) inv _ q'_def, of as ho go] sp td
    by (simp_all add: total_code_worse total_body_def worse_Ack)
  note A = ask_addr_ok [OF assms(1) L(4) ask, unfolded L]
  have r: "r_rc q1 = code" "take (r_ucp q1) (r_buf q1) = body"
    using A rp by (auto simp: ipcp_reply_def Let_def split: if_splits)
  have R: "ipcp_reqci h inp len rid s = Ret (r_rc q1, r_buf q1, int (r_ucp q1))
      (s\<lparr>ipcp_hisoptions := r_ho q1, ipcp_gotoptions := r_go q1, ipcp_wantoptions := wo1\<rparr>)"
    using ask by (simp add: ipcp_reqci_def q'_def)
  have u: "r_ucp q1 = length body" using A(5) arg_cong [OF r(2), of length] by simp
  show ?thesis
  proof (intro exI conjI)
    show "ipcp_reqci h inp len rid s = Ret (code, r_buf q1, int (length body))
        (s\<lparr>ipcp_hisoptions := ho, ipcp_gotoptions := go, ipcp_wantoptions := wo1\<rparr>)"
      using R by (simp add: A(1,2) r(1) u)
    show "take (length body) (r_buf q1) = body" using r(2) by (simp add: u)
    show "wo1 = ?wo\<lparr>req_addr := req_addr wo1\<rparr>" by (rule A(3))
  qed
qed

section \<open>What an acknowledgement means\<close>

lemma answer_addr:
  assumes "iv_orc (ipcp_answer h wo ao rid ho go ci) = ConfAck"
    and "neg_addr ho \<longrightarrow> \<not> nak_his wo (hisaddr ho)"
  shows "neg_addr (iv_ho (ipcp_answer h wo ao rid ho go ci)) \<longrightarrow>
    \<not> nak_his wo (hisaddr (iv_ho (ipcp_answer h wo ao rid ho go ci)))"
  using assms
  by (auto simp: ipcp_answer_def ipcp_switch_def reqci_addrs_def reqci_addr_def reqci_compress_def Let_def
      split: if_splits)

lemma answers_code_Ack: "answers_code ((c, b) # as) = ConfAck \<longleftrightarrow> c = ConfAck \<and> answers_code as = ConfAck"
  using total_code_worse [of c as]
  by (auto simp: answers_code_def total_code_def worse_Ack worse_eq_Ack)

lemma answers_addr:
  assumes "ipcp_answers h wo ao rid ho go cis = (as, ho', go')" and "answers_code as = ConfAck"
    and "neg_addr ho \<longrightarrow> \<not> nak_his wo (hisaddr ho)"
  shows "neg_addr ho' \<longrightarrow> \<not> nak_his wo (hisaddr ho')"
  using assms
proof (induction cis arbitrary: ho go as)
  case (Cons ci cis)
  let ?v = "ipcp_answer h wo ao rid ho go ci"
  obtain as' where as': "ipcp_answers h wo ao rid (iv_ho ?v) (iv_go ?v) cis = (as', ho', go')"
      "as = (iv_orc ?v, apply_edits 0 (iv_edits ?v) ci) # as'"
    using Cons.prems(1) by (auto simp: Let_def split: prod.splits)
  with Cons.prems(2) have "iv_orc ?v = ConfAck" "answers_code as' = ConfAck"
    by (simp_all add: answers_code_Ack)
  with Cons.IH [OF as'(1)] answer_addr Cons.prems(3) show ?case by blast
qed simp

section \<open>Acknowledgements, answers and addresses\<close>

definition sample_ipcp :: ipcp_options where
  "sample_ipcp = ipcp_zero\<lparr>neg_addr := True, ouraddr := 0x0a000001, hisaddr := 0x0a000002\<rparr>"

text \<open>
  A Configure-Ack for IPCP is accepted exactly when it repeats the options of our
  request byte for byte.
\<close>

theorem ipcp_ackci_exact:
  assumes "codec_ok h" and "0 \<le> len" and "len \<le> int (length p)"
  shows "ipcp_ackci h go p len \<longleftrightarrow> take (nat len) p = ipcp_bytes h go"
  using ipcp_ackci_iff [OF assms] length_ipcp_bytes [OF assms(1), of go] assms(2,3)
  by (metis length_take min.absorb2 nat_le_iff int_nat_eq)

theorem ipcp_ackci_exact_witness:
  "ipcp_ackci std_hdr sample_ipcp [3, 6, 10, 0, 0, 1] 6 \<and> \<not> ipcp_ackci std_hdr sample_ipcp [3, 6, 10, 0, 0, 2] 6"
proof -
  have "ipcp_bytes std_hdr sample_ipcp = [3, 6, 10, 0, 0, 1]" by code_simp
  then show ?thesis
    using ipcp_ackci_exact [of std_hdr 6 "[3, 6, 10, 0, 0, 1]" sample_ipcp]
      ipcp_ackci_exact [of std_hdr 6 "[3, 6, 10, 0, 0, 2]" sample_ipcp] by (simp add: std_ok)
qed

text \<open>
  C33. The answer to a Configure-Request for IPCP is the one of the option-by-option
  specification: \<open>ipcp_answers\<close> gives each option its verdict and what stands in the packet
  after the suggestions were written into it, \<open>ipcp_reply\<close> the code and the options kept
  (those with the worst verdict), or a request for the peer's address when it sent none.
\<close>

theorem ipcp_reqci_answers:
  assumes "codec_ok h" and "0 \<le> len" and "len < 2 ^ 16" and "len \<le> int (length inp)"
    and "ipcp_answers h (ipcp_wantoptions s) (ipcp_allowoptions s) rid ipcp_zero (ipcp_gotoptions s)
      (split_cis (take (nat len) inp)) = (as, ho, go)"
    and "ipcp_reply h rid (ipcp_wantoptions s) ho as = (code, body)"
  shows "\<exists>buf wo. ipcp_reqci h inp len rid s = Ret (code, buf, int (length body))
      (s\<lparr>ipcp_hisoptions := ho, ipcp_gotoptions := go, ipcp_wantoptions := wo\<rparr>) \<and>
    take (length body) buf = body \<and> wo = (ipcp_wantoptions s)\<lparr>req_addr := req_addr wo\<rparr>"
  by (rule ipcp_reqci_refines [OF assms])

theorem ipcp_reqci_answers_witness:
  "\<exists>buf wo. ipcp_reqci std_hdr [3, 6, 0, 0, 0, 0] 6 False
      (ppp_calloc\<lparr>ipcp_wantoptions := sample_ipcp, ipcp_allowoptions := sample_ipcp\<rparr>) =
    Ret (ConfNak, buf, 6) (ppp_calloc\<lparr>ipcp_wantoptions := wo, ipcp_allowoptions := sample_ipcp,
      ipcp_hisoptions := ipcp_zero\<lparr>neg_addr := True\<rparr>\<rparr>) \<and> take 6 buf = [3, 6, 10, 0, 0, 2]"
proof -
  have cis: "split_cis [3, 6, 0, 0, 0, 0] = [[3, 6, 0, 0, 0, 0]]" by code_simp
  have "ipcp_answers std_hdr sample_ipcp sample_ipcp False ipcp_zero ipcp_zero [[3, 6, 0, 0, 0, 0]] =
      ([(ConfNak, [3, 6, 10, 0, 0, 2])], ipcp_zero\<lparr>neg_addr := True\<rparr>, ipcp_zero)"
    by code_simp
  moreover have "ipcp_reply std_hdr False sample_ipcp (ipcp_zero\<lparr>neg_addr := True\<rparr>)
      [(ConfNak, [3, 6, 10, 0, 0, 2])] = (ConfNak, [3, 6, 10, 0, 0, 2])"
    by code_simp
  ultimately show ?thesis
    using ipcp_reqci_answers [of std_hdr 6 "[3, 6, 0, 0, 0, 0]"
        "ppp_calloc\<lparr>ipcp_wantoptions := sample_ipcp, ipcp_allowoptions := sample_ipcp\<rparr>" False
        "[(ConfNak, [3, 6, 10, 0, 0, 2])]" "ipcp_zero\<lparr>neg_addr := True\<rparr>" ipcp_zero
        ConfNak "[3, 6, 10, 0, 0, 2]"]
    by (auto simp: std_ok cis ppp_calloc_def eval_nat_numeral simp del: ipcp_answers.simps)
qed

text \<open>
  C34. IPCP never agrees to an address of the peer that was not allowed: when a request is
  acknowledged, the address noted for the peer is the one configured for it, or the
  configuration accepts the peer's choice and the address is not zero.
\<close>

theorem ipcp_ack_his_address:
  assumes "codec_ok h" and "0 \<le> len" and "len < 2 ^ 16" and "len \<le> int (length inp)"
    and "ipcp_reqci h inp len rid s = Ret (ConfAck, buf, n) t" and "neg_addr (ipcp_hisoptions t)"
  shows "hisaddr (ipcp_hisoptions t) = hisaddr (ipcp_wantoptions s) \<or>
    hisaddr (ipcp_hisoptions t) \<noteq> 0 \<and> accept_remote (ipcp_wantoptions s)"
proof -
  obtain as ho go where sp: "ipcp_answers h (ipcp_wantoptions s) (ipcp_allowoptions s) rid ipcp_zero
      (ipcp_gotoptions s) (split_cis (take (nat len) inp)) = (as, ho, go)" by (metis prod_cases3)
  obtain code body where rp: "ipcp_reply h rid (ipcp_wantoptions s) ho as = (code, body)" by fastforce
  from ipcp_reqci_refines [OF assms(1-4) sp rp] assms(5)
  have "code = ConfAck" "ipcp_hisoptions t = ho" by auto
  with rp have "answers_code as = ConfAck" by (auto simp: ipcp_reply_def Let_def split: if_splits)
  from answers_addr [OF sp this] assms(6) \<open>ipcp_hisoptions t = ho\<close> show ?thesis
    by (auto simp: ipcp_zero_def nak_his_def)
qed

lemma sample_ipcp_ack:
  "\<exists>buf wo. ipcp_reqci std_hdr [3, 6, 10, 0, 0, 2] 6 False
      (ppp_calloc\<lparr>ipcp_wantoptions := sample_ipcp, ipcp_allowoptions := sample_ipcp\<rparr>) =
    Ret (ConfAck, buf, 6) (ppp_calloc\<lparr>ipcp_wantoptions := wo, ipcp_allowoptions := sample_ipcp,
      ipcp_hisoptions := ipcp_zero\<lparr>neg_addr := True, hisaddr := 0x0a000002\<rparr>\<rparr>)"
proof -
  have cis: "split_cis [3, 6, 10, 0, 0, 2] = [[3, 6, 10, 0, 0, 2]]" by code_simp
  have "ipcp_answers std_hdr sample_ipcp sample_ipcp False ipcp_zero ipcp_zero [[3, 6, 10, 0, 0, 2]] =
      ([(ConfAck, [3, 6, 10, 0, 0, 2])], ipcp_zero\<lparr>neg_addr := True, hisaddr := 0x0a000002\<rparr>, ipcp_zero)"
    by code_simp
  moreover have "ipcp_reply std_hdr False sample_ipcp (ipcp_zero\<lparr>neg_addr := True, hisaddr := 0x0a000002\<rparr>)
      [(ConfAck, [3, 6, 10, 0, 0, 2])] = (ConfAck, [3, 6, 10, 0, 0, 2])"
    by code_simp
  ultimately show ?thesis
    using ipcp_reqci_refines [of std_hdr 6 "[3, 6, 10, 0, 0, 2]"
        "ppp_calloc\<lparr>ipcp_wantoptions := sample_ipcp, ipcp_allowoptions := sample_ipcp\<rparr>" False
        "[(ConfAck, [3, 6, 10, 0, 0, 2])]" "ipcp_zero\<lparr>neg_addr := True, hisaddr := 0x0a000002\<rparr>" ipcp_zero
        ConfAck "[3, 6, 10, 0, 0, 2]"]
    by (auto simp: std_ok cis ppp_calloc_def simp del: ipcp_answers.simps)
qed

theorem ipcp_ack_his_address_witness:
  "\<exists>buf t. ipcp_reqci std_hdr [3, 6, 10, 0, 0, 2] 6 False
      (ppp_calloc\<lparr>ipcp_wantoptions := sample_ipcp, ipcp_allowoptions := sample_ipcp\<rparr>) = Ret (ConfAck, buf, 6) t \<and>
    (hisaddr (ipcp_hisoptions t) = hisaddr sample_ipcp \<or>
     hisaddr (ipcp_hisoptions t) \<noteq> 0 \<and> accept_remote sample_ipcp)"
proof -
  obtain buf wo where eq: "ipcp_reqci std_hdr [3, 6, 10, 0, 0, 2] 6 False
      (ppp_calloc\<lparr>ipcp_wantoptions := sample_ipcp, ipcp_allowoptions := sample_ipcp\<rparr>) =
    Ret (ConfAck, buf, 6) (ppp_calloc\<lparr>ipcp_wantoptions := wo, ipcp_allowoptions := sample_ipcp,
      ipcp_hisoptions := ipcp_zero\<lparr>neg_addr := True, hisaddr := 0x0a000002\<rparr>\<rparr>)"
    using sample_ipcp_ack by blast
  from ipcp_ack_his_address [OF std_ok(1) _ _ _ eq] eq show ?thesis by (auto simp: std_ok)
qed

text \<open>
  A Nak for the old option with both addresses is never accepted when we requested it
  in that form: the check compares with the type of the new option, and the option then
  counts as one we asked for already.
\<close>

theorem ipcp_nak_of_old_addrs_bad:
  assumes "types_ok h" and "neg_addr (ipcp_gotoptions s)" and "old_addrs (ipcp_gotoptions s)" and "2 < len"
  shows "ipcp_nakci h (CI_ADDRS h # 10 # q) len s = Ret False s"
proof -
  let ?p = "CI_ADDRS h # 10 # q"
  let ?n = "\<lparr>ip = ?p, ilen = len, ino = ipcp_zero, itry = ipcp_gotoptions s\<rparr>"
  have "CI_ADDRS h \<noteq> CI_ADDR h" "CI_ADDRS h \<noteq> CI_COMPRESSTYPE h"
    using assms(1) by (auto simp: types_ok_def)
  then have "NAKCIVJ h (ipcp_gotoptions s) (NAKCIADDR h (ipcp_gotoptions s) ?n) = ?n"
    "ipcp_nak_rest h (ipcp_gotoptions s) ?n = None"
    using assms by (simp_all add: NAKCIVJ_def NAKCIADDR_def ipcp_nak_rest.simps [of _ _ ?n] ipcp_nak_extra_def)
  then show ?thesis by (simp add: ipcp_nakci_def Let_def)
qed

theorem ipcp_nak_of_old_addrs_bad_witness:
  "ipcp_nakci std_hdr [1, 10, 10, 0, 0, 1, 10, 0, 0, 2] 10
      (ppp_calloc\<lparr>ipcp_gotoptions := sample_ipcp\<lparr>old_addrs := True\<rparr>\<rparr>) =
    Ret False (ppp_calloc\<lparr>ipcp_gotoptions := sample_ipcp\<lparr>old_addrs := True\<rparr>\<rparr>)"
proof -
  have "CI_ADDRS std_hdr = 1" by (simp add: std_hdr_def)
  then show ?thesis
    using ipcp_nak_of_old_addrs_bad [of std_hdr "ppp_calloc\<lparr>ipcp_gotoptions := sample_ipcp\<lparr>old_addrs := True\<rparr>\<rparr>" 10
        "[10, 0, 0, 1, 10, 0, 0, 2]"]
    by (simp add: std_ok sample_ipcp_def)
qed

end
