(* ===== verification/Auth_Secrets.thy ===== *)
theory Auth_Secrets
  imports Ppp_State
begin

text \<open>
  Where secrets come from and what they decide: the word scanner \<open>getword\<close> of \<open>options.c\<close>,
  the scan of a secrets file and the password checks of \<open>auth.c\<close>, and the table of
  \<open>pppSecretLib.c\<close>. A file is its list of bytes, a C string the bytes before the NUL, a
  NULL pointer \<open>None\<close>. Read errors (\<open>ferror\<close>) and file permissions are not modelled.
\<close>

section \<open>Words of a file\<close>

definition cstr :: "bytes \<Rightarrow> bytes" where
  "cstr b = takeWhile (\<lambda>c. c \<noteq> 0) b"

definition isspace :: "u8 \<Rightarrow> bool" where
  "isspace c \<longleftrightarrow> c \<in> {0x20, 0x09, 0x0a, 0x0b, 0x0c, 0x0d}"

text \<open>
  Skip white space and comments: whether a newline was seen, the start of the word (a
  backslash, if it is escaped), and the rest from its first character on.
\<close>

fun skip_space :: "bool \<Rightarrow> bool \<Rightarrow> bytes \<Rightarrow> (bool \<times> bytes \<times> bytes) option" where
  "skip_space nl comment [] = None"
| "skip_space nl True (c # f) = skip_space (nl \<or> c = 0x0a) (c \<noteq> 0x0a) f"
| "skip_space nl False (c # f) =
     (if c = 0x5c then
        (case f of
           [] \<Rightarrow> None
         | d # f' \<Rightarrow> if d = 0x0a then skip_space nl False f' else Some (nl, [0x5c], f))
      else if c = 0x0a then skip_space True False f
      else if c = 0x23 then skip_space nl True f
      else if \<not> isspace c then Some (nl, [], c # f)
      else skip_space nl False f)"

text \<open>The word itself; \<open>w\<close> is what has been collected, \<open>escape\<close> and \<open>quoted\<close> the flags.\<close>

fun word_chars :: "bool \<Rightarrow> bool \<Rightarrow> bytes \<Rightarrow> bytes \<Rightarrow> bytes \<times> bytes" where
  "word_chars escape quoted w [] = (w, [])"
| "word_chars escape quoted w (c # f) =
     (if escape then
        if c = 0x0a then word_chars False quoted (butlast w) f
        else if c = 0x22 \<or> isspace c \<or> c = 0x5c then word_chars False quoted (butlast w @ [c]) f
        else word_chars False quoted (w @ [c]) f
      else if c = 0x22 then word_chars False (\<not> quoted) w f
      else if \<not> quoted \<and> (isspace c \<or> c = 0x23) then (w, c # f)
      else word_chars (c = 0x5c) quoted (w @ [c]) f)"

definition getword :: "nat \<Rightarrow> bytes \<Rightarrow> (bytes \<times> bool \<times> bytes) option" where
  "getword maxlen f =
     (case skip_space False False f of
        None \<Rightarrow> None
      | Some (nl, w, f1) \<Rightarrow>
          let (w1, f2) = word_chars (w \<noteq> []) False w f1 in Some (cstr (take (maxlen - 1) w1), nl, f2))"

lemma skip_space_length: "skip_space nl cm f = Some (nl', w, f') \<Longrightarrow> f' \<noteq> [] \<and> length f' + length w \<le> length f"
  by (induction nl cm f rule: skip_space.induct) (auto split: if_splits list.splits)

lemma word_chars_length: "length (snd (word_chars e q w f)) \<le> length f"
  by (induction f arbitrary: e q w) (auto intro: le_SucI)

lemma word_chars_Cons:
  assumes "f \<noteq> []" and "e \<or> \<not> (\<not> q \<and> (isspace (hd f) \<or> hd f = 0x23))"
  shows "length (snd (word_chars e q w f)) < length f"
  using assms by (cases f) (auto simp: less_Suc_eq_le word_chars_length)

lemma skip_space_start:
  "skip_space nl cm f = Some (nl', [], f') \<Longrightarrow> f' \<noteq> [] \<and> \<not> isspace (hd f') \<and> hd f' \<noteq> 0x23"
  by (induction nl cm f rule: skip_space.induct) (auto split: if_splits list.splits)

lemma getword_shorter: "getword n f = Some (w, nl, f') \<Longrightarrow> length f' < length f"
proof -
  assume "getword n f = Some (w, nl, f')"
  then obtain w0 f1 where s: "skip_space False False f = Some (nl, w0, f1)"
      "f' = snd (word_chars (w0 \<noteq> []) False w0 f1)"
    by (auto simp: getword_def Let_def split: option.splits prod.splits)
  have "length (snd (word_chars (w0 \<noteq> []) False w0 f1)) < length f1"
    using skip_space_length [OF s(1)] skip_space_start [of False False f nl f1] s(1)
    by (intro word_chars_Cons) auto
  with skip_space_length [OF s(1)] s(2) show ?thesis by simp
qed

text \<open>What successive calls return: each word with the flag that it starts a line.\<close>

function file_words :: "nat \<Rightarrow> bytes \<Rightarrow> (bool \<times> bytes) list" where
  "file_words n f = (case getword n f of None \<Rightarrow> [] | Some (w, nl, f') \<Rightarrow> (nl, w) # file_words n f')"
  by pat_completeness auto
termination by (relation "measure (\<lambda>(_, f). length f)") (auto dest: getword_shorter)

declare file_words.simps [simp del]

section \<open>The environment of authentication\<close>

record secret_entry =
  se_client :: bytes
  se_server :: bytes
  se_secret :: bytes
  se_addrs :: bytes

text \<open>
  Constants and macros of the header, the files and their contents, and the system
  routines \<open>loginUserVerify\<close>, \<open>pppCryptRtn\<close> (a hook, NULL by default), \<open>inet_addr\<close>,
  \<open>hostGetByName\<close>. \<open>secrets\<close> is the list \<open>pppSecretHead\<close>.
\<close>

record auth_env =
  NONWILD_CLIENT :: int
  NONWILD_SERVER :: int
  ISWILD :: "bytes \<Rightarrow> bool"
  MAXWORDLEN :: nat
  files :: "bytes \<Rightarrow> bytes option"
  pap_file :: "bytes option"
  chap_file :: "bytes option"
  login_verify :: "bytes \<Rightarrow> bytes \<Rightarrow> bool"
  crypt_rtn :: "(bytes \<Rightarrow> bytes \<Rightarrow> bytes) option"
  inet_addr :: "bytes \<Rightarrow> u32"
  host_by_name :: "bytes \<Rightarrow> u32"
  secrets :: "secret_entry list option"

definition flags_ok :: "auth_env \<Rightarrow> bool" where
  "flags_ok A \<longleftrightarrow> 0 < NONWILD_CLIENT A \<and> 0 < NONWILD_SERVER A \<and> NONWILD_CLIENT A AND NONWILD_SERVER A = 0"

definition open_words :: "auth_env \<Rightarrow> bytes \<Rightarrow> (bool \<times> bytes) list option" where
  "open_words A name = map_option (file_words (MAXWORDLEN A)) (files A name)"

text \<open>The first word of an indirect secret file (the name after the \<open>@\<close>).\<close>

definition indirect :: "auth_env \<Rightarrow> bytes \<Rightarrow> bytes option" where
  "indirect A w =
     (if w \<noteq> [] \<and> hd w = 0x40
      then case open_words A (tl w) of Some (x # _) \<Rightarrow> Some (snd x) | _ \<Rightarrow> None
      else Some w)"

section \<open>The secret table\<close>

definition no_match :: "auth_env \<Rightarrow> bytes option \<Rightarrow> bytes \<Rightarrow> bool" where
  "no_match A pat w = (case pat of None \<Rightarrow> False | Some c \<Rightarrow> c \<noteq> [] \<and> c \<noteq> w \<and> \<not> ISWILD A w)"

type_synonym sec_table = "secret_entry list option"

definition pppSecretLibInit :: "sec_table \<Rightarrow> sec_table" where
  "pppSecretLibInit t = (case t of None \<Rightarrow> Some [] | Some es \<Rightarrow> Some es)"

definition pppSecretAdd :: "secret_entry \<Rightarrow> sec_table \<Rightarrow> sec_table option" where
  "pppSecretAdd e t = (case t of None \<Rightarrow> None | Some es \<Rightarrow> Some (Some (e # es)))"

fun secret_remove :: "bytes \<Rightarrow> bytes \<Rightarrow> bytes \<Rightarrow> secret_entry list \<Rightarrow> secret_entry list option" where
  "secret_remove c v x [] = None"
| "secret_remove c v x (e # es) =
     (if c = se_client e \<and> v = se_server e \<and> x = se_secret e then Some es
      else map_option (\<lambda>r. e # r) (secret_remove c v x es))"

definition pppSecretDelete :: "bytes \<Rightarrow> bytes \<Rightarrow> bytes \<Rightarrow> sec_table \<Rightarrow> sec_table option" where
  "pppSecretDelete c v x t =
     (case t of None \<Rightarrow> None | Some es \<Rightarrow> map_option Some (secret_remove c v x es))"

text \<open>The loop of \<open>pppSecretFind\<close>; \<open>got_flag\<close> is carried from one entry to the next.\<close>

fun secret_scan :: "auth_env \<Rightarrow> bytes option \<Rightarrow> bytes option \<Rightarrow> secret_entry list \<Rightarrow> int \<Rightarrow>
    int \<Rightarrow> secret_entry option \<Rightarrow> int \<times> secret_entry option" where
  "secret_scan A client server [] got best sel = (best, sel)"
| "secret_scan A client server (e # es) got best sel =
     (if no_match A client (se_client e) \<or> no_match A server (se_server e)
      then secret_scan A client server es got best sel
      else let g1 = (if \<not> ISWILD A (se_client e) then NONWILD_CLIENT A else got);
               g2 = (if \<not> ISWILD A (se_server e) then g1 OR NONWILD_SERVER A else g1)
           in if g2 > best then secret_scan A client server es g2 g2 (Some e)
              else secret_scan A client server es g2 best sel)"

text \<open>\<open>strtok_r\<close> with the separators blank and tab.\<close>

fun blank_words :: "bytes \<Rightarrow> bytes \<Rightarrow> bytes list" where
  "blank_words w [] = (if w = [] then [] else [w])"
| "blank_words w (c # cs) =
     (if c = 0x20 \<or> c = 0x09 then (if w = [] then blank_words [] cs else w # blank_words [] cs)
      else blank_words (w @ [c]) cs)"

text \<open>The result: flags, secret and addresses; \<open>None\<close> is ERROR.\<close>

definition pppSecretFind :: "auth_env \<Rightarrow> bytes option \<Rightarrow> bytes option \<Rightarrow> bool \<Rightarrow>
    (int \<times> bytes \<times> bytes list) option" where
  "pppSecretFind A client server want =
     (case secrets A of
        None \<Rightarrow> None
      | Some es \<Rightarrow>
          (case secret_scan A client server es 0 (- 1) None of
             (_, None) \<Rightarrow> None
           | (best, Some e) \<Rightarrow>
               (case (if want then indirect A (se_secret e) else Some []) of
                  None \<Rightarrow> None
                | Some sec \<Rightarrow> Some (best, sec, blank_words [] (se_addrs e)))))"

section \<open>Scanning a secrets file\<close>

text \<open>The result of a scan: the flags (-1: nothing found), the secret, the address words.\<close>

type_synonym scan = "int \<times> bytes \<times> bytes list"

text \<open>The address words up to the end of the line, and from the next line on.\<close>

fun addr_words :: "(bool \<times> bytes) list \<Rightarrow> bytes list \<times> (bool \<times> bytes) list" where
  "addr_words [] = ([], [])"
| "addr_words ((nl, w) # ws) =
     (if nl then ([], (nl, w) # ws) else let (as, r) = addr_words ws in (w # as, r))"

lemma addr_words_length: "length (snd (addr_words ws)) \<le> length ws"
  by (induction ws rule: addr_words.induct) (auto simp: Let_def split: prod.splits)

lemma addr_words_smaller [simp]: "2 * length (snd (addr_words ws)) < 6 + 2 * length ws"
  using addr_words_length [of ws] by linarith

text \<open>
  The main loop, entered with \<open>newline\<close> set: the first word of the argument is the client
  field of a line. \<open>scan_line\<close> is entered with \<open>newline\<close> clear and skips to the next line.
\<close>

function (sequential) scan_client :: "auth_env \<Rightarrow> bytes option \<Rightarrow> bytes option \<Rightarrow>
      (bool \<times> bytes) list \<Rightarrow> scan \<Rightarrow> scan"
    and scan_line :: "auth_env \<Rightarrow> bytes option \<Rightarrow> bytes option \<Rightarrow>
      (bool \<times> bytes) list \<Rightarrow> scan \<Rightarrow> scan" where
  "scan_client A client server [] r = r"
| "scan_client A client server ((_, word) # ws) r =
     (if no_match A client word then scan_line A client server ws r
      else let got = (if \<not> ISWILD A word then NONWILD_CLIENT A else 0) in
        (case ws of
           [] \<Rightarrow> r
         | (nl, srv) # ws1 \<Rightarrow>
             if nl then scan_client A client server ws r
             else if no_match A server srv then scan_line A client server ws1 r
             else let got1 = (if \<not> ISWILD A srv then got OR NONWILD_SERVER A else got) in
               if got1 \<le> fst r then scan_line A client server ws1 r
               else (case ws1 of
                  [] \<Rightarrow> r
                | (nl1, sec) # ws2 \<Rightarrow>
                    if nl1 then scan_client A client server ws1 r
                    else (case indirect A sec of
                       None \<Rightarrow> scan_line A client server ws2 r
                     | Some sec1 \<Rightarrow>
                         scan_client A client server (snd (addr_words ws2))
                           (got1, sec1, fst (addr_words ws2))))))"
| "scan_line A client server [] r = r"
| "scan_line A client server ((nl, w) # ws) r =
     (if nl then scan_client A client server ((nl, w) # ws) r else scan_line A client server ws r)"
  by pat_completeness auto
termination
  by (relation "measure (\<lambda>x. case x of Inl (_, _, _, ws, _) \<Rightarrow> 2 * length ws
        | Inr (_, _, _, ws, _) \<Rightarrow> 2 * length ws + 1)")
    (use addr_words_smaller in \<open>auto simp: numeral_eq_Suc\<close>)

declare scan_client.simps [simp del] scan_line.simps [simp del]

definition scan_authfile :: "auth_env \<Rightarrow> (bool \<times> bytes) list \<Rightarrow> bytes option \<Rightarrow> bytes option \<Rightarrow> scan" where
  "scan_authfile A ws client server = scan_client A client server ws (- 1, [], [])"

section \<open>Passwords and secrets\<close>

definition opened :: "auth_env \<Rightarrow> bytes option \<Rightarrow> (bool \<times> bytes) list option" where
  "opened A name = Option.bind name (open_words A)"

text \<open>The negation of the condition that rejects a password: an empty secret fits any.\<close>

definition passwd_ok :: "auth_env \<Rightarrow> bytes \<Rightarrow> bytes \<Rightarrow> bool" where
  "passwd_ok A secret pw \<longleftrightarrow>
     \<not> (secret \<noteq> [] \<and> pw \<noteq> secret \<and>
        (case crypt_rtn A of None \<Rightarrow> True | Some crypt \<Rightarrow> crypt secret pw \<noteq> pw))"

text \<open>
  Whether a user is accepted, and with which addresses: the login database, or else the
  secret table, or else the file of PAP secrets.
\<close>

definition passwd_lookup :: "auth_env \<Rightarrow> bool \<Rightarrow> bytes \<Rightarrow> bytes \<Rightarrow> bytes \<Rightarrow> bytes list option" where
  "passwd_lookup A login server usr pw =
     (if login then if login_verify A usr pw then Some [] else None
      else let from_file =
             (case opened A (pap_file A) of
                None \<Rightarrow> None
              | Some ws \<Rightarrow>
                  (case scan_authfile A ws (Some usr) (Some server) of
                     (flag, secret, addrs) \<Rightarrow>
                       if flag < 0 \<or> \<not> passwd_ok A secret pw then None else Some addrs))
           in case pppSecretFind A (Some usr) (Some server) True of
                None \<Rightarrow> from_file
              | Some (_, secret, addrs) \<Rightarrow> if passwd_ok A secret pw then Some addrs else from_file)"

definition login_ok_msg :: bytes where
  "login_ok_msg = map of_char ''Login ok''"

definition login_incorrect_msg :: bytes where
  "login_incorrect_msg = map of_char ''Login incorrect''"

definition check_passwd :: "auth_env \<Rightarrow> bytes \<Rightarrow> bytes \<Rightarrow> (ppp, bool \<times> bytes) act" where
  "check_passwd A auser apasswd s =
     (case passwd_lookup A (uselogin s) (our_name s) (cstr auser) (cstr apasswd) of
        None \<Rightarrow> Ret (False, login_incorrect_msg) s
      | Some addrs \<Rightarrow> Ret (True, login_ok_msg) (s\<lparr>addresses := addrs\<rparr>))"

text \<open>The peer refused to authenticate: is an empty name with an empty password all right?\<close>

definition null_ok :: "auth_env \<Rightarrow> int \<Rightarrow> bytes \<Rightarrow> bool" where
  "null_ok A i secret \<longleftrightarrow> i \<ge> 0 \<and> i AND NONWILD_CLIENT A \<noteq> 0 \<and> secret = []"

definition null_login :: "auth_env \<Rightarrow> (ppp, bool) act" where
  "null_login A s =
     (let from_file =
        (case opened A (pap_file A) of
           None \<Rightarrow> Ret False s
         | Some ws \<Rightarrow>
             (case scan_authfile A ws (Some []) (Some (our_name s)) of
                (i, secret, addrs) \<Rightarrow>
                  if null_ok A i secret then Ret True (s\<lparr>addresses := addrs\<rparr>) else Ret False s))
      in case pppSecretFind A (Some []) (Some (our_name s)) True of
           None \<Rightarrow> from_file
         | Some (i, secret, addrs) \<Rightarrow>
             if null_ok A i secret then Ret True (s\<lparr>addresses := addrs\<rparr>) else from_file)"

definition get_upap_passwd :: "auth_env \<Rightarrow> hdr \<Rightarrow> (ppp, bool) act" where
  "get_upap_passwd A h s =
     (let store = (\<lambda>secret. Ret True (s\<lparr>passwd := take (MAXSECRETLEN h - 1) secret\<rparr>))
      in case pppSecretFind A (Some (user s)) (Some (remote_name s)) True of
           Some (_, secret, _) \<Rightarrow> store secret
         | None \<Rightarrow>
             (case opened A (pap_file A) of
                None \<Rightarrow> Ret False s
              | Some ws \<Rightarrow>
                  (case scan_authfile A ws (Some (user s)) (Some (remote_name s)) of
                     (flag, secret, _) \<Rightarrow> if flag < 0 then Ret False s else store secret)))"

definition have_upap_secret :: "auth_env \<Rightarrow> ppp \<Rightarrow> bool" where
  "have_upap_secret A s =
     (if uselogin s then True
      else case pppSecretFind A None (Some (our_name s)) False of
        Some _ \<Rightarrow> True
      | None \<Rightarrow>
          (case opened A (pap_file A) of
             None \<Rightarrow> False
           | Some ws \<Rightarrow> \<not> fst (scan_authfile A ws None (Some (our_name s))) < 0))"

definition have_chap_secret :: "auth_env \<Rightarrow> bytes \<Rightarrow> bytes \<Rightarrow> bool" where
  "have_chap_secret A client server =
     (let (c, v) = (if client = [] then (None, Some server)
                    else if server = [] then (Some client, None) else (Some client, Some server))
      in case pppSecretFind A c v False of
           Some _ \<Rightarrow> True
         | None \<Rightarrow>
             (case opened A (chap_file A) of
                None \<Rightarrow> False
              | Some ws \<Rightarrow> \<not> fst (scan_authfile A ws c v) < 0))"

text \<open>The CHAP secret; with \<open>save\<close> the addresses of the entry become the peer's.\<close>

definition get_secret :: "auth_env \<Rightarrow> hdr \<Rightarrow> bytes \<Rightarrow> bytes \<Rightarrow> bool \<Rightarrow> (ppp, bytes option) act" where
  "get_secret A h client server save s =
     (let found = (\<lambda>secret addrs. Ret (Some (take (MAXSECRETLEN h) secret))
            (if save then s\<lparr>addresses := addrs\<rparr> else s))
      in case pppSecretFind A (Some client) (Some server) True of
           Some (_, secret, addrs) \<Rightarrow> found secret addrs
         | None \<Rightarrow>
             (case opened A (chap_file A) of
                None \<Rightarrow> Ret None s
              | Some ws \<Rightarrow>
                  (case scan_authfile A ws (Some client) (Some server) of
                     (flag, secret, addrs) \<Rightarrow> if flag < 0 then Ret None s else found secret addrs)))"

section \<open>Addresses\<close>

definition bad_ip_adrs :: "hdr \<Rightarrow> u32 \<Rightarrow> bool" where
  "bad_ip_adrs h addr =
     (let a = ntohl h addr in
      drop_bit 24 a = 127 \<or> a AND 0xf0000000 = 0xe0000000 \<or> a AND 0xf0000000 = 0xf0000000)"

fun addr_listed :: "auth_env \<Rightarrow> u32 \<Rightarrow> bytes list \<Rightarrow> bool" where
  "addr_listed A addr [] = False"
| "addr_listed A addr (w # ws) =
     (if w = [0x2d] then False
      else let a = inet_addr A w in
        if a = - 1 then
          (let b = host_by_name A w in
           if b = 0 then addr_listed A addr ws
           else if addr = b then True else addr_listed A addr ws)
        else if addr = a then True else addr_listed A addr ws)"

definition auth_ip_addr :: "auth_env \<Rightarrow> hdr \<Rightarrow> ppp \<Rightarrow> u32 \<Rightarrow> bool" where
  "auth_ip_addr A h s addr =
     (if bad_ip_adrs h addr then False
      else if addresses s = [] then True
      else addr_listed A addr (addresses s))"

section \<open>Options that follow from the secrets\<close>

definition check_auth_options :: "env \<Rightarrow> auth_env \<Rightarrow> (ppp, unit) act" where
  "check_auth_options E A = steps
     [upd (\<lambda>s. if our_name s = [] then s\<lparr>our_name := hostname s\<rparr> else s),
      upd (\<lambda>s. if user s = [] then s\<lparr>user := our_name s\<rparr> else s),
      upd (\<lambda>s. if auth_required s \<and> \<not> neg_chap (lcp_wantoptions s) \<and> \<not> neg_upap (lcp_wantoptions s)
        then s\<lparr>lcp_wantoptions := (lcp_wantoptions s)\<lparr>neg_chap := True, neg_upap := True\<rparr>\<rparr> else s),
      \<lambda>s. if neg_upap (lcp_allowoptions s) \<and> passwd s = []
        then bnd (get_upap_passwd A (eh E)) (\<lambda>ok. upd (\<lambda>s. if ok then s
          else s\<lparr>lcp_allowoptions := (lcp_allowoptions s)\<lparr>neg_upap := False\<rparr>\<rparr>)) s
        else Ret () s,
      upd (\<lambda>s. if neg_upap (lcp_wantoptions s) \<and> \<not> uselogin s \<and> \<not> have_upap_secret A s
        then s\<lparr>lcp_wantoptions := (lcp_wantoptions s)\<lparr>neg_upap := False\<rparr>\<rparr> else s),
      upd (\<lambda>s. if neg_chap (lcp_allowoptions s) \<and> \<not> have_chap_secret A (our_name s) (remote_name s)
        then s\<lparr>lcp_allowoptions := (lcp_allowoptions s)\<lparr>neg_chap := False\<rparr>\<rparr> else s),
      upd (\<lambda>s. if neg_chap (lcp_wantoptions s) \<and> \<not> have_chap_secret A (remote_name s) (our_name s)
        then s\<lparr>lcp_wantoptions := (lcp_wantoptions s)\<lparr>neg_chap := False\<rparr>\<rparr> else s),
      \<lambda>s. if auth_required s \<and> \<not> neg_chap (lcp_wantoptions s) \<and> \<not> neg_upap (lcp_wantoptions s)
        then die_fn E s else Ret () s]"

end
