(* ===== verification/Fsm_Spec.thy ===== *)
theory Fsm_Spec
  imports Fsm
begin

text \<open>
  The automaton of \<open>fsm.c\<close> against the state transition table of RFC 1661, section 4.1, and
  the discipline of its restart timer. \<open>rfc_next\<close> is the next state of the table and
  \<open>rfc_layer\<close> its This-Layer-Up / This-Layer-Finished action; \<open>fsm_step\<close> is one handler of
  the code, labelled with the event of the table it handles. The contract a client of the
  automaton has to meet is the locale \<open>fsm_client\<close>.
\<close>

section \<open>The table\<close>

datatype fsm_event = Up | Down | Open | Close | TO_plus | TO_minus
  | RCR_plus | RCR_minus | RCA | RCN | RTR | RTA | RXJ_plus | RXJ_minus

datatype layer_action = No_action | This_Layer_Up | This_Layer_Finished

text \<open>The states, and what they become; \<open>r\<close>: the restart option, \<open>sl\<close>: the silent option.\<close>

definition waiting :: "fsm_st set" where
  "waiting = {CLOSING, STOPPING, REQSENT, ACKRCVD, ACKSENT}"

definition first_state :: "bool \<Rightarrow> fsm_st" where
  "first_state sl = (if sl then STOPPED else REQSENT)"

primrec rfc_next :: "bool \<Rightarrow> bool \<Rightarrow> fsm_event \<Rightarrow> fsm_st \<Rightarrow> fsm_st" where
  "rfc_next r sl Up st = (case st of INITIAL \<Rightarrow> CLOSED | STARTING \<Rightarrow> first_state sl | _ \<Rightarrow> st)"
| "rfc_next r sl Down st =
     (if st \<in> {INITIAL, CLOSED, CLOSING} then INITIAL else STARTING)"
| "rfc_next r sl Open st =
     (case st of INITIAL \<Rightarrow> STARTING | CLOSED \<Rightarrow> first_state sl
      | STOPPED \<Rightarrow> if r then first_state sl else STOPPED
      | CLOSING \<Rightarrow> if r then first_state sl else STOPPING
      | OPENED \<Rightarrow> if r then first_state sl else OPENED
      | _ \<Rightarrow> st)"
| "rfc_next r sl Close st =
     (case st of INITIAL \<Rightarrow> INITIAL | STARTING \<Rightarrow> INITIAL | CLOSED \<Rightarrow> CLOSED | STOPPED \<Rightarrow> CLOSED
      | _ \<Rightarrow> CLOSING)"
| "rfc_next r sl TO_plus st = (if st = ACKRCVD then REQSENT else st)"
| "rfc_next r sl TO_minus st =
     (case st of CLOSING \<Rightarrow> CLOSED | STOPPING \<Rightarrow> STOPPED | REQSENT \<Rightarrow> STOPPED
      | ACKRCVD \<Rightarrow> STOPPED | ACKSENT \<Rightarrow> STOPPED | _ \<Rightarrow> st)"
| "rfc_next r sl RCR_plus st =
     (case st of STOPPED \<Rightarrow> ACKSENT | REQSENT \<Rightarrow> ACKSENT | ACKRCVD \<Rightarrow> OPENED
      | OPENED \<Rightarrow> ACKSENT | _ \<Rightarrow> st)"
| "rfc_next r sl RCR_minus st =
     (case st of STOPPED \<Rightarrow> REQSENT | ACKSENT \<Rightarrow> REQSENT | OPENED \<Rightarrow> REQSENT | _ \<Rightarrow> st)"
| "rfc_next r sl RCA st =
     (case st of REQSENT \<Rightarrow> ACKRCVD | ACKRCVD \<Rightarrow> REQSENT | ACKSENT \<Rightarrow> OPENED
      | OPENED \<Rightarrow> REQSENT | _ \<Rightarrow> st)"
| "rfc_next r sl RCN st = (case st of ACKRCVD \<Rightarrow> REQSENT | OPENED \<Rightarrow> REQSENT | _ \<Rightarrow> st)"
| "rfc_next r sl RTR st =
     (case st of ACKRCVD \<Rightarrow> REQSENT | ACKSENT \<Rightarrow> REQSENT | OPENED \<Rightarrow> STOPPING | _ \<Rightarrow> st)"
| "rfc_next r sl RTA st =
     (case st of CLOSING \<Rightarrow> CLOSED | STOPPING \<Rightarrow> STOPPED | ACKRCVD \<Rightarrow> REQSENT
      | OPENED \<Rightarrow> REQSENT | _ \<Rightarrow> st)"
| "rfc_next r sl RXJ_plus st = (if st = ACKRCVD then REQSENT else st)"
| "rfc_next r sl RXJ_minus st =
     (case st of CLOSING \<Rightarrow> CLOSED | STOPPING \<Rightarrow> STOPPED | REQSENT \<Rightarrow> STOPPED
      | ACKRCVD \<Rightarrow> STOPPED | ACKSENT \<Rightarrow> STOPPED | OPENED \<Rightarrow> STOPPING | _ \<Rightarrow> st)"

text \<open>\<open>p\<close>: the passive option, which suppresses Finished when the negotiation times out.\<close>

definition rfc_layer :: "bool \<Rightarrow> fsm_event \<Rightarrow> fsm_st \<Rightarrow> layer_action" where
  "rfc_layer p e st =
     (if (e = RCR_plus \<and> st = ACKRCVD) \<or> (e = RCA \<and> st = ACKSENT) then This_Layer_Up
      else if (e = TO_minus \<or> e = RTA) \<and> st \<in> {CLOSING, STOPPING}
        \<or> e = TO_minus \<and> st \<in> {REQSENT, ACKRCVD, ACKSENT} \<and> \<not> p
        \<or> e = RXJ_minus \<and> st \<notin> {INITIAL, STARTING, OPENED} then This_Layer_Finished
      else No_action)"

section \<open>The contract of the callbacks\<close>

definition pend :: "fsm_callbacks \<Rightarrow> ppp \<Rightarrow> nat" where
  "pend C s = callout_pending (callout s) (Fsm_timeout (self C))"

text \<open>A call that returns and leaves the automaton and its timer alone.\<close>

definition tame :: "fsm_callbacks \<Rightarrow> (ppp, 'a) act \<Rightarrow> ppp \<Rightarrow> bool" where
  "tame C f s \<longleftrightarrow> (\<exists>a t. f s = Ret a t \<and> getf C t = getf C s \<and> pend C t = pend C s)"

text \<open>The same, but only if the call returns at all.\<close>

definition tame_if :: "fsm_callbacks \<Rightarrow> (ppp, 'a) act \<Rightarrow> ppp \<Rightarrow> bool" where
  "tame_if C f s \<longleftrightarrow> (\<forall>a t. f s = Ret a t \<longrightarrow> getf C t = getf C s \<and> pend C t = pend C s)"

lemma getf_fsm_upd [simp]: "getf C (fsm_upd (self C) g s) = g (getf C s)"
  by (cases "self C") (simp_all add: getf_def)

lemma fsm_upd_frame [simp]:
  "peer_mru (fsm_upd P g s) = peer_mru s" "callout (fsm_upd P g s) = callout s"
  "trace (fsm_upd P g s) = trace s" "lcp_wantoptions (fsm_upd P g s) = lcp_wantoptions s"
  by (cases P; simp)+

lemma pend_fsm_upd [simp]: "pend C (fsm_upd P g s) = pend C s"
  by (simp add: pend_def)

lemma getf_frame [simp]:
  "getf C (s\<lparr>trace := tr\<rparr>) = getf C s" "getf C (s\<lparr>callout := cs\<rparr>) = getf C s"
  "getf C (s\<lparr>schedtime := n\<rparr>) = getf C s"
  by (cases "self C"; simp add: getf_def)+

lemma pend_frame [simp]:
  "pend C (s\<lparr>trace := tr\<rparr>) = pend C s" "pend C (s\<lparr>schedtime := n\<rparr>) = pend C s"
  by (simp_all add: pend_def)

lemma wp_modf [simp]: "wp (modf C g s) Q X = Q () (fsm_upd (self C) g s)"
  by (simp add: modf_def)

lemma wp_set_state [simp]:
  "wp (set_state C st s) Q X = Q () (fsm_upd (self C) (\<lambda>f. f\<lparr>fstate := st\<rparr>) s)"
  by (simp add: set_state_def)

lemma wp_tame:
  assumes "tame C f s" and "\<And>a t. getf C t = getf C s \<Longrightarrow> pend C t = pend C s \<Longrightarrow> Q a t"
  shows "wp (f s) Q X"
  using assms by (auto simp: tame_def wp_def)

lemma tame_call: "(\<And>f. p = Some f \<Longrightarrow> tame C f s) \<Longrightarrow> tame C (call p) s"
  by (cases p) (simp_all add: tame_def)

text \<open>A new request uses the next identifier and a full count; both kinds cost one transmission.\<close>

definition after_sconfreq :: "hdr \<Rightarrow> bool \<Rightarrow> fsm \<Rightarrow> fsm" where
  "after_sconfreq h retrans f =
     (let f1 = (if fstate f \<notin> {REQSENT, ACKRCVD, ACKSENT} then f\<lparr>nakloops := 0\<rparr> else f);
          f2 = (if retrans then f1 else f1\<lparr>retransmits := maxconfreqtransmits f1, fid := fid f1 + 1,
                  reqid := reqid_conv h (uint (fid f1 + 1))\<rparr>)
      in f2\<lparr>retransmits := retransmits f2 - 1\<rparr>)"

definition after_termreq :: "hdr \<Rightarrow> fsm \<Rightarrow> fsm" where
  "after_termreq h f = f\<lparr>fid := fid f + 1, reqid := reqid_conv h (uint (fid f + 1)),
     retransmits := retransmits f - 1\<rparr>"

lemma after_send_frame [simp]:
  "fstate (after_sconfreq h b f) = fstate f" "fstate (after_termreq h f) = fstate f"
  "opt_silent (after_sconfreq h b f) = opt_silent f"
  "opt_passive (after_sconfreq h b f) = opt_passive f"
  by (simp_all add: after_sconfreq_def after_termreq_def Let_def)

text \<open>
  \<open>calm\<close> are the states in which a rejected option does not end the connection. Nothing is
  asked of \<open>up\<close>, \<open>finished\<close> and \<open>extcode\<close>, which may open or close the automaton again.
\<close>

locale fsm_client = reliable E for E :: env +
  fixes C :: fsm_callbacks and calm :: "ppp \<Rightarrow> bool"
  assumes resetci_tame: "resetci C = Some f \<Longrightarrow> tame C f s"
    and addci_tame: "addci C = Some ad \<Longrightarrow> tame C (ad n) s"
    and ackci_tame: "ackci C = Some k \<Longrightarrow> tame C (k p n) s"
    and nakci_tame: "nakci C = Some k \<Longrightarrow> tame_if C (k p n) s"
    and rejci_tame: "rejci C = Some k \<Longrightarrow> calm s \<Longrightarrow> tame_if C (k p n) s"
    and reqci_tame: "reqci C = Some q \<Longrightarrow> tame C (q p n b) s"
    and down_tame: "down C = Some f \<Longrightarrow> tame C f s"
    and starting_tame: "starting C = Some f \<Longrightarrow> tame C f s"
    and retransmit_tame: "retransmit C = Some f \<Longrightarrow> tame C f s"
begin

lemmas call_tame = tame_call [where p = "resetci C", OF resetci_tame]
  tame_call [where p = "down C", OF down_tame] tame_call [where p = "starting C", OF starting_tame]
  tame_call [where p = "retransmit C", OF retransmit_tame]

lemma wp_TIMEOUT_FSM:
  assumes "\<And>t. getf C t = getf C s \<Longrightarrow> pend C t = Suc (pend C s) \<Longrightarrow> Q () t"
  shows "wp (TIMEOUT_FSM E C s) Q X"
  by (auto simp: wp_def TIMEOUT_FSM_def ppp_timeout_ok Let_def intro!: assms)
    (simp add: pend_def)

lemma wp_UNTIMEOUT_FSM:
  assumes "\<And>t. getf C t = getf C s \<Longrightarrow> pend C t = pend C s - 1 \<Longrightarrow> Q () t"
  shows "wp (UNTIMEOUT_FSM E C s) Q X"
proof -
  obtain b n where eq: "ppp_untimeout E (Fsm_timeout (self C)) s =
      Ret () (s\<lparr>callout := callout_unlink (Fsm_timeout (self C)) (callout s),
        schedtime := itimer_sched E b n s, trace := itimer_trace b n s\<rparr>)"
    using ppp_untimeout_ok by blast
  show ?thesis
    by (auto simp: wp_def UNTIMEOUT_FSM_def eq intro!: assms) (simp add: pend_def)
qed

lemma wp_sdata:
  assumes "\<And>t. getf C t = getf C s \<Longrightarrow> pend C t = pend C s \<Longrightarrow> Q () t"
  shows "wp (fsm_sdata E C c i d n s) Q X"
  by (auto simp: wp_def fsm_sdata_def output_frame_ok intro!: assms)

lemma tame_write_client: "tame C (write_client E) s"
  by (simp add: tame_def write_client_def bnd_def output_frame_ok ext_def)

lemma tame_make_ci: "tame C (make_ci E C) s"
  using addci_tame by (auto simp: tame_def make_ci_def Let_def split: option.split)

lemma wp_sconfreq:
  assumes Q: "\<And>t. getf C t = after_sconfreq (eh E) retrans (getf C s) \<Longrightarrow>
    pend C t = Suc (pend C s) \<Longrightarrow> Q () t"
  shows "wp (fsm_sconfreq E C retrans s) Q X"
  unfolding fsm_sconfreq_def
  by (cases retrans)
    (auto intro!: wp_tame [OF call_tame(1)] wp_tame [OF tame_write_client] wp_tame [OF tame_make_ci]
      wp_TIMEOUT_FSM wp_sdata Q simp: after_sconfreq_def state_of_def Let_def split: prod.split)

lemma wp_termreq:
  assumes Q: "\<And>t. getf C t = after_termreq (eh E) (getf C s) \<Longrightarrow>
    pend C t = Suc (pend C s) \<Longrightarrow> Q () t"
  shows "wp (send_termreq E C s) Q X"
  unfolding send_termreq_def
  by (auto intro!: wp_TIMEOUT_FSM wp_sdata Q simp: after_termreq_def)

end

section \<open>Steps\<close>

text \<open>
  One handler of the code, with the event of the table. A packet is handled only when the
  lower layer is up and the automaton was started (the check in \<open>fsm_input\<close>); a
  Configure-Ack, -Nak or -Reject with the wrong identifier or contents is no event.
\<close>

inductive fsm_step :: "env \<Rightarrow> fsm_callbacks \<Rightarrow> ppp \<Rightarrow> fsm_event \<Rightarrow> ppp \<Rightarrow> bool" for E C where
  s_up: "fsm_lowerup E C s = Ret () t \<Longrightarrow> fsm_step E C s Up t"
| s_down: "fsm_lowerdown E C s = Ret () t \<Longrightarrow> fsm_step E C s Down t"
| s_open: "fsm_open E C s = Ret () t \<Longrightarrow> fsm_step E C s Open t"
| s_close: "fsm_close E C s = Ret () t \<Longrightarrow> fsm_step E C s Close t"
| s_to_plus: "0 < retransmits (getf C s) \<Longrightarrow> fsm_timeout E C s = Ret () t \<Longrightarrow> fsm_step E C s TO_plus t"
| s_to_minus: "retransmits (getf C s) \<le> 0 \<Longrightarrow> fsm_timeout E C s = Ret () t \<Longrightarrow> fsm_step E C s TO_minus t"
| s_rcr: "state_of C s \<notin> {INITIAL, STARTING} \<Longrightarrow> rconfreq_first E C i s = Ret True s1 \<Longrightarrow>
    check_ci C p n s1 = Ret (code, p', n') s2 \<Longrightarrow>
    rconfreq_answer E C i (code, p', n') s2 = Ret () t \<Longrightarrow>
    fsm_step E C s (if code = ConfAck then RCR_plus else RCR_minus) t"
| s_rcr_ignored: "state_of C s \<notin> {INITIAL, STARTING} \<Longrightarrow> rconfreq_first E C i s = Ret False t \<Longrightarrow>
    e = RCR_plus \<or> e = RCR_minus \<Longrightarrow> fsm_step E C s e t"
| s_rca: "state_of C s \<notin> {INITIAL, STARTING} \<Longrightarrow> uint i = reqid (getf C s) \<Longrightarrow>
    (case ackci C of Some k \<Rightarrow> k p n | None \<Rightarrow> ret (n = 0)) s = Ret True s1 \<Longrightarrow>
    fsm_rconfack E C i p n s = Ret () t \<Longrightarrow> fsm_step E C s RCA t"
| s_rcn: "state_of C s \<notin> {INITIAL, STARTING} \<Longrightarrow> uint i = reqid (getf C s) \<Longrightarrow>
    (case (if code = CONFNAK (eh E) then nakci C else rejci C) of
       Some k \<Rightarrow> k p n | None \<Rightarrow> ret False) s = Ret True s1 \<Longrightarrow>
    fsm_rconfnakrej E C code i p n s = Ret () t \<Longrightarrow> fsm_step E C s RCN t"
| s_rtr: "state_of C s \<notin> {INITIAL, STARTING} \<Longrightarrow> fsm_rtermreq E C i s = Ret () t \<Longrightarrow> fsm_step E C s RTR t"
| s_rta: "state_of C s \<notin> {INITIAL, STARTING} \<Longrightarrow> fsm_rtermack E C s = Ret () t \<Longrightarrow> fsm_step E C s RTA t"
| s_rxj_plus: "state_of C s \<notin> {INITIAL, STARTING} \<Longrightarrow> HEADERLEN (eh E) \<le> n \<Longrightarrow>
    fsm_rcoderej E C p n s = Ret () t \<Longrightarrow> fsm_step E C s RXJ_plus t"
| s_rxj_minus: "fsm_protreject E C s = Ret () t \<Longrightarrow> fsm_step E C s RXJ_minus t"

text \<open>
  The layer action is called in a state that satisfies \<open>P\<close>, and what it leaves is the state
  and timer of the automaton afterwards.
\<close>

fun layered :: "fsm_callbacks \<Rightarrow> layer_action \<Rightarrow> (ppp \<Rightarrow> bool) \<Rightarrow> ppp \<Rightarrow> bool" where
  "layered C No_action P t = P t"
| "layered C This_Layer_Up P t =
     (\<exists>u v. P u \<and> call (up C) u = Ret () v \<and> state_of C t = state_of C v \<and> pend C t = pend C v)"
| "layered C This_Layer_Finished P t =
     (\<exists>u v. P u \<and> call (finished C) u = Ret () v \<and> state_of C t = state_of C v \<and> pend C t = pend C v)"

text \<open>In every state that waits for the peer the restart timer is running.\<close>

definition timer_inv :: "fsm_callbacks \<Rightarrow> ppp \<Rightarrow> bool" where
  "timer_inv C s \<longleftrightarrow> (state_of C s \<in> waiting \<longrightarrow> 0 < pend C s)"

definition follows_table :: "fsm_callbacks \<Rightarrow> fsm_event \<Rightarrow> ppp \<Rightarrow> ppp \<Rightarrow> bool" where
  "follows_table C e s t \<longleftrightarrow>
     layered C (rfc_layer (opt_passive (getf C s)) e (state_of C s))
       (\<lambda>u. state_of C u = rfc_next (opt_restart (getf C s)) (opt_silent (getf C s)) e (state_of C s)
          \<and> timer_inv C u) t"

primrec expire :: "env \<Rightarrow> fsm_callbacks \<Rightarrow> nat \<Rightarrow> (ppp, unit) act" where
  "expire E C 0 = skip"
| "expire E C (Suc n) = bnd (fsm_timeout E C) (\<lambda>_. expire E C n)"

lemmas table_defs = follows_table_def rfc_layer_def timer_inv_def state_of_def waiting_def
  first_state_def

lemma wlp_modf [simp]: "wlp (modf C g s) Q = Q () (fsm_upd (self C) g s)"
  by (simp add: modf_def)

lemma wlp_set_state [simp]:
  "wlp (set_state C st s) Q = Q () (fsm_upd (self C) (\<lambda>f. f\<lparr>fstate := st\<rparr>) s)"
  by (simp add: set_state_def)

text \<open>The layer actions, proved when the state they are called in is right.\<close>

declare layered.simps(2,3) [simp del]

lemma wlp_call_layer:
  "P s \<Longrightarrow> wlp (call (finished C) s) (\<lambda>_. layered C This_Layer_Finished P)"
  "P s \<Longrightarrow> wlp (call (up C) s) (\<lambda>_. layered C This_Layer_Up P)"
  by (auto simp: wlp_def layered.simps)

lemma wlp_call_up_then:
  "P s \<Longrightarrow> (\<And>f. fstate (g f) = fstate f) \<Longrightarrow>
   wlp (call (up C) s) (\<lambda>_ t. layered C This_Layer_Up P (fsm_upd (self C) g t))"
  by (auto simp: wlp_def layered.simps state_of_def)

context fsm_client
begin

lemmas wlp_client = wlp_wp [OF wp_TIMEOUT_FSM] wlp_wp [OF wp_UNTIMEOUT_FSM] wlp_wp [OF wp_sdata]
  wlp_wp [OF wp_sconfreq] wlp_wp [OF wp_termreq]
  wlp_wp [OF wp_tame [OF call_tame(1)]] wlp_wp [OF wp_tame [OF call_tame(2)]]
  wlp_wp [OF wp_tame [OF call_tame(3)]] wlp_wp [OF wp_tame [OF call_tame(4)]]

lemma lowerup_table: "timer_inv C s \<Longrightarrow> wlp (fsm_lowerup E C s) (\<lambda>_. follows_table C Up s)"
  by (cases "state_of C s") (auto simp: fsm_lowerup_def table_defs intro!: wlp_client)

lemma lowerdown_table: "timer_inv C s \<Longrightarrow> wlp (fsm_lowerdown E C s) (\<lambda>_. follows_table C Down s)"
  by (cases "state_of C s") (auto simp: fsm_lowerdown_def table_defs intro!: wlp_client)

lemma reopen_table:
  assumes "opt_restart (getf C s) \<Longrightarrow> state_of C s \<in> {STOPPED, STOPPING, OPENED}"
    and "\<And>t. (if opt_restart (getf C s) then state_of C t = first_state (opt_silent (getf C s))
            \<and> timer_inv C t else t = s) \<Longrightarrow> Q t"
  shows "wlp (fsm_reopen E C s) (\<lambda>_. Q)"
  using assms
  by (auto simp: fsm_reopen_def fsm_lowerdown_def fsm_lowerup_def table_defs intro!: wlp_client)

lemma open_table: "timer_inv C s \<Longrightarrow> wlp (fsm_open E C s) (\<lambda>_. follows_table C Open s)"
  by (cases "state_of C s")
    (auto simp: fsm_open_def table_defs intro!: wlp_client reopen_table split: if_splits)

lemma close_table: "timer_inv C s \<Longrightarrow> wlp (fsm_close E C s) (\<lambda>_. follows_table C Close s)"
  by (cases "state_of C s") (auto simp: fsm_close_def table_defs Let_def intro!: wlp_client)

lemma timeout_table:
  "wlp (fsm_timeout E C s)
     (\<lambda>_. follows_table C (if 0 < retransmits (getf C s) then TO_plus else TO_minus) s)"
  by (cases "state_of C s")
    (auto simp: fsm_timeout_def table_defs Let_def intro!: wlp_client wlp_call_layer)

lemma rtermreq_table: "timer_inv C s \<Longrightarrow> wlp (fsm_rtermreq E C i s) (\<lambda>_. follows_table C RTR s)"
  by (cases "state_of C s") (auto simp: fsm_rtermreq_def table_defs intro!: wlp_client)

lemma rtermack_table:
  "timer_inv C s \<Longrightarrow> state_of C s \<noteq> OPENED \<Longrightarrow> wlp (fsm_rtermack E C s) (\<lambda>_. follows_table C RTA s)"
  by (cases "state_of C s")
    (auto simp: fsm_rtermack_def table_defs intro!: wlp_client wlp_call_layer)

lemma rcoderej_table:
  "timer_inv C s \<Longrightarrow> HEADERLEN (eh E) \<le> n \<Longrightarrow>
   wlp (fsm_rcoderej E C p n s) (\<lambda>_. follows_table C RXJ_plus s)"
  by (auto simp: fsm_rcoderej_def table_defs)

lemma protreject_table: "timer_inv C s \<Longrightarrow> wlp (fsm_protreject E C s) (\<lambda>_. follows_table C RXJ_minus s)"
  by (cases "state_of C s")
    (auto simp: fsm_protreject_def table_defs Let_def intro!: wlp_client wlp_call_layer)

lemma rconfreq_first_table:
  assumes "timer_inv C s" and "state_of C s \<notin> {INITIAL, STARTING}"
    and "\<And>go t. opt_passive (getf C t) = opt_passive (getf C s) \<Longrightarrow>
      (if go then state_of C t \<in> {REQSENT, ACKRCVD, ACKSENT, OPENED} \<and> 0 < pend C t
           \<and> (state_of C t = ACKRCVD \<longleftrightarrow> state_of C s = ACKRCVD)
           \<and> state_of C s \<notin> {CLOSED, CLOSING, STOPPING}
       else state_of C s \<in> {CLOSED, CLOSING, STOPPING} \<and> state_of C t = state_of C s \<and> timer_inv C t)
      \<Longrightarrow> Q go t"
  shows "wlp (rconfreq_first E C i s) Q"
  using assms
  by (cases "state_of C s")
    (auto simp: rconfreq_first_def finally_ret_def renegotiate_def table_defs after_sconfreq_def
      intro!: wlp_client)

lemma check_ci_tame: "tame C (check_ci C p n) s"
proof (cases "reqci C")
  case None
  then show ?thesis by (simp add: tame_def check_ci_def)
next
  case (Some q)
  from reqci_tame [OF this, of p n "nakloops (getf C s) \<ge> maxnakloops (getf C s)" s] Some
  show ?thesis by (simp add: tame_def check_ci_def)
qed

lemma rconfreq_answer_table:
  assumes "state_of C u \<in> {REQSENT, ACKRCVD, ACKSENT, OPENED}" and "0 < pend C u"
    and "state_of C u = ACKRCVD \<longleftrightarrow> state_of C s = ACKRCVD"
    and "state_of C s \<notin> {INITIAL, STARTING, CLOSED, CLOSING, STOPPING}"
  shows "wlp (rconfreq_answer E C i (code, p, n) u)
     (\<lambda>_. follows_table C (if code = ConfAck then RCR_plus else RCR_minus) s)"
  using assms
  by (cases "state_of C s"; cases code)
    (auto simp: rconfreq_answer_def table_defs intro!: wlp_client wlp_call_up_then)

lemma rconfack_table:
  assumes "timer_inv C s" and "uint i = reqid (getf C s)"
    and "(case ackci C of Some k \<Rightarrow> k p n | None \<Rightarrow> ret (n = 0)) s = Ret True s1"
  shows "wlp (fsm_rconfack E C i p n s) (\<lambda>_. follows_table C RCA s)"
proof -
  have "getf C s1 = getf C s \<and> pend C s1 = pend C s"
    using assms(3) ackci_tame [of _ p n s] by (auto simp: tame_def split: option.splits)
  with assms show ?thesis
    by (cases "state_of C s")
      (auto simp: fsm_rconfack_def renegotiate_def table_defs intro!: wlp_client wlp_call_layer)
qed

lemma rconfnakrej_table:
  assumes "timer_inv C s" and "calm s" and "uint i = reqid (getf C s)"
    and "(case (if code = CONFNAK (eh E) then nakci C else rejci C) of
       Some k \<Rightarrow> k p n | None \<Rightarrow> ret False) s = Ret True s1"
  shows "wlp (fsm_rconfnakrej E C code i p n s) (\<lambda>_. follows_table C RCN s)"
proof -
  have "getf C s1 = getf C s \<and> pend C s1 = pend C s"
    using assms(2,4) nakci_tame [of _ p n s] rejci_tame [of _ s p n]
    by (auto simp: tame_if_def split: option.splits if_splits)
  with assms show ?thesis
    by (cases "state_of C s")
      (auto simp: fsm_rconfnakrej_def renegotiate_def table_defs intro!: wlp_client)
qed

lemma step_follows_table:
  assumes "fsm_step E C s e t" and inv: "e = TO_plus \<or> e = TO_minus \<or> timer_inv C s" and "calm s"
    and "\<not> (e = RTA \<and> state_of C s = OPENED)"
  shows "follows_table C e s t"
  using assms
proof cases
  case s_to_plus
  with wlpD [OF timeout_table] show ?thesis by fastforce
next
  case s_to_minus
  with wlpD [OF timeout_table] show ?thesis by fastforce
next
  case (s_rcr i s1 p n code p' n' s2)
  have "wlp (rconfreq_first E C i s) (\<lambda>go u. go \<longrightarrow>
      state_of C u \<in> {REQSENT, ACKRCVD, ACKSENT, OPENED} \<and> 0 < pend C u
      \<and> (state_of C u = ACKRCVD \<longleftrightarrow> state_of C s = ACKRCVD)
      \<and> state_of C s \<notin> {CLOSED, CLOSING, STOPPING})"
    using inv s_rcr(1,2) by (intro rconfreq_first_table) (auto split: if_splits)
  note first = wlpD [OF this s_rcr(3)]
  have "getf C s2 = getf C s1 \<and> pend C s2 = pend C s1"
    using s_rcr(4) check_ci_tame [of p n s1] by (simp add: tame_def)
  with first s_rcr(2) have "wlp (rconfreq_answer E C i (code, p', n') s2)
     (\<lambda>_. follows_table C (if code = ConfAck then RCR_plus else RCR_minus) s)"
    by (intro rconfreq_answer_table) (auto simp: state_of_def)
  from wlpD [OF this s_rcr(5)] show ?thesis using s_rcr(1) by simp
next
  case (s_rcr_ignored i)
  have "wlp (rconfreq_first E C i s) (\<lambda>go u. \<not> go \<longrightarrow>
      state_of C s \<in> {CLOSED, CLOSING, STOPPING} \<and> state_of C u = state_of C s \<and> timer_inv C u)"
    using inv s_rcr_ignored(1,3) by (intro rconfreq_first_table) (auto split: if_splits)
  from wlpD [OF this s_rcr_ignored(2)] s_rcr_ignored(3) show ?thesis
    by (auto simp: follows_table_def rfc_layer_def)
qed (auto dest: wlpD [OF lowerup_table] wlpD [OF lowerdown_table] wlpD [OF open_table]
  wlpD [OF close_table] wlpD [OF rtermreq_table] wlpD [OF rtermack_table]
  wlpD [OF rcoderej_table] wlpD [OF protreject_table] wlpD [OF rconfack_table]
  wlpD [OF rconfnakrej_table])

text \<open>
  Left alone by the peer, the negotiation retransmits its request once per expiry until the
  count is used up.
\<close>

lemma expire_negotiation:
  assumes "state_of C s \<in> {REQSENT, ACKRCVD, ACKSENT}" and "retransmits (getf C s) = int k"
  shows "wp (expire E C k s) (\<lambda>_ t. state_of C t \<in> {REQSENT, ACKRCVD, ACKSENT}
    \<and> retransmits (getf C t) = 0 \<and> pend C t = pend C s + k
    \<and> opt_passive (getf C t) = opt_passive (getf C s) \<and> opt_restart (getf C t) = opt_restart (getf C s)) X"
  using assms
proof (induction k arbitrary: s)
  case (Suc k)
  have "wp (fsm_timeout E C s) (\<lambda>_ t. state_of C t \<in> {REQSENT, ACKRCVD, ACKSENT}
      \<and> retransmits (getf C t) = int k \<and> pend C t = Suc (pend C s)
      \<and> opt_passive (getf C t) = opt_passive (getf C s) \<and> opt_restart (getf C t) = opt_restart (getf C s)) X"
    using Suc.prems
    by (cases "state_of C s")
      (auto simp: fsm_timeout_def Let_def state_of_def after_sconfreq_def
        intro!: wp_tame [OF call_tame(4)] wp_sconfreq)
  then show ?case by (auto elim!: wp_mono intro: wp_mono [OF Suc.IH])
qed simp

end

lemma expire_last: "expire E C (Suc n) = bnd (expire E C n) (\<lambda>_. fsm_timeout E C)"
proof (induction n)
  case 0
  show ?case by (rule ext) (simp add: bnd_def split: res.split)
next
  case (Suc n)
  have "expire E C (Suc (Suc n)) = bnd (fsm_timeout E C) (\<lambda>_. expire E C (Suc n))" by simp
  also have "\<dots> = bnd (bnd (fsm_timeout E C) (\<lambda>_. expire E C n)) (\<lambda>_. fsm_timeout E C)"
    unfolding Suc bnd_assoc ..
  finally show ?case by simp
qed

context fsm_client
begin

lemma rtermack_in_opened:
  "state_of C s = OPENED \<Longrightarrow>
   wp (fsm_rtermack E C s) (\<lambda>_ t. state_of C t = OPENED \<and> pend C t = Suc (pend C s)) X"
  by (auto simp: fsm_rtermack_def renegotiate_def state_of_def intro!: wp_tame [OF call_tame(2)] wp_sconfreq)

end

section \<open>Calls that leave an automaton alone\<close>

text \<open>
  The sufficient condition under which the clients meet the contract: a call that always
  returns and changes neither the structure of automaton \<open>P\<close> nor its pending timeouts.
\<close>

definition quiet :: "proto \<Rightarrow> (ppp, 'a) act \<Rightarrow> bool" where
  "quiet P f \<longleftrightarrow> (\<forall>s. wp (f s) (\<lambda>_ t. fsm_get P t = fsm_get P s \<and>
     callout_pending (callout t) (Fsm_timeout P) = callout_pending (callout s) (Fsm_timeout P)) (\<lambda>_. False))"

named_theorems quiets \<open>rules for quiet calls\<close>

lemma quiet_tame: "quiet (self C) f \<Longrightarrow> tame C f s"
  by (drule spec [where x = s, OF quiet_def [THEN iffD1]])
    (cases "f s"; simp add: tame_def getf_def pend_def)

lemma quiet_ret [quiets]: "quiet P (ret a)" "quiet P skip" "quiet P (\<lambda>s. Ret (f s) s)"
  by (simp_all add: quiet_def)

lemma quiet_upd [quiets]:
  "(\<And>s. fsm_get P (g s) = fsm_get P s) \<Longrightarrow> (\<And>s. callout (g s) = callout s) \<Longrightarrow> quiet P (upd g)"
  by (simp add: quiet_def)

lemma quiet_bnd [quiets]:
  assumes "quiet P f" and "\<And>a. quiet P (g a)"
  shows "quiet P (bnd f g)"
  unfolding quiet_def
proof
  fix s
  show "wp (bnd f g s) (\<lambda>_ t. fsm_get P t = fsm_get P s \<and> callout_pending (callout t) (Fsm_timeout P)
     = callout_pending (callout s) (Fsm_timeout P)) (\<lambda>_. False)"
    using assms(1) [unfolded quiet_def, rule_format, of s]
    by simp (erule wp_mono, rule wp_mono [OF assms(2) [unfolded quiet_def, rule_format]], auto)
qed

lemma quiet_steps [quiets]: "(\<And>f. f \<in> set fs \<Longrightarrow> quiet P f) \<Longrightarrow> quiet P (steps fs)"
  by (induction fs) (auto intro: quiet_ret quiet_bnd)

lemma quiet_if [quiets]:
  "quiet P f \<Longrightarrow> quiet P g \<Longrightarrow> quiet P (\<lambda>s. if b s then f s else g s)"
  "quiet P f \<Longrightarrow> quiet P g \<Longrightarrow> quiet P (if c then f else g)"
  by (simp_all add: quiet_def)

context reliable
begin

lemma quiet_calls [quiets]:
  "quiet P (ext E c)" "quiet P (ioctl_or_die E c)" "quiet P (output_frame E p)"
  "quiet P (set_itimer E n)"
  by (cases P; simp add: quiet_def ext_def ioctl_or_die_ok output_frame_ok set_itimer_ok)+

lemma quiet_timeout [quiets]: "f \<noteq> Fsm_timeout P \<Longrightarrow> quiet P (ppp_timeout E f n)"
  by (cases P) (simp_all add: quiet_def ppp_timeout_ok Let_def)

lemma quiet_untimeout [quiets]: "f \<noteq> Fsm_timeout P \<Longrightarrow> quiet P (ppp_untimeout E f)"
  unfolding quiet_def
proof
  fix s assume "f \<noteq> Fsm_timeout P"
  with ppp_untimeout_ok [of f s] show "wp (ppp_untimeout E f s) (\<lambda>_ t. fsm_get P t = fsm_get P s \<and>
     callout_pending (callout t) (Fsm_timeout P) = callout_pending (callout s) (Fsm_timeout P)) (\<lambda>_. False)"
    by (cases P) auto
qed

lemma quiet_ext: "(\<And>v. quiet P (g (0, v))) \<Longrightarrow> quiet P (bnd (ext E c) g)"
proof -
  assume g: "\<And>v. quiet P (g (0, v))"
  have "quiet P (\<lambda>s. g (0, snd (world E (trace s) c)) (s\<lparr>trace := c # trace s\<rparr>))"
    unfolding quiet_def
  proof
    fix s
    from g [unfolded quiet_def, rule_format, of "snd (world E (trace s) c)" "s\<lparr>trace := c # trace s\<rparr>"]
    show "wp (g (0, snd (world E (trace s) c)) (s\<lparr>trace := c # trace s\<rparr>)) (\<lambda>_ t. fsm_get P t = fsm_get P s
      \<and> callout_pending (callout t) (Fsm_timeout P) = callout_pending (callout s) (Fsm_timeout P)) (\<lambda>_. False)"
      by (cases P) simp_all
  qed
  moreover have "world E tr c = (0, snd (world E tr c))" for tr
    by (simp add: prod_eq_iff)
  ultimately show ?thesis
    by (simp add: quiet_def)
qed

lemma quiet_try_ext [quiets]: "(\<And>v. quiet P (k v)) \<Longrightarrow> quiet P (try_ext E c k)"
  unfolding try_ext_def by (rule quiet_ext) simp

lemma quiet_driver [quiets]:
  "quiet P (change_flags_or_die E f)" "quiet P (ppp_send_config E n m b c)"
  "quiet P (ppp_recv_config E n m b c)" "quiet P (sifdown E)" "quiet P (cifaddr E x y)"
  "quiet P (cifdefaultroute E x)" "quiet P (cifproxyarp E x)"
proof -
  show 1: "quiet P (change_flags_or_die E f)" for f
    unfolding change_flags_or_die_def by (rule quiet_ext) (auto intro!: quiets)
  show "quiet P (ppp_send_config E n m b c)" "quiet P (ppp_recv_config E n m b c)"
    unfolding ppp_send_config_def ppp_recv_config_def by (auto intro!: quiets 1)
  show "quiet P (sifdown E)" "quiet P (cifaddr E x y)" "quiet P (cifdefaultroute E x)" "quiet P (cifproxyarp E x)"
    unfolding sifdown_def cifaddr_def cifdefaultroute_def cifproxyarp_def
    by (intro quiets; simp)+
qed

end

lemma quiet_pointwise: "(\<And>s. \<exists>g. quiet P g \<and> f s = g s) \<Longrightarrow> quiet P f"
  unfolding quiet_def by metis

lemma quiet_set_state [quiets]: "P \<noteq> self C \<Longrightarrow> quiet P (set_state C st)"
  by (cases P; cases "self C") (simp_all add: quiet_def set_state_def modf_def)

lemma quiet_call [quiets]: "(\<And>f. p = Some f \<Longrightarrow> quiet P f) \<Longrightarrow> quiet P (call p)"
  by (cases p) (simp_all add: quiet_def)

context reliable
begin

lemma quiet_lowerdown:
  assumes "P \<noteq> self C" and "quiet P (call (down C))" and "quiet P (call (starting C))"
  shows "quiet P (fsm_lowerdown E C)"
proof (rule quiet_pointwise)
  fix s
  have "quiet P (UNTIMEOUT_FSM E C)"
    unfolding UNTIMEOUT_FSM_def using assms(1) by (auto intro!: quiet_untimeout)
  with assms show "\<exists>g. quiet P g \<and> fsm_lowerdown E C s = g s"
    by (intro exI [of _ "case state_of C s of
        CLOSED \<Rightarrow> set_state C INITIAL
      | STOPPED \<Rightarrow> steps [set_state C STARTING, call (starting C)]
      | CLOSING \<Rightarrow> steps [set_state C INITIAL, UNTIMEOUT_FSM E C]
      | OPENED \<Rightarrow> steps [call (down C), set_state C STARTING]
      | INITIAL \<Rightarrow> skip | STARTING \<Rightarrow> skip
      | _ \<Rightarrow> steps [set_state C STARTING, UNTIMEOUT_FSM E C]"])
      (auto simp: fsm_lowerdown_def split: fsm_st.split intro!: quiets)
qed

end

lemma tame_tame_if: "tame C f s \<Longrightarrow> tame_if C f s"
  by (auto simp: tame_def tame_if_def)


end
