(* ===== verification/Ipcp.thy ===== *)
theory Ipcp
  imports Ipcp_Options_Spec Auth_Secrets Fsm_Spec
begin

text \<open>
  IPCP as a client of the automaton: the rest of \<open>ipcp.c\<close>. \<open>ipcp_up\<close> may close the protocol
  again; since \<open>fsm_close\<close> does not call \<open>up\<close>, it is defined over the table without that
  entry, and \<open>ipcp_close_table\<close> shows that this makes no difference.
\<close>

definition ipcp_init :: "env \<Rightarrow> (ppp, unit) act" where
  "ipcp_init E = steps
     [fsm_init E IpcpF,
      upd (\<lambda>s. s\<lparr>ipcp_wantoptions := (ipcp_wantoptions s)\<lparr>neg_addr := True, old_addrs := False,
          ouraddr := 0, hisaddr := 0, neg_vj := True, old_vj := False, vj_protocol := IPCP_VJ_COMP (eh E),
          maxslotindex := MAX_STATES (eh E) - 1, cflag := 1\<rparr>,
        ipcp_allowoptions := (ipcp_allowoptions s)\<lparr>neg_addr := True, neg_vj := True,
          maxslotindex := MAX_STATES (eh E) - 1, cflag := 1\<rparr>\<rparr>)]"

text \<open>Calls whose result is not used.\<close>

abbreviation (input) discard :: "(ppp, 'a) act \<Rightarrow> (ppp, unit) act" where
  "discard f \<equiv> bnd f (\<lambda>_. skip)"

definition ipcp_down :: "env \<Rightarrow> (ppp, unit) act" where
  "ipcp_down E s =
     (let ouraddr1 = ouraddr (ipcp_gotoptions s); hisaddr1 = hisaddr (ipcp_hisoptions s) in steps
        [\<lambda>s. if proxy_arp (ipcp_gotoptions s) then discard (cifproxyarp E hisaddr1) s else Ret () s,
         \<lambda>s. if default_route (ipcp_gotoptions s) then discard (cifdefaultroute E hisaddr1) s else Ret () s,
         discard (sifdown E),
         discard (cifaddr E ouraddr1 hisaddr1)] s)"

definition ipcp_callbacks0 :: "env \<Rightarrow> fsm_callbacks" where
  "ipcp_callbacks0 E = \<lparr>
     self = IpcpF,
     resetci = Some ipcp_resetci,
     cilen = Some (\<lambda>s. ipcp_cilen (ipcp_gotoptions s)),
     addci = Some (ipcp_addci (eh E)),
     ackci = Some (\<lambda>p len s. Ret (ipcp_ackci (eh E) (ipcp_gotoptions s) p len) s),
     nakci = Some (ipcp_nakci (eh E)),
     rejci = Some (ipcp_rejci E),
     reqci = Some (ipcp_reqci (eh E)),
     up = None, down = Some (ipcp_down E), starting = None, finished = None,
     retransmit = None, extcode = None\<rparr>"

definition ipcp_close :: "env \<Rightarrow> (ppp, unit) act" where
  "ipcp_close E = steps [fsm_close E (ipcp_callbacks0 E), die_fn E]"

text \<open>\<open>ipcp_up\<close> after the addresses have been settled.\<close>

definition ipcp_config :: "env \<Rightarrow> (ppp, unit) act" where
  "ipcp_config E s =
     bnd (sifaddr E (ouraddr (ipcp_gotoptions s)) (hisaddr (ipcp_hisoptions s)) (netmask s)) (\<lambda>ok1.
       if \<not> ok1 then ipcp_close E
       else steps
         [\<lambda>s. discard (sifvjcomp E (neg_vj (ipcp_hisoptions s)) (cflag (ipcp_hisoptions s))
            (maxslotindex (ipcp_hisoptions s))) s,
          bnd (sifup E) (\<lambda>ok2.
            if \<not> ok2 then ipcp_close E
            else steps
              [\<lambda>s. if default_route (ipcp_wantoptions s)
                 then bnd (sifdefaultroute E (hisaddr (ipcp_hisoptions s))) (\<lambda>ok. upd (\<lambda>s. if ok
                   then s\<lparr>ipcp_gotoptions := (ipcp_gotoptions s)\<lparr>default_route := True\<rparr>\<rparr> else s)) s
                 else Ret () s,
               \<lambda>s. if proxy_arp (ipcp_wantoptions s)
                 then bnd (sifproxyarp E (hisaddr (ipcp_hisoptions s))) (\<lambda>ok. upd (\<lambda>s. if ok
                   then s\<lparr>ipcp_gotoptions := (ipcp_gotoptions s)\<lparr>proxy_arp := True\<rparr>\<rparr> else s)) s
                 else Ret () s])]) s"

definition ipcp_up :: "env \<Rightarrow> auth_env \<Rightarrow> (ppp, unit) act" where
  "ipcp_up E A = steps
     [upd (\<lambda>s. s\<lparr>ipcp_gotoptions := (ipcp_gotoptions s)\<lparr>default_route := False, proxy_arp := False\<rparr>\<rparr>),
      upd (\<lambda>s. if \<not> neg_addr (ipcp_hisoptions s)
        then s\<lparr>ipcp_hisoptions := (ipcp_hisoptions s)\<lparr>hisaddr := hisaddr (ipcp_wantoptions s)\<rparr>\<rparr> else s),
      \<lambda>s. if hisaddr (ipcp_hisoptions s) = 0 then ipcp_close E s
        else if ouraddr (ipcp_gotoptions s) = 0 then ipcp_close E s
        else if \<not> auth_ip_addr A (eh E) s (hisaddr (ipcp_hisoptions s)) then ipcp_close E s
        else ipcp_config E s]"

definition ipcp_callbacks :: "env \<Rightarrow> auth_env \<Rightarrow> fsm_callbacks" where
  "ipcp_callbacks E A = (ipcp_callbacks0 E)\<lparr>up := Some (ipcp_up E A)\<rparr>"

definition ipcp_open :: "env \<Rightarrow> auth_env \<Rightarrow> (ppp, unit) act" where
  "ipcp_open E A = fsm_open E (ipcp_callbacks E A)"

definition ipcp_lowerup :: "env \<Rightarrow> auth_env \<Rightarrow> (ppp, unit) act" where
  "ipcp_lowerup E A = fsm_lowerup E (ipcp_callbacks E A)"

definition ipcp_lowerdown :: "env \<Rightarrow> auth_env \<Rightarrow> (ppp, unit) act" where
  "ipcp_lowerdown E A = fsm_lowerdown E (ipcp_callbacks E A)"

definition ipcp_input :: "env \<Rightarrow> auth_env \<Rightarrow> bytes \<Rightarrow> int \<Rightarrow> (ppp, unit) act" where
  "ipcp_input E A p len = fsm_input E (ipcp_callbacks E A) p len"

definition ipcp_protrej :: "env \<Rightarrow> auth_env \<Rightarrow> (ppp, unit) act" where
  "ipcp_protrej E A = fsm_lowerdown E (ipcp_callbacks E A)"

section \<open>The table without \<open>up\<close>\<close>

lemma self_ipcp [simp]: "self (ipcp_callbacks0 E) = IpcpF" "self (ipcp_callbacks E A) = IpcpF"
  by (simp_all add: ipcp_callbacks0_def ipcp_callbacks_def)

lemma close_upto_up: "fsm_close E (C\<lparr>up := u\<rparr>) = fsm_close E C"
proof -
  have eqs: "modf (C\<lparr>up := u\<rparr>) = modf C" "getf (C\<lparr>up := u\<rparr>) = getf C"
    "set_state (C\<lparr>up := u\<rparr>) = set_state C" "state_of (C\<lparr>up := u\<rparr>) = state_of C"
    "TIMEOUT_FSM E (C\<lparr>up := u\<rparr>) = TIMEOUT_FSM E C" "UNTIMEOUT_FSM E (C\<lparr>up := u\<rparr>) = UNTIMEOUT_FSM E C"
    "fsm_sdata E (C\<lparr>up := u\<rparr>) = fsm_sdata E C"
    by (simp_all add: fun_eq_iff modf_def getf_def set_state_def state_of_def TIMEOUT_FSM_def
        UNTIMEOUT_FSM_def fsm_sdata_def)
  show ?thesis by (rule ext) (simp add: fsm_close_def send_termreq_def eqs Let_def split: fsm_st.split)
qed

lemma ipcp_close_table: "ipcp_close E = steps [fsm_close E (ipcp_callbacks E A), die_fn E]"
  by (simp add: ipcp_close_def ipcp_callbacks_def close_upto_up)

section \<open>The contract of the automaton\<close>

lemma quiet_ipcp_down [quiets]: "quiet P (ipcp_down (ok_env h r v d))"
proof -
  let ?E = "ok_env h r v d"
  have "quiet P (steps
        [\<lambda>s. if proxy_arp (ipcp_gotoptions s) then discard (cifproxyarp ?E y) s else Ret () s,
         \<lambda>s. if default_route (ipcp_gotoptions s) then discard (cifdefaultroute ?E y) s else Ret () s,
         discard (sifdown ?E),
         discard (cifaddr ?E x y)])" for x y
    by (rule quiet_steps) (auto intro!: quiet_bnd quiet_if okw.quiet_driver quiet_ret)
  then show ?thesis
    unfolding quiet_def ipcp_down_def Let_def by blast
qed

lemma quiet_ipcp_ci:
  "quiet IpcpF ipcp_resetci" "quiet IpcpF (ipcp_addci h n)" "quiet IpcpF (ipcp_nakci h p n)"
  "quiet IpcpF (ipcp_reqci h p n b)"
  by (simp_all add: quiet_def ipcp_resetci_def ipcp_addci_def ipcp_nakci_def ipcp_reqci_def Let_def
      split: prod.split option.split)

text \<open>The rejection of the address ends the connection.\<close>

definition ipcp_calm :: "(ppp, unit) act \<Rightarrow> ppp \<Rightarrow> bool" where
  "ipcp_calm d s \<longleftrightarrow> neg_addr (ipcp_gotoptions s) \<longrightarrow> (\<forall>t. d s \<noteq> Ret () t)"

lemma REJCIADDR_calm:
  assumes "ipcp_calm d s" and "REJCIADDR (ok_env h r v d) p n try s = Ret a t"
  shows "t = s"
proof (cases "neg_addr (ipcp_gotoptions s)")
  case True
  then have "d s \<noteq> Ret u t'" for u t' using assms(1) by (cases u) (simp add: ipcp_calm_def)
  with assms(2) show ?thesis
    by (cases "d s") (simp_all add: REJCIADDR_def bnd_def Let_def split: if_split_asm)
next
  case False
  with assms(2) show ?thesis by (simp add: REJCIADDR_def Let_def)
qed

lemma ipcp_rejci_tame:
  assumes "ipcp_calm d s" and C: "self C = IpcpF"
  shows "tame_if C (ipcp_rejci (ok_env h r v d) p n) s"
proof (cases "REJCIADDR (ok_env h r v d) p n (ipcp_gotoptions s) s")
  case (Ret a t)
  with REJCIADDR_calm assms(1) have "t = s" by blast
  with Ret C show ?thesis
    by (auto simp: tame_if_def ipcp_rejci_def bnd_def getf_def pend_def split: option.splits if_splits)
qed (simp_all add: tame_if_def ipcp_rejci_def bnd_def)

lemma ipcp_callbacks_simps [simp]:
  "resetci (ipcp_callbacks E A) = Some ipcp_resetci" "addci (ipcp_callbacks E A) = Some (ipcp_addci (eh E))"
  "ackci (ipcp_callbacks E A) = Some (\<lambda>p len s. Ret (ipcp_ackci (eh E) (ipcp_gotoptions s) p len) s)"
  "nakci (ipcp_callbacks E A) = Some (ipcp_nakci (eh E))" "rejci (ipcp_callbacks E A) = Some (ipcp_rejci E)"
  "reqci (ipcp_callbacks E A) = Some (ipcp_reqci (eh E))" "down (ipcp_callbacks E A) = Some (ipcp_down E)"
  "starting (ipcp_callbacks E A) = None" "retransmit (ipcp_callbacks E A) = None"
  "up (ipcp_callbacks E A) = Some (ipcp_up E A)" "finished (ipcp_callbacks E A) = None"
  by (simp_all add: ipcp_callbacks_def ipcp_callbacks0_def)

interpretation ipcp: fsm_client "ok_env h r v d" "ipcp_callbacks (ok_env h r v d) A" "ipcp_calm d"
  for h r v d A
  by unfold_locales
    (auto intro!: quiet_tame quiet_ipcp_ci quiet_ipcp_down quiet_ret ipcp_rejci_tame
      tame_tame_if [where f = "ipcp_nakci h p n" for p n])

end
