(* ===== verification/Auth.thy ===== *)
theory Auth
  imports Ipcp
begin

text \<open>
  The book-keeping of \<open>auth.c\<close> on which authentications are still to be done, and what
  follows when one succeeds or fails: the network phase begins when nothing is pending.
\<close>

definition UPAP_WITHPEER :: u32 where "UPAP_WITHPEER = 1"
definition UPAP_PEER :: u32 where "UPAP_PEER = 2"
definition CHAP_WITHPEER :: u32 where "CHAP_WITHPEER = 4"
definition CHAP_PEER :: u32 where "CHAP_PEER = 8"

definition link_required :: "(ppp, unit) act" where
  "link_required = skip"

definition link_terminated :: "(ppp, unit) act" where
  "link_terminated = upd (\<lambda>s. s\<lparr>ppp_phase := PHASE_DEAD\<rparr>)"

definition link_down :: "(ppp, unit) act" where
  "link_down = upd (\<lambda>s. s\<lparr>ppp_phase := PHASE_TERMINATE\<rparr>)"

definition network_phase :: "env \<Rightarrow> auth_env \<Rightarrow> (ppp, unit) act" where
  "network_phase E A = steps [upd (\<lambda>s. s\<lparr>ppp_phase := PHASE_NETWORK\<rparr>), ipcp_open E A]"

text \<open>\<open>if ((auth_pending &= ~bit) == 0)\<close> the network phase.\<close>

definition clear_pending :: "env \<Rightarrow> auth_env \<Rightarrow> u32 \<Rightarrow> (ppp, unit) act" where
  "clear_pending E A b = steps
     [upd (\<lambda>s. s\<lparr>auth_pending := auth_pending s AND NOT b\<rparr>),
      \<lambda>s. if auth_pending s = 0 then network_phase E A s else Ret () s]"

definition auth_peer_fail :: "env \<Rightarrow> (ppp, unit) act" where
  "auth_peer_fail E = die_fn E"

definition auth_peer_success :: "env \<Rightarrow> auth_env \<Rightarrow> u16 \<Rightarrow> (ppp, unit) act" where
  "auth_peer_success E A protocol =
     (if protocol = CHAP (eh E) then clear_pending E A CHAP_PEER
      else if protocol = UPAP (eh E) then clear_pending E A UPAP_PEER
      else skip)"

definition auth_withpeer_fail :: "(ppp, unit) act" where
  "auth_withpeer_fail = skip"

definition auth_withpeer_success :: "env \<Rightarrow> auth_env \<Rightarrow> u16 \<Rightarrow> (ppp, unit) act" where
  "auth_withpeer_success E A protocol =
     clear_pending E A
       (if protocol = CHAP (eh E) then CHAP_WITHPEER
        else if protocol = UPAP (eh E) then UPAP_WITHPEER else 0)"

end
