(* ===== verification/Upap.thy ===== *)
theory Upap
  imports Auth
begin

text \<open>
  \<open>upap.c\<close>: the password authentication protocol, as client (we send our name and password
  until the peer answers) and as server (we check the peer's).
\<close>

text \<open>The server states are compared by their position, as the enumeration constants.\<close>

definition upap_ss_rank :: "upap_ss \<Rightarrow> nat" where
  "upap_ss_rank st = (case st of UPAPSS_INITIAL \<Rightarrow> 0 | UPAPSS_CLOSED \<Rightarrow> 1 | UPAPSS_PENDING \<Rightarrow> 2
     | UPAPSS_LISTEN \<Rightarrow> 3 | UPAPSS_OPEN \<Rightarrow> 4 | UPAPSS_BADAUTH \<Rightarrow> 5)"

instantiation upap_ss :: linorder
begin

definition less_eq_upap_ss :: "upap_ss \<Rightarrow> upap_ss \<Rightarrow> bool" where
  "less_eq_upap_ss x y \<longleftrightarrow> upap_ss_rank x \<le> upap_ss_rank y"

definition less_upap_ss :: "upap_ss \<Rightarrow> upap_ss \<Rightarrow> bool" where
  "less_upap_ss x y \<longleftrightarrow> upap_ss_rank x < upap_ss_rank y"

instance
proof
  show "x = y" if "x \<le> y" and "y \<le> x" for x y :: upap_ss
    using that by (cases x; cases y) (simp_all add: less_eq_upap_ss_def upap_ss_rank_def)
qed (auto simp: less_eq_upap_ss_def less_upap_ss_def)

end

abbreviation modu :: "(upap_state \<Rightarrow> upap_state) \<Rightarrow> (ppp, unit) act" where
  "modu g \<equiv> upd (\<lambda>s. s\<lparr>upap := g (upap s)\<rparr>)"

definition upap_init :: "env \<Rightarrow> (ppp, unit) act" where
  "upap_init E = modu (\<lambda>u. u\<lparr>us_user := [], us_passwd := [], us_clientstate := UPAPCS_INITIAL,
     us_serverstate := UPAPSS_INITIAL, us_id := 0, us_timeouttime := UPAP_DEFTIMEOUT (eh E),
     us_maxtransmits := 10\<rparr>)"

section \<open>Sending\<close>

definition sauthreq_frame :: "hdr \<Rightarrow> u8 \<Rightarrow> bytes \<Rightarrow> bytes \<Rightarrow> bytes" where
  "sauthreq_frame h ident usr pw =
     MAKEHEADER h (UPAP h) @ [UPAP_AUTHREQ h, ident] @
     putshort h (word_of_int (UPAP_HEADERLEN h + 2 + int (length usr) + int (length pw))) @
     word_of_int (int (length usr)) # usr @ word_of_int (int (length pw)) # pw"

definition upap_sauthreq :: "env \<Rightarrow> (ppp, unit) act" where
  "upap_sauthreq E = steps
     [modu (\<lambda>u. u\<lparr>us_id := us_id u + 1\<rparr>),
      \<lambda>s. output_frame E (sauthreq_frame (eh E) (us_id (upap s)) (us_user (upap s)) (us_passwd (upap s))) s,
      \<lambda>s. ppp_timeout E Upap_timeout (us_timeouttime (upap s)) s,
      modu (\<lambda>u. u\<lparr>us_transmits := us_transmits u + 1\<rparr>),
      modu (\<lambda>u. u\<lparr>us_clientstate := UPAPCS_AUTHREQ\<rparr>)]"

definition sresp_frame :: "hdr \<Rightarrow> u8 \<Rightarrow> u8 \<Rightarrow> bytes \<Rightarrow> bytes" where
  "sresp_frame h code ident msg =
     MAKEHEADER h (UPAP h) @ [code, ident] @
     putshort h (word_of_int (UPAP_HEADERLEN h + 1 + int (length msg))) @
     word_of_int (int (length msg)) # msg"

definition upap_sresp :: "env \<Rightarrow> u8 \<Rightarrow> u8 \<Rightarrow> bytes \<Rightarrow> (ppp, unit) act" where
  "upap_sresp E code ident msg = output_frame E (sresp_frame (eh E) code ident msg)"

section \<open>Events\<close>

definition upap_authwithpeer :: "env \<Rightarrow> bytes \<Rightarrow> bytes \<Rightarrow> (ppp, unit) act" where
  "upap_authwithpeer E usr pw = steps
     [modu (\<lambda>u. u\<lparr>us_user := usr, us_passwd := pw, us_transmits := 0\<rparr>),
      \<lambda>s. if us_clientstate (upap s) = UPAPCS_INITIAL \<or> us_clientstate (upap s) = UPAPCS_PENDING
        then modu (\<lambda>u. u\<lparr>us_clientstate := UPAPCS_PENDING\<rparr>) s
        else upap_sauthreq E s]"

definition upap_authpeer :: "(ppp, unit) act" where
  "upap_authpeer s =
     (if us_serverstate (upap s) = UPAPSS_INITIAL \<or> us_serverstate (upap s) = UPAPSS_PENDING
      then modu (\<lambda>u. u\<lparr>us_serverstate := UPAPSS_PENDING\<rparr>) s
      else modu (\<lambda>u. u\<lparr>us_serverstate := UPAPSS_LISTEN\<rparr>) s)"

definition upap_timeout :: "env \<Rightarrow> (ppp, unit) act" where
  "upap_timeout E s =
     (if us_clientstate (upap s) \<noteq> UPAPCS_AUTHREQ then Ret () s
      else if us_transmits (upap s) \<ge> us_maxtransmits (upap s)
      then steps [modu (\<lambda>u. u\<lparr>us_clientstate := UPAPCS_BADAUTH\<rparr>), auth_withpeer_fail] s
      else upap_sauthreq E s)"

definition upap_lowerup :: "env \<Rightarrow> (ppp, unit) act" where
  "upap_lowerup E = steps
     [\<lambda>s. if us_clientstate (upap s) = UPAPCS_INITIAL
        then modu (\<lambda>u. u\<lparr>us_clientstate := UPAPCS_CLOSED\<rparr>) s
        else if us_clientstate (upap s) = UPAPCS_PENDING then upap_sauthreq E s else Ret () s,
      \<lambda>s. if us_serverstate (upap s) = UPAPSS_INITIAL
        then modu (\<lambda>u. u\<lparr>us_serverstate := UPAPSS_CLOSED\<rparr>) s
        else if us_serverstate (upap s) = UPAPSS_PENDING
        then modu (\<lambda>u. u\<lparr>us_serverstate := UPAPSS_LISTEN\<rparr>) s else Ret () s]"

definition upap_lowerdown :: "env \<Rightarrow> (ppp, unit) act" where
  "upap_lowerdown E = steps
     [\<lambda>s. if us_clientstate (upap s) = UPAPCS_AUTHREQ then ppp_untimeout E Upap_timeout s else Ret () s,
      modu (\<lambda>u. u\<lparr>us_clientstate := UPAPCS_INITIAL, us_serverstate := UPAPSS_INITIAL\<rparr>)]"

definition upap_protrej :: "env \<Rightarrow> (ppp, unit) act" where
  "upap_protrej E = steps
     [\<lambda>s. if us_clientstate (upap s) = UPAPCS_AUTHREQ then auth_withpeer_fail s else Ret () s,
      \<lambda>s. if us_serverstate (upap s) = UPAPSS_LISTEN then auth_peer_fail E s else Ret () s,
      upap_lowerdown E]"

section \<open>Packets\<close>

text \<open>The name and the password of an Authenticate-Request, if it is long enough.\<close>

definition parse_authreq :: "bytes \<Rightarrow> int \<Rightarrow> (bytes \<times> bytes) option" where
  "parse_authreq inp len =
     (if len < 1 then None
      else let ruserlen = unat (rd inp 0); len1 = len - (1 + int ruserlen + 1) in
        if len1 < 0 then None
        else let p1 = drop (1 + ruserlen) inp; rpasswdlen = unat (rd p1 0) in
          if len1 < int rpasswdlen then None
          else Some (take ruserlen (drop 1 inp), take rpasswdlen (drop 1 p1)))"

definition upap_rauthreq :: "env \<Rightarrow> auth_env \<Rightarrow> bytes \<Rightarrow> u8 \<Rightarrow> int \<Rightarrow> (ppp, unit) act" where
  "upap_rauthreq E A inp ident len s =
     (if us_serverstate (upap s) < UPAPSS_LISTEN then Ret () s
      else if us_serverstate (upap s) = UPAPSS_OPEN then upap_sresp E (UPAP_AUTHACK (eh E)) ident [] s
      else if us_serverstate (upap s) = UPAPSS_BADAUTH then upap_sresp E (UPAP_AUTHNAK (eh E)) ident [] s
      else (case parse_authreq inp len of
         None \<Rightarrow> Ret () s
       | Some (ruser, rpasswd) \<Rightarrow>
           bnd (check_passwd A ruser rpasswd) (\<lambda>(ok, msg). steps
             [upap_sresp E (if ok then UPAP_AUTHACK (eh E) else UPAP_AUTHNAK (eh E)) ident msg,
              if ok then steps [modu (\<lambda>u. u\<lparr>us_serverstate := UPAPSS_OPEN\<rparr>),
                   auth_peer_success E A (UPAP (eh E))]
              else steps [modu (\<lambda>u. u\<lparr>us_serverstate := UPAPSS_BADAUTH\<rparr>), auth_peer_fail E]]) s))"

text \<open>The message of an answer is only printed; the packet must be long enough for it.\<close>

definition msg_ok :: "bytes \<Rightarrow> int \<Rightarrow> bool" where
  "msg_ok inp len \<longleftrightarrow> \<not> len < 1 \<and> \<not> len - 1 < uint (rd inp 0)"

definition upap_rauthack :: "env \<Rightarrow> auth_env \<Rightarrow> bytes \<Rightarrow> int \<Rightarrow> (ppp, unit) act" where
  "upap_rauthack E A inp len s =
     (if us_clientstate (upap s) \<noteq> UPAPCS_AUTHREQ then Ret () s
      else if \<not> msg_ok inp len then Ret () s
      else steps [modu (\<lambda>u. u\<lparr>us_clientstate := UPAPCS_OPEN\<rparr>), auth_withpeer_success E A (UPAP (eh E))] s)"

definition upap_rauthnak :: "env \<Rightarrow> bytes \<Rightarrow> int \<Rightarrow> (ppp, unit) act" where
  "upap_rauthnak E inp len s =
     (if us_clientstate (upap s) \<noteq> UPAPCS_AUTHREQ then Ret () s
      else if \<not> msg_ok inp len then Ret () s
      else steps [modu (\<lambda>u. u\<lparr>us_clientstate := UPAPCS_BADAUTH\<rparr>), auth_withpeer_fail] s)"

definition upap_input :: "env \<Rightarrow> auth_env \<Rightarrow> bytes \<Rightarrow> int \<Rightarrow> (ppp, unit) act" where
  "upap_input E A inpacket l s =
     (case parse_header (eh E) (UPAP_HEADERLEN (eh E)) inpacket l of
        None \<Rightarrow> Ret () s
      | Some (code, ident, inp, len) \<Rightarrow>
          if code = UPAP_AUTHREQ (eh E) then upap_rauthreq E A inp ident len s
          else if code = UPAP_AUTHACK (eh E) then upap_rauthack E A inp len s
          else if code = UPAP_AUTHNAK (eh E) then upap_rauthnak E inp len s
          else Ret () s)"

end
