(* ===== verification/Md5.thy ===== *)
theory Md5
  imports Ppp_Prelude
begin

text \<open>
  \<open>ppp_md5.c\<close>: the message digest CHAP uses. The context is a record; a message may be given in
  pieces. The properties: the digest does not depend on how the message is split nor on what
  the context held before \<open>ppp_MD5Init\<close>, it is the digest of the padded message in the sense of
  RFC 1321, section 3, and the test suite of that RFC is reproduced.
\<close>

type_synonym md5_buf = "u32 \<times> u32 \<times> u32 \<times> u32"

record MD5_CTX =
  md_i0 :: u32
  md_i1 :: u32
  md_buf :: md5_buf
  md_in :: bytes
  md_digest :: bytes

definition PADDING :: bytes where
  "PADDING = 0x80 # replicate 63 0"

section \<open>The basic functions\<close>

definition md_F :: "u32 \<Rightarrow> u32 \<Rightarrow> u32 \<Rightarrow> u32" where "md_F x y z = (x AND y) OR (NOT x AND z)"
definition md_G :: "u32 \<Rightarrow> u32 \<Rightarrow> u32 \<Rightarrow> u32" where "md_G x y z = (x AND z) OR (y AND NOT z)"
definition md_H :: "u32 \<Rightarrow> u32 \<Rightarrow> u32 \<Rightarrow> u32" where "md_H x y z = x XOR y XOR z"
definition md_I :: "u32 \<Rightarrow> u32 \<Rightarrow> u32 \<Rightarrow> u32" where "md_I x y z = y XOR (x OR NOT z)"

definition ROTATE_LEFT :: "u32 \<Rightarrow> nat \<Rightarrow> u32" where
  "ROTATE_LEFT x n = push_bit n x OR drop_bit (32 - n) x"

definition FF :: "u32 \<Rightarrow> u32 \<Rightarrow> u32 \<Rightarrow> u32 \<Rightarrow> u32 \<Rightarrow> nat \<Rightarrow> u32 \<Rightarrow> u32" where
  "FF a b c d x s ac = ROTATE_LEFT (a + (md_F b c d + x + ac)) s + b"
definition GG :: "u32 \<Rightarrow> u32 \<Rightarrow> u32 \<Rightarrow> u32 \<Rightarrow> u32 \<Rightarrow> nat \<Rightarrow> u32 \<Rightarrow> u32" where
  "GG a b c d x s ac = ROTATE_LEFT (a + (md_G b c d + x + ac)) s + b"
definition HH :: "u32 \<Rightarrow> u32 \<Rightarrow> u32 \<Rightarrow> u32 \<Rightarrow> u32 \<Rightarrow> nat \<Rightarrow> u32 \<Rightarrow> u32" where
  "HH a b c d x s ac = ROTATE_LEFT (a + (md_H b c d + x + ac)) s + b"
definition II :: "u32 \<Rightarrow> u32 \<Rightarrow> u32 \<Rightarrow> u32 \<Rightarrow> u32 \<Rightarrow> nat \<Rightarrow> u32 \<Rightarrow> u32" where
  "II a b c d x s ac = ROTATE_LEFT (a + (md_I b c d + x + ac)) s + b"

section \<open>Transform\<close>

text \<open>
  One line of \<open>Transform\<close>: the register that is assigned (the other three follow it in the
  order \<open>a, b, c, d, a, ...\<close>), the word of the block, the rotation and the constant.
\<close>

datatype reg = Ra | Rb | Rc | Rd

fun md_step :: "(u32 \<Rightarrow> u32 \<Rightarrow> u32 \<Rightarrow> u32 \<Rightarrow> u32 \<Rightarrow> nat \<Rightarrow> u32 \<Rightarrow> u32) \<Rightarrow> u32 list \<Rightarrow>
    reg \<times> nat \<times> nat \<times> u32 \<Rightarrow> md5_buf \<Rightarrow> md5_buf" where
  "md_step f inp (Ra, k, s, ac) (a, b, c, d) = (f a b c d (inp ! k) s ac, b, c, d)"
| "md_step f inp (Rd, k, s, ac) (a, b, c, d) = (a, b, c, f d a b c (inp ! k) s ac)"
| "md_step f inp (Rc, k, s, ac) (a, b, c, d) = (a, b, f c d a b (inp ! k) s ac, d)"
| "md_step f inp (Rb, k, s, ac) (a, b, c, d) = (a, f b c d a (inp ! k) s ac, c, d)"

definition round1 :: "u32 list \<Rightarrow> md5_buf \<Rightarrow> md5_buf" where
  "round1 inp = fold (md_step FF inp)
     [(Ra, 0, 7, 3614090360), (Rd, 1, 12, 3905402710), (Rc, 2, 17, 606105819), (Rb, 3, 22, 3250441966),
      (Ra, 4, 7, 4118548399), (Rd, 5, 12, 1200080426), (Rc, 6, 17, 2821735955), (Rb, 7, 22, 4249261313),
      (Ra, 8, 7, 1770035416), (Rd, 9, 12, 2336552879), (Rc, 10, 17, 4294925233), (Rb, 11, 22, 2304563134),
      (Ra, 12, 7, 1804603682), (Rd, 13, 12, 4254626195), (Rc, 14, 17, 2792965006), (Rb, 15, 22, 1236535329)]"

definition round2 :: "u32 list \<Rightarrow> md5_buf \<Rightarrow> md5_buf" where
  "round2 inp = fold (md_step GG inp)
     [(Ra, 1, 5, 4129170786), (Rd, 6, 9, 3225465664), (Rc, 11, 14, 643717713), (Rb, 0, 20, 3921069994),
      (Ra, 5, 5, 3593408605), (Rd, 10, 9, 38016083), (Rc, 15, 14, 3634488961), (Rb, 4, 20, 3889429448),
      (Ra, 9, 5, 568446438), (Rd, 14, 9, 3275163606), (Rc, 3, 14, 4107603335), (Rb, 8, 20, 1163531501),
      (Ra, 13, 5, 2850285829), (Rd, 2, 9, 4243563512), (Rc, 7, 14, 1735328473), (Rb, 12, 20, 2368359562)]"

definition round3 :: "u32 list \<Rightarrow> md5_buf \<Rightarrow> md5_buf" where
  "round3 inp = fold (md_step HH inp)
     [(Ra, 5, 4, 4294588738), (Rd, 8, 11, 2272392833), (Rc, 11, 16, 1839030562), (Rb, 14, 23, 4259657740),
      (Ra, 1, 4, 2763975236), (Rd, 4, 11, 1272893353), (Rc, 7, 16, 4139469664), (Rb, 10, 23, 3200236656),
      (Ra, 13, 4, 681279174), (Rd, 0, 11, 3936430074), (Rc, 3, 16, 3572445317), (Rb, 6, 23, 76029189),
      (Ra, 9, 4, 3654602809), (Rd, 12, 11, 3873151461), (Rc, 15, 16, 530742520), (Rb, 2, 23, 3299628645)]"

definition round4 :: "u32 list \<Rightarrow> md5_buf \<Rightarrow> md5_buf" where
  "round4 inp = fold (md_step II inp)
     [(Ra, 0, 6, 4096336452), (Rd, 7, 10, 1126891415), (Rc, 14, 15, 2878612391), (Rb, 5, 21, 4237533241),
      (Ra, 12, 6, 1700485571), (Rd, 3, 10, 2399980690), (Rc, 10, 15, 4293915773), (Rb, 1, 21, 2240044497),
      (Ra, 8, 6, 1873313359), (Rd, 15, 10, 4264355552), (Rc, 6, 15, 2734768916), (Rb, 13, 21, 1309151649),
      (Ra, 4, 6, 4149444226), (Rd, 11, 10, 3174756917), (Rc, 2, 15, 718787259), (Rb, 9, 21, 3951481745)]"

definition Transform :: "md5_buf \<Rightarrow> u32 list \<Rightarrow> md5_buf" where
  "Transform buf inp =
     (case (buf, round4 inp (round3 inp (round2 inp (round1 inp buf)))) of
        ((b0, b1, b2, b3), (a, b, c, d)) \<Rightarrow> (b0 + a, b1 + b, b2 + c, b3 + d))"

section \<open>The interface\<close>

text \<open>\<open>ppp_MD5Init\<close> leaves the input buffer and the digest as they are.\<close>

definition ppp_MD5Init :: "MD5_CTX \<Rightarrow> MD5_CTX" where
  "ppp_MD5Init c = c\<lparr>md_i0 := 0, md_i1 := 0,
     md_buf := (0x67452301, 0xefcdab89, 0x98badcfe, 0x10325476)\<rparr>"

text \<open>Word \<open>i\<close> of the block, least significant byte first.\<close>

definition block_word :: "bytes \<Rightarrow> nat \<Rightarrow> u32" where
  "block_word bs i = push_bit 24 (ucast (bs ! (4 * i + 3))) OR push_bit 16 (ucast (bs ! (4 * i + 2)))
     OR push_bit 8 (ucast (bs ! (4 * i + 1))) OR ucast (bs ! (4 * i))"

fun md5_bytes :: "nat \<Rightarrow> md5_buf \<Rightarrow> bytes \<Rightarrow> bytes \<Rightarrow> md5_buf \<times> bytes" where
  "md5_bytes mdi buf inb [] = (buf, inb)"
| "md5_bytes mdi buf inb (x # xs) =
     (let inb1 = inb[mdi := x] in
      if mdi + 1 = 0x40 then md5_bytes 0 (Transform buf (map (block_word inb1) [0..<16])) inb1 xs
      else md5_bytes (mdi + 1) buf inb1 xs)"

text \<open>The number of bytes modulo 64.\<close>

definition md_mdi :: "MD5_CTX \<Rightarrow> nat" where
  "md_mdi c = unat (drop_bit 3 (md_i0 c) AND 0x3F)"

definition ppp_MD5Update :: "MD5_CTX \<Rightarrow> bytes \<Rightarrow> MD5_CTX" where
  "ppp_MD5Update c xs =
     (let inLen = word_of_nat (length xs) :: u32;
          i1 = (if md_i0 c + push_bit 3 inLen < md_i0 c then md_i1 c + 1 else md_i1 c);
          (buf, inb) = md5_bytes (md_mdi c) (md_buf c) (md_in c) xs
      in c\<lparr>md_i0 := md_i0 c + push_bit 3 inLen, md_i1 := i1 + drop_bit 29 inLen,
           md_buf := buf, md_in := inb\<rparr>)"

definition word_bytes :: "u32 \<Rightarrow> bytes" where
  "word_bytes w = [ucast (w AND 0xFF), ucast (drop_bit 8 w AND 0xFF), ucast (drop_bit 16 w AND 0xFF),
     ucast (drop_bit 24 w AND 0xFF)]"

definition ppp_MD5Final :: "MD5_CTX \<Rightarrow> MD5_CTX" where
  "ppp_MD5Final c =
     (let in14 = md_i0 c; in15 = md_i1 c; mdi = md_mdi c;
          padLen = (if mdi < 56 then 56 - mdi else 120 - mdi);
          c1 = ppp_MD5Update c (take padLen PADDING);
          buf = Transform (md_buf c1) (map (block_word (md_in c1)) [0..<14] @ [in14, in15])
      in c1\<lparr>md_buf := buf,
           md_digest := (case buf of (w0, w1, w2, w3) \<Rightarrow>
             word_bytes w0 @ word_bytes w1 @ word_bytes w2 @ word_bytes w3)\<rparr>)"


section \<open>The reference\<close>

text \<open>RFC 1321, section 3: pad, process the blocks in order, output the registers.\<close>

definition md5_iv :: md5_buf where
  "md5_iv = (0x67452301, 0xefcdab89, 0x98badcfe, 0x10325476)"

definition block_words :: "bytes \<Rightarrow> u32 list" where
  "block_words bs = map (block_word bs) [0..<16]"

function md5_process :: "md5_buf \<Rightarrow> bytes \<Rightarrow> md5_buf" where
  "md5_process v xs = (if length xs < 64 then v else md5_process (Transform v (block_words (take 64 xs))) (drop 64 xs))"
  by auto
termination by (relation "measure (length \<circ> snd)") auto

declare md5_process.simps [simp del]

text \<open>The length in bits, as two words.\<close>

definition bits_lo :: "nat \<Rightarrow> u32" where "bits_lo n = word_of_nat (8 * n)"
definition bits_hi :: "nat \<Rightarrow> u32" where "bits_hi n = word_of_nat (8 * n div 2 ^ 32)"

definition md5_pad :: "nat \<Rightarrow> bytes" where
  "md5_pad n = 0x80 # replicate ((119 - n mod 64) mod 64) 0 @ word_bytes (bits_lo n) @ word_bytes (bits_hi n)"

definition md5_out :: "md5_buf \<Rightarrow> bytes" where
  "md5_out v = (case v of (a, b, c, d) \<Rightarrow> word_bytes a @ word_bytes b @ word_bytes c @ word_bytes d)"

definition md5_spec :: "bytes \<Rightarrow> bytes" where
  "md5_spec xs = md5_out (md5_process md5_iv (xs @ md5_pad (length xs)))"

section \<open>Blocks\<close>

lemma md5_process_short: "length xs < 64 \<Longrightarrow> md5_process v xs = v"
  by (simp add: md5_process.simps)

lemma md5_process_append: "length xs mod 64 = 0 \<Longrightarrow> md5_process v (xs @ ys) = md5_process (md5_process v xs) ys"
proof (induction v xs rule: md5_process.induct)
  case (1 v xs)
  show ?case
  proof (cases "length xs < 64")
    case True
    with 1(2) have "xs = []" by (simp add: mod_less)
    then show ?thesis by (simp add: md5_process_short)
  next
    case False
    then have "(length xs - 64) mod 64 = 0" using 1(2) by (simp add: mod_if [of "length xs"])
    with False 1(1) show ?thesis
      by (simp add: md5_process.simps [of v "xs @ ys"] md5_process.simps [of v xs])
  qed
qed

text \<open>The bytes that do not fill a block yet.\<close>

definition md5_tail :: "bytes \<Rightarrow> bytes" where
  "md5_tail xs = drop (length xs - length xs mod 64) xs"

lemma length_tail: "length (md5_tail xs) = length xs mod 64"
  by (simp add: md5_tail_def)

lemma md5_process_tail: "md5_process v (xs @ ys) = md5_process (md5_process v xs) (md5_tail xs @ ys)"
proof -
  define k where "k = length xs - length xs mod 64"
  have len: "length (take k xs) mod 64 = 0"
    by (simp add: k_def minus_mod_eq_mult_div)
  have xs: "xs = take k xs @ md5_tail xs" by (simp add: md5_tail_def k_def)
  have "md5_process v (xs @ ys) = md5_process (md5_process v (take k xs)) (md5_tail xs @ ys)"
    by (subst xs) (simp add: md5_process_append [OF len])
  moreover have "md5_process v xs = md5_process v (take k xs)"
    by (subst xs) (simp add: md5_process_append [OF len] md5_process_short length_tail)
  ultimately show ?thesis by simp
qed

lemma md5_process_snoc:
  "md5_process v (xs @ [x]) = (if length xs mod 64 = 63 then Transform (md5_process v xs) (block_words (md5_tail xs @ [x]))
     else md5_process v xs)"
proof (cases "length xs mod 64 = 63")
  case True
  then show ?thesis
    by (subst md5_process_tail) (simp add: md5_process.simps [of _ "md5_tail xs @ [x]"] length_tail md5_process_short)
next
  case False
  moreover have "length xs mod 64 < 64" by simp
  ultimately have "length xs mod 64 < 63" by linarith
  then show ?thesis
    by (subst md5_process_tail) (simp add: md5_process_short length_tail)
qed

lemma md5_tail_snoc: "md5_tail (xs @ [x]) = (if length xs mod 64 = 63 then [] else md5_tail xs @ [x])"
proof (cases "length xs mod 64 = 63")
  case False
  moreover have "length xs mod 64 < 64" by simp
  ultimately have "Suc (length xs) mod 64 = Suc (length xs mod 64)" by (simp add: mod_Suc)
  then show ?thesis using False by (simp add: md5_tail_def)
qed (simp add: md5_tail_def mod_Suc)

lemma md5_bytes_process:
  assumes "length inb = 64" and "take (length xs mod 64) inb = md5_tail xs"
    and "md5_bytes (length xs mod 64) (md5_process v xs) inb ys = (buf, inb')"
  shows "buf = md5_process v (xs @ ys) \<and> length inb' = 64 \<and> take (length (xs @ ys) mod 64) inb' = md5_tail (xs @ ys)"
  using assms
proof (induction ys arbitrary: xs inb)
  case (Cons y ys)
  let ?m = "length xs mod 64" and ?inb = "inb[length xs mod 64 := y]"
  have m: "?m < 64" by simp
  have inb: "take (Suc ?m) ?inb = md5_tail xs @ [y]"
    using Cons.prems(1,2) m by (simp add: take_Suc_conv_app_nth)
  have step: "md5_bytes ?m (md5_process v xs) inb (y # ys) =
      md5_bytes (length (xs @ [y]) mod 64) (md5_process v (xs @ [y])) ?inb ys"
  proof (cases "?m = 63")
    case True
    then have "?inb = md5_tail xs @ [y]" using inb Cons.prems(1) by simp
    with True show ?thesis by (simp add: md5_process_snoc block_words_def mod_Suc Let_def)
  next
    case False
    then show ?thesis using m by (simp add: md5_process_snoc mod_Suc)
  qed
  have tail: "take (length (xs @ [y]) mod 64) ?inb = md5_tail (xs @ [y])"
    using inb m by (cases "?m = 63") (simp_all add: md5_tail_snoc mod_Suc)
  have "md5_bytes (length (xs @ [y]) mod 64) (md5_process v (xs @ [y])) ?inb ys = (buf, inb')"
    using Cons.prems(3) step by simp
  from Cons.IH [OF _ tail this] Cons.prems(1) show ?case by simp
qed simp

section \<open>Counters\<close>

text \<open>What the context holds after the message \<open>xs\<close>.\<close>

definition md5_rep :: "MD5_CTX \<Rightarrow> bytes \<Rightarrow> bool" where
  "md5_rep c xs \<longleftrightarrow> length (md_in c) = 64 \<and> md_buf c = md5_process md5_iv xs \<and>
     take (length xs mod 64) (md_in c) = md5_tail xs \<and>
     md_i0 c = bits_lo (length xs) \<and> md_i1 c = bits_hi (length xs)"

lemma unat_word_of_nat: "unat (word_of_nat k :: u32) = k mod 2 ^ 32"
  by (simp add: unat_of_nat)

lemma mdi_count: "unat (drop_bit 3 (bits_lo n) AND 0x3F) = n mod 64"
proof -
  have mask: "(0x3F :: u32) = mask 6" by (simp add: mask_eq_exp_minus_1)
  have "unat (drop_bit 3 (bits_lo n) AND 0x3F) = (8 * n mod 2 ^ 32 div 8) mod 64"
    unfolding bits_lo_def mask take_bit_eq_mask [symmetric] unsigned_take_bit_eq unat_drop_bit_eq unat_word_of_nat
    by (simp add: take_bit_eq_mod drop_bit_eq_div)
  also have "8 * n mod 2 ^ 32 div 8 = n mod 2 ^ 29"
    using mult_mod_right [of 8 n "2 ^ 29"] by simp
  also have "n mod 2 ^ 29 mod 64 = n mod 64"
    by (rule mod_mod_cancel) simp
  finally show ?thesis .
qed

lemma carry_div:
  fixes a b M :: nat
  assumes "0 < M"
  shows "(a + b) div M = a div M + b div M + (if (a + b) mod M < a mod M then 1 else 0)"
proof -
  have "(a + b) div M = a div M + b div M + (a mod M + b mod M) div M" by (rule div_add1_eq)
  moreover have "(a mod M + b mod M) div M = (if (a + b) mod M < a mod M then 1 else 0)"
  proof (cases "a mod M + b mod M < M")
    case True
    then have "(a + b) mod M = a mod M + b mod M" by (metis mod_add_eq mod_less)
    with True show ?thesis by simp
  next
    case False
    have lt: "a mod M < M" "b mod M < M" using assms by simp_all
    have "(a + b) mod M = (a mod M + b mod M - M) mod M"
      using False by (metis mod_add_eq le_mod_geq not_less)
    also have "\<dots> = a mod M + b mod M - M" using lt by (intro mod_less) linarith
    finally have "(a + b) mod M < a mod M" using lt False by linarith
    moreover have "(a mod M + b mod M) div M = 1"
      using add_strict_mono [OF lt] False by (intro div_nat_eqI) simp_all
    ultimately show ?thesis by simp
  qed
  ultimately show ?thesis by simp
qed

lemma count_update:
  fixes n m :: nat
  assumes "m < 2 ^ 32"
  shows "bits_lo n + push_bit 3 (word_of_nat m) = bits_lo (n + m)"
    and "(if bits_lo (n + m) < bits_lo n then bits_hi n + 1 else bits_hi n) + drop_bit 29 (word_of_nat m) = bits_hi (n + m)"
proof -
  show "bits_lo n + push_bit 3 (word_of_nat m) = bits_lo (n + m)"
    by (simp add: bits_lo_def push_bit_eq_mult algebra_simps)
  have "unat (drop_bit 29 (word_of_nat m :: u32)) = 8 * m div 2 ^ 32"
    using assms(1) unfolding unat_drop_bit_eq unat_word_of_nat by (simp add: drop_bit_eq_div)
  then have high: "drop_bit 29 (word_of_nat m :: u32) = word_of_nat (8 * m div 2 ^ 32)"
    unfolding word_unat_eq_iff unat_word_of_nat using assms(1) by simp
  have "8 * (n + m) = 8 * n + 8 * m" by simp
  then have "bits_lo (n + m) < bits_lo n \<longleftrightarrow> (8 * n + 8 * m) mod 2 ^ 32 < 8 * n mod 2 ^ 32"
    unfolding bits_lo_def word_less_nat_alt unat_word_of_nat by simp
  moreover have "(8 * n + 8 * m) div 2 ^ 32 = 8 * n div 2 ^ 32 + 8 * m div 2 ^ 32 +
      (if (8 * n + 8 * m) mod 2 ^ 32 < 8 * n mod 2 ^ 32 then 1 else 0)"
    by (rule carry_div) simp
  ultimately show "(if bits_lo (n + m) < bits_lo n then bits_hi n + 1 else bits_hi n) + drop_bit 29 (word_of_nat m) = bits_hi (n + m)"
    unfolding high bits_hi_def \<open>8 * (n + m) = 8 * n + 8 * m\<close>
    by (simp only: of_nat_add if_distrib [of word_of_nat] of_nat_1 of_nat_0 split: if_split) (simp add: algebra_simps)
qed

lemma md5_rep_init: "length (md_in c) = 64 \<Longrightarrow> md5_rep (ppp_MD5Init c) []"
  by (simp add: md5_rep_def ppp_MD5Init_def md5_process_short md5_tail_def md5_iv_def bits_lo_def bits_hi_def)

lemma md5_rep_update:
  assumes "md5_rep c xs" and "length ys < 2 ^ 32"
  shows "md5_rep (ppp_MD5Update c ys) (xs @ ys)"
proof -
  obtain buf inb where b: "md5_bytes (length xs mod 64) (md5_process md5_iv xs) (md_in c) ys = (buf, inb)" by fastforce
  have mdi: "md_mdi c = length xs mod 64"
    using assms(1) by (simp only: md5_rep_def md_mdi_def mdi_count)
  show ?thesis
    using md5_bytes_process [OF _ _ b] assms count_update [OF assms(2), of "length xs"]
    by (simp add: ppp_MD5Update_def md5_rep_def mdi b Let_def split: if_split_asm)
qed

section \<open>The last block\<close>

lemma length_word_bytes [simp]: "length (word_bytes w) = 4"
  by (simp add: word_bytes_def)

lemma block_word_bytes:
  "block_word (xs @ word_bytes w @ ys) (length xs div 4) = w" if "length xs mod 4 = 0"
proof -
  have mask: "(0xFF :: u32) = mask 8" by (simp add: mask_eq_exp_minus_1)
  have ix: "4 * (length xs div 4) = length xs" using that by (metis mult_div_mod_eq add.right_neutral)
  have "push_bit 24 (ucast (ucast (drop_bit 24 w AND 0xFF) :: u8)) OR push_bit 16 (ucast (ucast (drop_bit 16 w AND 0xFF) :: u8))
     OR push_bit 8 (ucast (ucast (drop_bit 8 w AND 0xFF) :: u8)) OR ucast (ucast (w AND 0xFF) :: u8) = w"
    unfolding mask
  proof (rule bit_word_eqI)
    fix n
    assume "n < LENGTH(32)"
    then consider "n < 8" | "8 \<le> n" "n < 16" | "16 \<le> n" "n < 24" | "24 \<le> n" "n < 32" by force
    then show "bit (push_bit 24 (ucast (ucast (drop_bit 24 w AND mask 8) :: u8) :: u32)
        OR push_bit 16 (ucast (ucast (drop_bit 16 w AND mask 8) :: u8))
        OR push_bit 8 (ucast (ucast (drop_bit 8 w AND mask 8) :: u8)) OR ucast (ucast (w AND mask 8) :: u8)) n = bit w n"
      by cases (simp_all add: bit_simps less_diff_conv2 not_le)
  qed
  then show ?thesis
    unfolding block_word_def ix by (simp add: word_bytes_def nth_append)
qed


lemma block_word_take: "4 * i + 3 < k \<Longrightarrow> k \<le> length bs \<Longrightarrow> block_word bs i = block_word (take k bs @ zs) i"
  by (simp add: block_word_def nth_append)

lemma last_block:
  assumes "length bs = 56"
  shows "block_words (bs @ word_bytes lo @ word_bytes hi) = map (block_word bs) [0..<14] @ [lo, hi]"
proof -
  have "[0..<16] = [0..<14] @ [14, 15]" by (simp add: upt_rec)
  moreover have "block_word (bs @ word_bytes lo @ word_bytes hi) 14 = lo"
    using block_word_bytes [of bs lo "word_bytes hi"] assms by simp
  moreover have "block_word (bs @ word_bytes lo @ word_bytes hi) 15 = hi"
    using block_word_bytes [of "bs @ word_bytes lo" hi "[]"] assms by simp
  moreover have "block_word (bs @ word_bytes lo @ word_bytes hi) i = block_word bs i" if "i < 14" for i
    using block_word_take [of i 56 bs "word_bytes lo @ word_bytes hi"] assms that by simp
  ultimately show ?thesis
    by (simp add: block_words_def)
qed

lemma padding:
  assumes "padLen = (if n mod 64 < 56 then 56 - n mod 64 else 120 - n mod 64)"
  shows "take padLen PADDING = 0x80 # replicate ((119 - n mod 64) mod 64) 0"
    and "(n + padLen) mod 64 = 56" and "padLen < 2 ^ 32"
proof -
  have "n mod 64 < 64" by simp
  then have "padLen = Suc ((119 - n mod 64) mod 64)" "padLen \<le> 64"
    using assms by (auto simp: mod_if [of "119 - n mod 64"])
  then show "take padLen PADDING = 0x80 # replicate ((119 - n mod 64) mod 64) 0" "padLen < 2 ^ 32"
    by (simp_all add: PADDING_def min_def)
  have "(n + padLen) mod 64 = (n mod 64 + padLen) mod 64" by (simp add: mod_simps)
  then show "(n + padLen) mod 64 = 56" using assms \<open>n mod 64 < 64\<close> by auto
qed

lemma md5_final:
  assumes "md5_rep c xs"
  shows "md_digest (ppp_MD5Final c) = md5_spec xs"
proof -
  define padLen where "padLen = (if length xs mod 64 < 56 then 56 - length xs mod 64 else 120 - length xs mod 64)"
  note p = padding [OF padLen_def]
  define ys where "ys = xs @ take padLen PADDING"
  define c1 where "c1 = ppp_MD5Update c (take padLen PADDING)"
  have mdi: "md_mdi c = length xs mod 64" and cnt: "md_i0 c = bits_lo (length xs)" "md_i1 c = bits_hi (length xs)"
    using assms by (simp_all only: md5_rep_def md_mdi_def mdi_count)
  have rep: "md5_rep c1 ys"
    unfolding c1_def ys_def using p(3) by (intro md5_rep_update assms) simp
  have "length (take padLen PADDING) = padLen"
    by (simp add: PADDING_def padLen_def)
  then have len: "length ys mod 64 = 56" using p(2) by (simp add: ys_def)
  have buf: "md_buf c1 = md5_process md5_iv ys" and inb: "take 56 (md_in c1) = md5_tail ys" "length (md_in c1) = 64"
    using rep len by (simp_all add: md5_rep_def)
  have words: "map (block_word (md_in c1)) [0..<14] = map (block_word (md5_tail ys)) [0..<14]"
    using block_word_take [where k = 56 and bs = "md_in c1" and zs = "[]"] inb by simp
  have "Transform (md5_process md5_iv ys) (map (block_word (md_in c1)) [0..<14] @ [md_i0 c, md_i1 c])
      = md5_process md5_iv (ys @ word_bytes (md_i0 c) @ word_bytes (md_i1 c))"
    using len unfolding words
    by (subst md5_process_tail) (simp add: last_block length_tail md5_process.simps [of _ "md5_tail ys @ _"] md5_process_short)
  moreover have "md_digest (ppp_MD5Final c) =
      md5_out (Transform (md_buf c1) (map (block_word (md_in c1)) [0..<14] @ [md_i0 c, md_i1 c]))"
    by (simp add: ppp_MD5Final_def mdi padLen_def [symmetric] c1_def [symmetric] md5_out_def Let_def)
  moreover have "ys @ word_bytes (md_i0 c) @ word_bytes (md_i1 c) = xs @ md5_pad (length xs)"
    by (simp add: md5_pad_def cnt ys_def p(1))
  ultimately show ?thesis by (simp add: buf md5_spec_def)
qed

lemma md5_pieces:
  assumes "length (md_in c) = 64" and "list_all (\<lambda>xs. length xs < 2 ^ 32) xss"
  shows "md5_rep (foldl ppp_MD5Update (ppp_MD5Init c) xss) (concat xss)"
proof -
  have "md5_rep (foldl ppp_MD5Update c' xss) (ys @ concat xss)" if "md5_rep c' ys" for c' ys
    using that assms(2)
  proof (induction xss arbitrary: c' ys)
    case (Cons xs xss)
    then show ?case
      using Cons.IH [OF md5_rep_update [OF Cons.prems(1), of xs]] by simp
  qed simp
  from this [OF md5_rep_init [OF assms(1)]] show ?thesis by simp
qed

section \<open>Properties\<close>

text \<open>
  C25. The digest of a message given in any number of pieces (each of a length that fits an
  unsigned int) is the digest RFC 1321 defines for their concatenation; what the context held
  before \<open>ppp_MD5Init\<close> does not matter.
\<close>

theorem md5_rfc1321:
  assumes "length (md_in c) = 64" and "list_all (\<lambda>xs. length xs < 2 ^ 32) xss"
  shows "md_digest (ppp_MD5Final (foldl ppp_MD5Update (ppp_MD5Init c) xss)) = md5_spec (concat xss)"
  using assms by (intro md5_final md5_pieces)

text \<open>A context of zeros, and the digest of a message.\<close>

definition md5_ctx :: MD5_CTX where
  "md5_ctx = \<lparr>md_i0 = 0, md_i1 = 0, md_buf = (0, 0, 0, 0), md_in = replicate 64 0, md_digest = replicate 16 0\<rparr>"

definition md5_string :: "string \<Rightarrow> bytes" where
  "md5_string cs = md_digest (ppp_MD5Final (ppp_MD5Update (ppp_MD5Init md5_ctx) (map of_char cs)))"

theorem md5_rfc1321_witness:
  "md_digest (ppp_MD5Final (ppp_MD5Update (ppp_MD5Update (ppp_MD5Init md5_ctx) [0x61]) [0x62, 0x63])) =
   md5_spec [0x61, 0x62, 0x63]"
  using md5_rfc1321 [of md5_ctx "[[0x61], [0x62, 0x63]]"] by (simp add: md5_ctx_def)

text \<open>Three entries of the test suite of RFC 1321 (appendix A.5).\<close>

lemma md5_test_suite:
  "md5_string [] = [0xd4, 0x1d, 0x8c, 0xd9, 0x8f, 0x00, 0xb2, 0x04, 0xe9, 0x80, 0x09, 0x98, 0xec, 0xf8, 0x42, 0x7e] \<and>
   md5_string ''abc'' = [0x90, 0x01, 0x50, 0x98, 0x3c, 0xd2, 0x4f, 0xb0, 0xd6, 0x96, 0x3f, 0x7d, 0x28, 0xe1, 0x7f, 0x72] \<and>
   md5_string ''message digest'' = [0xf9, 0x6b, 0x69, 0x7d, 0x7c, 0xb7, 0x93, 0x8d, 0x52, 0x5a, 0x2f, 0x31, 0xaa, 0xf1, 0x61, 0xd0]"
  by (intro conjI; code_simp)

lemma length_digest: "length (md_digest (ppp_MD5Final c)) = 16"
  by (simp add: ppp_MD5Final_def Let_def split: prod.split)

end
