(* ===== verification/Chap.thy ===== *)
theory Chap
  imports Auth Md5
begin

text \<open>
  \<open>chap.c\<close>: challenge handshake authentication. As server we send a random challenge and
  compare the peer's digest with our own; as client we answer challenges.
\<close>

abbreviation modc :: "(chap_state \<Rightarrow> chap_state) \<Rightarrow> (ppp, unit) act" where
  "modc g \<equiv> upd (\<lambda>s. s\<lparr>chap := g (chap s)\<rparr>)"

definition ChapInit :: "env \<Rightarrow> (ppp, unit) act" where
  "ChapInit E = upd (\<lambda>s. s\<lparr>chap := \<lparr>clientstate = CHAPCS_INITIAL, serverstate = CHAPSS_INITIAL,
     challenge = [], chal_id = 0, chal_transmits = 0, chal_type = 0, chal_name = [], chal_interval = 0,
     chap_id = 0, chap_timeouttime = CHAP_DEFTIMEOUT (eh E), max_transmits = CHAP_DEFTRANSMITS (eh E),
     response = [], resp_id = 0, resp_type = 0, resp_name = [], resp_transmits = 0\<rparr>\<rparr>)"

section \<open>Sending\<close>

text \<open>The value of the length octet and what follows it: a string with its length, and a name.\<close>

definition chap_frame :: "hdr \<Rightarrow> u8 \<Rightarrow> u8 \<Rightarrow> bytes \<Rightarrow> bytes \<Rightarrow> bytes" where
  "chap_frame h code ident val name =
     MAKEHEADER h (CHAP h) @ [code, ident] @
     putshort h (word_of_int (CHAP_HEADERLEN h + 1 + int (length val) + int (length name))) @
     word_of_int (int (length val)) # val @ name"

definition status_frame :: "hdr \<Rightarrow> u8 \<Rightarrow> u8 \<Rightarrow> bytes \<Rightarrow> bytes" where
  "status_frame h code ident msg =
     MAKEHEADER h (CHAP h) @ [code, ident] @
     putshort h (word_of_int (CHAP_HEADERLEN h + int (length msg))) @ msg"

definition ChapSendChallenge :: "env \<Rightarrow> (ppp, unit) act" where
  "ChapSendChallenge E = steps
     [\<lambda>s. output_frame E (chap_frame (eh E) (CHAP_CHALLENGE (eh E)) (chal_id (chap s))
        (challenge (chap s)) (chal_name (chap s))) s,
      \<lambda>s. ppp_timeout E Chap_challenge_timeout (chap_timeouttime (chap s)) s,
      modc (\<lambda>c. c\<lparr>chal_transmits := chal_transmits c + 1\<rparr>)]"

text \<open>\<open>unit_string\<close> is the unit number printed in the message.\<close>

definition chap_msg :: "bool \<Rightarrow> bytes \<Rightarrow> bytes" where
  "chap_msg ok unit_string =
     map of_char (if ok then ''CHAP authentication success, unit '' else ''CHAP authentication failure, unit '')
     @ unit_string"

definition ChapSendStatus :: "env \<Rightarrow> bytes \<Rightarrow> bool \<Rightarrow> (ppp, unit) act" where
  "ChapSendStatus E us ok s =
     output_frame E (status_frame (eh E) (if ok then CHAP_SUCCESS (eh E) else CHAP_FAILURE (eh E))
       (chal_id (chap s)) (chap_msg ok us)) s"

text \<open>A challenge of random length (at least the minimum, less than the maximum) and contents.\<close>

definition ChapGenChallenge :: "env \<Rightarrow> (ppp, unit) act" where
  "ChapGenChallenge E s =
     (let h = eh E; r = rand E; n = rand_pos s;
          len = nat (uint (r n) mod int (MAX_CHALLENGE_LENGTH h - MIN_CHALLENGE_LENGTH h))
            + MIN_CHALLENGE_LENGTH h;
          bs = map (\<lambda>i. word_of_int (uint (r (Suc n + i)) mod 255)) [0..<len];
          c = chap s
      in Ret () (s\<lparr>rand_pos := Suc n + len,
           chap := c\<lparr>challenge := bs, chap_id := chap_id c + 1, chal_id := chap_id c + 1,
             chal_transmits := 0\<rparr>\<rparr>))"

definition ChapSendResponse :: "env \<Rightarrow> (ppp, unit) act" where
  "ChapSendResponse E = steps
     [\<lambda>s. output_frame E (chap_frame (eh E) (CHAP_RESPONSE (eh E)) (resp_id (chap s))
        (response (chap s)) (resp_name (chap s))) s,
      modc (\<lambda>c. c\<lparr>clientstate := CHAPCS_RESPONSE\<rparr>),
      \<lambda>s. ppp_timeout E Chap_response_timeout (chap_timeouttime (chap s)) s,
      modc (\<lambda>c. c\<lparr>resp_transmits := resp_transmits c + 1\<rparr>)]"

section \<open>Events\<close>

definition ChapAuthWithPeer :: "bytes \<Rightarrow> u8 \<Rightarrow> (ppp, unit) act" where
  "ChapAuthWithPeer name digest = steps
     [modc (\<lambda>c. c\<lparr>resp_name := name, resp_type := digest\<rparr>),
      \<lambda>s. if clientstate (chap s) = CHAPCS_INITIAL \<or> clientstate (chap s) = CHAPCS_PENDING
        then modc (\<lambda>c. c\<lparr>clientstate := CHAPCS_PENDING\<rparr>) s
        else modc (\<lambda>c. c\<lparr>clientstate := CHAPCS_LISTEN\<rparr>) s]"

definition start_challenge :: "env \<Rightarrow> (ppp, unit) act" where
  "start_challenge E = steps [ChapGenChallenge E, ChapSendChallenge E,
     modc (\<lambda>c. c\<lparr>serverstate := CHAPSS_INITIAL_CHAL\<rparr>)]"

definition ChapAuthPeer :: "env \<Rightarrow> bytes \<Rightarrow> u8 \<Rightarrow> (ppp, unit) act" where
  "ChapAuthPeer E name digest = steps
     [modc (\<lambda>c. c\<lparr>chal_name := name, chal_type := digest\<rparr>),
      \<lambda>s. if serverstate (chap s) = CHAPSS_INITIAL \<or> serverstate (chap s) = CHAPSS_PENDING
        then modc (\<lambda>c. c\<lparr>serverstate := CHAPSS_PENDING\<rparr>) s
        else start_challenge E s]"

definition ChapChallengeTimeout :: "env \<Rightarrow> (ppp, unit) act" where
  "ChapChallengeTimeout E s =
     (if serverstate (chap s) \<noteq> CHAPSS_INITIAL_CHAL \<and> serverstate (chap s) \<noteq> CHAPSS_RECHALLENGE
      then Ret () s
      else if chal_transmits (chap s) \<ge> max_transmits (chap s)
      then steps [modc (\<lambda>c. c\<lparr>serverstate := CHAPSS_BADAUTH\<rparr>), auth_peer_fail E] s
      else ChapSendChallenge E s)"

definition ChapResponseTimeout :: "env \<Rightarrow> (ppp, unit) act" where
  "ChapResponseTimeout E s =
     (if clientstate (chap s) \<noteq> CHAPCS_RESPONSE then Ret () s else ChapSendResponse E s)"

definition ChapRechallenge :: "env \<Rightarrow> (ppp, unit) act" where
  "ChapRechallenge E s =
     (if serverstate (chap s) \<noteq> CHAPSS_OPEN then Ret () s
      else steps [ChapGenChallenge E, ChapSendChallenge E,
        modc (\<lambda>c. c\<lparr>serverstate := CHAPSS_RECHALLENGE\<rparr>),
        \<lambda>s. if chal_interval (chap s) \<noteq> 0
          then ppp_timeout E Chap_rechallenge (chal_interval (chap s)) s else Ret () s] s)"

definition ChapLowerUp :: "env \<Rightarrow> (ppp, unit) act" where
  "ChapLowerUp E = steps
     [\<lambda>s. if clientstate (chap s) = CHAPCS_INITIAL then modc (\<lambda>c. c\<lparr>clientstate := CHAPCS_CLOSED\<rparr>) s
        else if clientstate (chap s) = CHAPCS_PENDING then modc (\<lambda>c. c\<lparr>clientstate := CHAPCS_LISTEN\<rparr>) s
        else Ret () s,
      \<lambda>s. if serverstate (chap s) = CHAPSS_INITIAL then modc (\<lambda>c. c\<lparr>serverstate := CHAPSS_CLOSED\<rparr>) s
        else if serverstate (chap s) = CHAPSS_PENDING then start_challenge E s
        else Ret () s]"

definition ChapLowerDown :: "env \<Rightarrow> (ppp, unit) act" where
  "ChapLowerDown E = steps
     [\<lambda>s. if serverstate (chap s) = CHAPSS_INITIAL_CHAL \<or> serverstate (chap s) = CHAPSS_RECHALLENGE
        then ppp_untimeout E Chap_challenge_timeout s
        else if serverstate (chap s) = CHAPSS_OPEN \<and> chal_interval (chap s) \<noteq> 0
        then ppp_untimeout E Chap_rechallenge s else Ret () s,
      \<lambda>s. if clientstate (chap s) = CHAPCS_RESPONSE
        then ppp_untimeout E Chap_response_timeout s else Ret () s,
      modc (\<lambda>c. c\<lparr>clientstate := CHAPCS_INITIAL, serverstate := CHAPSS_INITIAL\<rparr>)]"

definition ChapProtocolReject :: "env \<Rightarrow> (ppp, unit) act" where
  "ChapProtocolReject E = steps
     [\<lambda>s. if serverstate (chap s) \<noteq> CHAPSS_INITIAL \<and> serverstate (chap s) \<noteq> CHAPSS_CLOSED
        then auth_peer_fail E s else Ret () s,
      \<lambda>s. if clientstate (chap s) \<noteq> CHAPCS_INITIAL \<and> clientstate (chap s) \<noteq> CHAPCS_CLOSED
        then auth_withpeer_fail s else Ret () s,
      ChapLowerDown E]"

section \<open>Packets\<close>

text \<open>A string with its length octet and the name after it (at most 255 bytes, as a C string).\<close>

definition parse_value :: "bytes \<Rightarrow> int \<Rightarrow> (bytes \<times> bytes) option" where
  "parse_value inp len =
     (if len < 2 then None
      else let n = unat (rd inp 0); len1 = len - (1 + int n) in
        if len1 < 0 then None
        else let len2 = (if len1 \<ge> 256 then 255 else len1) in
          Some (take n (drop 1 inp), cstr (take (nat len2) (drop (1 + n) inp))))"

text \<open>
  The digest over identifier, secret and challenge. The context is a local variable that is not
  initialised; \<open>md5_rfc1321\<close> shows that its contents do not matter.
\<close>

definition chap_digest :: "hdr \<Rightarrow> u8 \<Rightarrow> bytes \<Rightarrow> bytes \<Rightarrow> bytes" where
  "chap_digest h ident secret chal = take (MD5_SIGNATURE_SIZE h) (md_digest (ppp_MD5Final
     (ppp_MD5Update (ppp_MD5Update (ppp_MD5Update (ppp_MD5Init md5_ctx) [ident]) secret) chal)))"

definition ChapReceiveChallenge :: "env \<Rightarrow> auth_env \<Rightarrow> bytes \<Rightarrow> u8 \<Rightarrow> int \<Rightarrow> (ppp, unit) act" where
  "ChapReceiveChallenge E A inp ident len s =
     (if clientstate (chap s) = CHAPCS_CLOSED \<or> clientstate (chap s) = CHAPCS_PENDING then Ret () s
      else case parse_value inp len of
        None \<Rightarrow> Ret () s
      | Some (rchallenge, rhostname) \<Rightarrow>
          bnd (get_secret A (eh E) (resp_name (chap s)) rhostname False) (\<lambda>r. steps
            [\<lambda>s. if clientstate (chap s) = CHAPCS_RESPONSE
               then ppp_untimeout E Chap_response_timeout s else Ret () s,
             modc (\<lambda>c. c\<lparr>resp_id := ident, resp_transmits := 0\<rparr>),
             \<lambda>s. if resp_type (chap s) = CHAP_DIGEST_MD5 (eh E)
               then (let md = chap_digest (eh E) (resp_id (chap s)) (case r of None \<Rightarrow> [] | Some sec \<Rightarrow> sec) rchallenge
                     in steps [modc (\<lambda>c. c\<lparr>response := md\<rparr>), ChapSendResponse E] s)
               else Ret () s]) s)"

text \<open>Whether the peer's answer to our challenge is right.\<close>

definition response_ok :: "hdr \<Rightarrow> chap_state \<Rightarrow> bytes option \<Rightarrow> bytes \<Rightarrow> bool" where
  "response_ok h c secret remmd \<longleftrightarrow>
     (case secret of
        None \<Rightarrow> False
      | Some sec \<Rightarrow> chal_type c = CHAP_DIGEST_MD5 h \<and> length remmd = MD5_SIGNATURE_SIZE h
          \<and> chap_digest h (chal_id c) sec (challenge c) = remmd)"

definition ChapReceiveResponse :: "env \<Rightarrow> auth_env \<Rightarrow> bytes \<Rightarrow> bytes \<Rightarrow> u8 \<Rightarrow> int \<Rightarrow> (ppp, unit) act" where
  "ChapReceiveResponse E A us inp ident len s =
     (if serverstate (chap s) = CHAPSS_CLOSED \<or> serverstate (chap s) = CHAPSS_PENDING then Ret () s
      else if ident \<noteq> chal_id (chap s) then Ret () s
      else if serverstate (chap s) = CHAPSS_OPEN then ChapSendStatus E us True s
      else if serverstate (chap s) = CHAPSS_BADAUTH then ChapSendStatus E us False s
      else case parse_value inp len of
        None \<Rightarrow> Ret () s
      | Some (remmd, rhostname) \<Rightarrow> steps
          [ppp_untimeout E Chap_challenge_timeout,
           \<lambda>s. bnd (get_secret A (eh E) rhostname (chal_name (chap s)) True) (\<lambda>r s.
             if response_ok (eh E) (chap s) r remmd
             then steps
               [ChapSendStatus E us True,
                \<lambda>s. let old_state = serverstate (chap s) in steps
                  [modc (\<lambda>c. c\<lparr>serverstate := CHAPSS_OPEN\<rparr>),
                   if old_state = CHAPSS_INITIAL_CHAL then auth_peer_success E A (CHAP (eh E)) else skip,
                   \<lambda>s. if chal_interval (chap s) \<noteq> 0
                     then ppp_timeout E Chap_rechallenge (chal_interval (chap s)) s else Ret () s] s] s
             else steps
               [ChapSendStatus E us False,
                modc (\<lambda>c. c\<lparr>serverstate := CHAPSS_BADAUTH\<rparr>),
                auth_peer_fail E] s) s] s)"

definition ChapReceiveSuccess :: "env \<Rightarrow> auth_env \<Rightarrow> (ppp, unit) act" where
  "ChapReceiveSuccess E A s =
     (if clientstate (chap s) = CHAPCS_OPEN then Ret () s
      else if clientstate (chap s) \<noteq> CHAPCS_RESPONSE then Ret () s
      else steps [ppp_untimeout E Chap_response_timeout,
        modc (\<lambda>c. c\<lparr>clientstate := CHAPCS_OPEN\<rparr>),
        auth_withpeer_success E A (CHAP (eh E))] s)"

definition ChapReceiveFailure :: "env \<Rightarrow> (ppp, unit) act" where
  "ChapReceiveFailure E s =
     (if clientstate (chap s) \<noteq> CHAPCS_RESPONSE then Ret () s
      else steps [ppp_untimeout E Chap_response_timeout, auth_withpeer_fail] s)"

definition ChapInput :: "env \<Rightarrow> auth_env \<Rightarrow> bytes \<Rightarrow> bytes \<Rightarrow> int \<Rightarrow> (ppp, unit) act" where
  "ChapInput E A us inpacket l s =
     (case parse_header (eh E) (CHAP_HEADERLEN (eh E)) inpacket l of
        None \<Rightarrow> Ret () s
      | Some (code, ident, inp, len) \<Rightarrow>
          if code = CHAP_CHALLENGE (eh E) then ChapReceiveChallenge E A inp ident len s
          else if code = CHAP_RESPONSE (eh E) then ChapReceiveResponse E A us inp ident len s
          else if code = CHAP_FAILURE (eh E) then ChapReceiveFailure E s
          else if code = CHAP_SUCCESS (eh E) then ChapReceiveSuccess E A s
          else Ret () s)"

end
