(* ===== verification/Lcp.thy ===== *)
theory Lcp
  imports Lcp_Reqci_Spec Upap Chap
begin

text \<open>
  LCP as a client of the automaton: the rest of \<open>lcp.c\<close>, with \<open>link_established\<close> of \<open>auth.c\<close>
  which \<open>lcp_up\<close> calls. The callbacks call functions of the automaton on their own table
  (\<open>lcp_finished\<close> reopens, a Protocol-Reject for LCP comes back to \<open>fsm_protreject\<close>); none of
  these functions uses the entry it is called from, so the table is built in three steps.
  \<open>us\<close> is the printed unit number.
\<close>

definition lcp_init :: "env \<Rightarrow> (ppp, unit) act" where
  "lcp_init E = steps
     [fsm_init E LcpF,
      upd (\<lambda>s. s\<lparr>lcp_wantoptions := (lcp_wantoptions s)\<lparr>passive_mode := False, silent_mode := False,
          restart_mode := False, neg_mru := True, mru := DEFMRU (eh E), neg_asyncmap := False, asyncmap := 0,
          neg_chap := False, neg_upap := False, chap_mdtype := CHAP_DIGEST_MD5 (eh E),
          neg_magicnumber := True, neg_pcompression := True, neg_accompression := True, neg_lqr := False\<rparr>,
        lcp_allowoptions := (lcp_allowoptions s)\<lparr>neg_mru := True, mru := MAXMRU (eh E),
          neg_asyncmap := True, asyncmap := 0, neg_chap := True, chap_mdtype := CHAP_DIGEST_MD5 (eh E),
          neg_upap := True, neg_magicnumber := True, neg_pcompression := True,
          neg_accompression := True, neg_lqr := False\<rparr>,
        xmit_accm := (xmit_accm s)[0 := 0, 3 := 0x60000000]\<rparr>)]"

definition lcp_resetci :: "env \<Rightarrow> (ppp, unit) act" where
  "lcp_resetci E s =
     (let (m, g) = magic (rand E) (mgen_of s); wo = (lcp_wantoptions s)\<lparr>magicnumber := m, numloops := 0\<rparr>
      in Ret () ((set_mgen g s)\<lparr>lcp_wantoptions := wo, lcp_gotoptions := wo, peer_mru := MTU (eh E)\<rparr>))"

section \<open>Going down\<close>

definition lcp_echo_lowerdown :: "env \<Rightarrow> (ppp, unit) act" where
  "lcp_echo_lowerdown E s =
     (if lcp_echo_timer_running s
      then steps [ppp_untimeout E Lcp_echo_timeout, upd (\<lambda>s. s\<lparr>lcp_echo_timer_running := False\<rparr>)] s
      else Ret () s)"

definition lcp_down :: "env \<Rightarrow> auth_env \<Rightarrow> (ppp, unit) act" where
  "lcp_down E A = steps
     [lcp_echo_lowerdown E, ipcp_lowerdown E A, ChapLowerDown E, upap_lowerdown E,
      discard (sifdown E),
      ppp_send_config E (MTU (eh E)) 0xffffffff False False,
      ppp_recv_config E (MTU (eh E)) 0 False False,
      upd (\<lambda>s. s\<lparr>peer_mru := MTU (eh E)\<rparr>),
      link_down]"

definition lcp_callbacks0 :: "env \<Rightarrow> auth_env \<Rightarrow> fsm_callbacks" where
  "lcp_callbacks0 E A = \<lparr>
     self = LcpF,
     resetci = Some (lcp_resetci E),
     cilen = Some (\<lambda>s. lcp_cilen (lcp_gotoptions s)),
     addci = Some (\<lambda>n s. Ret (lcp_addci (eh E) (lcp_gotoptions s), n) s),
     ackci = Some (\<lambda>p len s. Ret (lcp_ackci (eh E) (lcp_gotoptions s) p len) s),
     nakci = Some (lcp_nakci (eh E) (rand E)),
     rejci = Some (lcp_rejci (eh E)),
     reqci = Some (lcp_reqci (eh E) (rand E)),
     up = None, down = Some (lcp_down E A), starting = Some link_required, finished = None,
     retransmit = None, extcode = None\<rparr>"

section \<open>Echo\<close>

definition LcpLinkFailure :: "env \<Rightarrow> auth_env \<Rightarrow> (ppp, unit) act" where
  "LcpLinkFailure E A s =
     (if fstate (lcp_fsm s) = OPENED
      then steps [fsm_lowerdown E (lcp_callbacks0 E A), upd (\<lambda>s. s\<lparr>ppp_phase := PHASE_TERMINATE\<rparr>)] s
      else Ret () s)"

text \<open>Table entries used to send: only \<open>self\<close> matters.\<close>

definition lcp_send :: "env \<Rightarrow> u8 \<Rightarrow> u8 \<Rightarrow> bytes \<Rightarrow> int \<Rightarrow> (ppp, unit) act" where
  "lcp_send E code ident data n s =
     output_frame E (sdata_frame (eh E) (LCP (eh E)) code ident data (sdata_len (eh E) s n)) s"

definition LcpSendEchoRequest :: "env \<Rightarrow> auth_env \<Rightarrow> (ppp, unit) act" where
  "LcpSendEchoRequest E A = steps
     [\<lambda>s. if lcp_echo_fails s \<noteq> 0
        then (let pending = lcp_echos_pending s; s1 = s\<lparr>lcp_echos_pending := pending + 1\<rparr> in
              if pending \<ge> lcp_echo_fails s1
              then steps [LcpLinkFailure E A, upd (\<lambda>s. s\<lparr>lcp_echos_pending := 0\<rparr>), die_fn E] s1 else Ret () s1)
        else Ret () s,
      \<lambda>s. if fstate (lcp_fsm s) = OPENED
        then (let m = (if neg_magicnumber (lcp_gotoptions s) then magicnumber (lcp_gotoptions s) else 0);
                  n = lcp_echo_number s
              in lcp_send E (ECHOREQ (eh E)) (word_of_int n) (putlong (eh E) m) 4
                   (s\<lparr>lcp_echo_number := n + 1\<rparr>))
        else Ret () s]"

text \<open>A failed assertion ends the task.\<close>

definition LcpEchoCheck :: "env \<Rightarrow> auth_env \<Rightarrow> (ppp, unit) act" where
  "LcpEchoCheck E A = steps
     [LcpSendEchoRequest E A,
      \<lambda>s. if lcp_echo_timer_running s then Exit s else Ret () s,
      \<lambda>s. ppp_timeout E Lcp_echo_timeout (lcp_echo_interval s) s,
      upd (\<lambda>s. s\<lparr>lcp_echo_timer_running := True\<rparr>)]"

definition LcpEchoTimeout :: "env \<Rightarrow> auth_env \<Rightarrow> (ppp, unit) act" where
  "LcpEchoTimeout E A s =
     (if lcp_echo_timer_running s
      then steps [upd (\<lambda>s. s\<lparr>lcp_echo_timer_running := False\<rparr>), LcpEchoCheck E A] s else Ret () s)"

definition lcp_received_echo_reply :: "hdr \<Rightarrow> bytes \<Rightarrow> (ppp, unit) act" where
  "lcp_received_echo_reply h inp s =
     (if neg_magicnumber (lcp_gotoptions s) \<and> rdlong h inp 0 = magicnumber (lcp_gotoptions s) then Ret () s
      else Ret () (s\<lparr>lcp_echos_pending := 0\<rparr>))"

definition lcp_echo_lowerup :: "env \<Rightarrow> auth_env \<Rightarrow> (ppp, unit) act" where
  "lcp_echo_lowerup E A = steps
     [upd (\<lambda>s. s\<lparr>lcp_echos_pending := 0, lcp_echo_number := 0, lcp_echo_timer_running := False\<rparr>),
      \<lambda>s. if lcp_echo_interval s \<noteq> 0 then LcpEchoCheck E A s else Ret () s]"

section \<open>The link is established\<close>

text \<open>Which authentications to start, as server and as client.\<close>

definition start_peer_auth :: "env \<Rightarrow> (ppp, u32) act" where
  "start_peer_auth E s =
     (if neg_chap (lcp_gotoptions s)
      then finally_ret (ChapAuthPeer E (our_name s) (chap_mdtype (lcp_gotoptions s))) CHAP_PEER s
      else if neg_upap (lcp_gotoptions s) then finally_ret upap_authpeer UPAP_PEER s
      else Ret 0 s)"

definition start_own_auth :: "env \<Rightarrow> (ppp, u32) act" where
  "start_own_auth E s =
     (if neg_chap (lcp_hisoptions s)
      then finally_ret (ChapAuthWithPeer (our_name s) (chap_mdtype (lcp_hisoptions s))) CHAP_WITHPEER s
      else if neg_upap (lcp_hisoptions s)
      then finally_ret (upap_authwithpeer E (user s) (passwd s)) UPAP_WITHPEER s
      else Ret 0 s)"

definition link_established :: "env \<Rightarrow> auth_env \<Rightarrow> (ppp, unit) act" where
  "link_established E A = steps
     [\<lambda>s. if auth_required s \<and> \<not> (neg_chap (lcp_gotoptions s) \<or> neg_upap (lcp_gotoptions s))
        then bnd (if \<not> neg_upap (lcp_wantoptions s) then ret False else null_login A)
               (\<lambda>ok. if ok then skip else die_fn E) s
        else Ret () s,
      upd (\<lambda>s. s\<lparr>ppp_phase := PHASE_AUTHENTICATE\<rparr>),
      bnd (start_peer_auth E) (\<lambda>a. bnd (start_own_auth E) (\<lambda>b. steps
        [upd (\<lambda>s. s\<lparr>auth_pending := a OR b\<rparr>),
         if a OR b = 0 then network_phase E A else skip]))]"

section \<open>Callbacks\<close>

definition lcp_up :: "env \<Rightarrow> auth_env \<Rightarrow> (ppp, unit) act" where
  "lcp_up E A = steps
     [upd (\<lambda>s. if \<not> neg_magicnumber (lcp_gotoptions s)
        then s\<lparr>lcp_gotoptions := (lcp_gotoptions s)\<lparr>magicnumber := 0\<rparr>\<rparr> else s),
      upd (\<lambda>s. if \<not> neg_magicnumber (lcp_hisoptions s)
        then s\<lparr>lcp_hisoptions := (lcp_hisoptions s)\<lparr>magicnumber := 0\<rparr>\<rparr> else s),
      \<lambda>s. let ao = lcp_allowoptions s; ho = lcp_hisoptions s in
        ppp_send_config E
          (min (if mru ao \<noteq> 0 then mru ao else MTU (eh E)) (if neg_mru ho then mru ho else MTU (eh E)))
          (if neg_asyncmap ho then asyncmap ho else 0xffffffff) (neg_pcompression ho) (neg_accompression ho) s,
      \<lambda>s. let wo = lcp_wantoptions s; go = lcp_gotoptions s in
        ppp_recv_config E (if neg_mru go then max (mru wo) (mru go) else MTU (eh E))
          (if neg_asyncmap go then asyncmap go else 0) (neg_pcompression go) (neg_accompression go) s,
      upd (\<lambda>s. if neg_mru (lcp_hisoptions s) then s\<lparr>peer_mru := mru (lcp_hisoptions s)\<rparr> else s),
      ChapLowerUp E, upap_lowerup E, ipcp_lowerup E A, lcp_echo_lowerup E A,
      link_established E A]"

definition lcp_finished :: "env \<Rightarrow> auth_env \<Rightarrow> (ppp, unit) act" where
  "lcp_finished E A s =
     (if (fstate (lcp_fsm s) = STOPPED \<or> fstate (lcp_fsm s) = CLOSED) \<and> opt_restart (lcp_fsm s)
      then fsm_open E (lcp_callbacks0 E A) s
      else link_terminated s)"

definition lcp_callbacks1 :: "env \<Rightarrow> auth_env \<Rightarrow> fsm_callbacks" where
  "lcp_callbacks1 E A = (lcp_callbacks0 E A)\<lparr>finished := Some (lcp_finished E A)\<rparr>"

definition lcp_protrej :: "env \<Rightarrow> auth_env \<Rightarrow> (ppp, unit) act" where
  "lcp_protrej E A = fsm_protreject E (lcp_callbacks1 E A)"

text \<open>\<open>demuxprotrej\<close> of \<open>pppLib.c\<close>: the entries of \<open>prottbl\<close> in order.\<close>

definition demuxprotrej :: "env \<Rightarrow> auth_env \<Rightarrow> u16 \<Rightarrow> (ppp, unit) act" where
  "demuxprotrej E A protocol =
     (if LCP (eh E) = protocol then lcp_protrej E A
      else if IPCP (eh E) = protocol then ipcp_protrej E A
      else if UPAP (eh E) = protocol then upap_protrej E
      else if CHAP (eh E) = protocol then ChapProtocolReject E
      else skip)"

definition lcp_rprotrej :: "env \<Rightarrow> auth_env \<Rightarrow> bytes \<Rightarrow> int \<Rightarrow> (ppp, unit) act" where
  "lcp_rprotrej E A inp len s =
     (if len < 2 then Ret () s
      else if fstate (lcp_fsm s) \<noteq> OPENED then Ret () s
      else demuxprotrej E A (rdshort (eh E) inp 0) s)"

definition lcp_extcode :: "env \<Rightarrow> auth_env \<Rightarrow> u8 \<Rightarrow> u8 \<Rightarrow> bytes \<Rightarrow> int \<Rightarrow> (ppp, bool) act" where
  "lcp_extcode E A code ident inp len s =
     (if code = PROTREJ (eh E) then finally_ret (lcp_rprotrej E A inp len) True s
      else if code = ECHOREQ (eh E) then
        (if fstate (lcp_fsm s) \<noteq> OPENED then Ret True s
         else finally_ret (lcp_send E (ECHOREP (eh E)) ident
                (put_at 0 (putlong (eh E) (magicnumber (lcp_gotoptions s))) inp)
                (if len < CILEN_LONG then CILEN_LONG else len)) True s)
      else if code = ECHOREP (eh E) then finally_ret (lcp_received_echo_reply (eh E) inp) True s
      else if code = DISCREQ (eh E) then Ret True s
      else Ret False s)"

definition lcp_callbacks :: "env \<Rightarrow> auth_env \<Rightarrow> fsm_callbacks" where
  "lcp_callbacks E A = (lcp_callbacks1 E A)\<lparr>up := Some (lcp_up E A), extcode := Some (lcp_extcode E A)\<rparr>"

section \<open>Events\<close>

definition lcp_open :: "env \<Rightarrow> auth_env \<Rightarrow> (ppp, unit) act" where
  "lcp_open E A = steps
     [upd (\<lambda>s. let wo = lcp_wantoptions s in s\<lparr>lcp_fsm := (lcp_fsm s)\<lparr>opt_passive := passive_mode wo,
        opt_silent := silent_mode wo, opt_restart := passive_mode wo \<or> silent_mode wo\<rparr>\<rparr>),
      fsm_open E (lcp_callbacks E A)]"

definition lcp_close :: "env \<Rightarrow> auth_env \<Rightarrow> (ppp, unit) act" where
  "lcp_close E A s =
     (if fstate (lcp_fsm s) = STOPPED \<and> (opt_passive (lcp_fsm s) \<or> opt_silent (lcp_fsm s))
      then steps [upd (\<lambda>s. s\<lparr>lcp_fsm := (lcp_fsm s)\<lparr>fstate := CLOSED\<rparr>\<rparr>), lcp_finished E A] s
      else fsm_close E (lcp_callbacks E A) s)"

definition lcp_lowerup :: "env \<Rightarrow> auth_env \<Rightarrow> (ppp, unit) act" where
  "lcp_lowerup E A = steps
     [discard (sifdown E),
      \<lambda>s. ppp_set_xaccm E (xmit_accm s) s,
      ppp_send_config E (MTU (eh E)) 0xffffffff False False,
      ppp_recv_config E (MTU (eh E)) 0 False False,
      upd (\<lambda>s. s\<lparr>peer_mru := MTU (eh E),
        lcp_allowoptions := (lcp_allowoptions s)\<lparr>asyncmap := xmit_accm s ! 0\<rparr>\<rparr>),
      fsm_lowerup E (lcp_callbacks E A)]"

definition lcp_lowerdown :: "env \<Rightarrow> auth_env \<Rightarrow> (ppp, unit) act" where
  "lcp_lowerdown E A = fsm_lowerdown E (lcp_callbacks E A)"

definition lcp_input :: "env \<Rightarrow> auth_env \<Rightarrow> bytes \<Rightarrow> int \<Rightarrow> (ppp, unit) act" where
  "lcp_input E A p len = fsm_input E (lcp_callbacks E A) p len"

definition lcp_sprotrej :: "env \<Rightarrow> bytes \<Rightarrow> int \<Rightarrow> (ppp, unit) act" where
  "lcp_sprotrej E p len = steps
     [upd (\<lambda>s. s\<lparr>lcp_fsm := (lcp_fsm s)\<lparr>fid := fid (lcp_fsm s) + 1\<rparr>\<rparr>),
      \<lambda>s. lcp_send E (PROTREJ (eh E)) (fid (lcp_fsm s)) (drop 2 p) (len - 2) s]"

section \<open>The contract of the automaton\<close>

lemma set_mgen_frame [simp]:
  "lcp_fsm (set_mgen g s) = lcp_fsm s" "ipcp_fsm (set_mgen g s) = ipcp_fsm s"
  "callout (set_mgen g s) = callout s"
  by (simp_all add: set_mgen_def)

lemma quiet_lcp_ci:
  "quiet LcpF (lcp_resetci E)" "quiet LcpF (lcp_rejci h p n)" "quiet LcpF (lcp_reqci h g p n b)"
  by (simp_all add: quiet_def lcp_resetci_def lcp_rejci_def lcp_reqci_def Let_def
      split: prod.split option.split)

lemma lcp_nakci_tame: "self C = LcpF \<Longrightarrow> tame_if C (lcp_nakci h g p n) s"
  by (auto simp: tame_if_def lcp_nakci_def Let_def getf_def pend_def split: option.splits bool.splits)

lemma quiet_auth_down:
  "quiet P (ChapLowerDown (ok_env h r v d))" "quiet P (upap_lowerdown (ok_env h r v d))"
  "quiet P (lcp_echo_lowerdown (ok_env h r v d))"
proof -
  note rules = quiet_bnd quiet_if okw.quiet_untimeout quiet_ret
  have upds: "quiet P (modc f)" "quiet P (modu g)"
    "quiet P (upd (\<lambda>s. s\<lparr>lcp_echo_timer_running := False\<rparr>))" for f g
    by (cases P; simp add: quiet_def)+
  show "quiet P (ChapLowerDown (ok_env h r v d))" "quiet P (upap_lowerdown (ok_env h r v d))"
    unfolding ChapLowerDown_def upap_lowerdown_def by (auto intro!: rules upds)
  have "lcp_echo_lowerdown (ok_env h r v d) = (\<lambda>s. if lcp_echo_timer_running s
      then steps [ppp_untimeout (ok_env h r v d) Lcp_echo_timeout,
        upd (\<lambda>s. s\<lparr>lcp_echo_timer_running := False\<rparr>)] s else Ret () s)"
    by (simp add: fun_eq_iff lcp_echo_lowerdown_def)
  then show "quiet P (lcp_echo_lowerdown (ok_env h r v d))" by (auto intro!: rules upds)
qed

lemma quiet_lcp_down: "quiet LcpF (lcp_down (ok_env h r v d) A)"
proof -
  have "quiet LcpF (ipcp_lowerdown (ok_env h r v d) A)"
    unfolding ipcp_lowerdown_def
    by (rule okw.quiet_lowerdown) (auto intro!: quiet_call quiet_ipcp_down)
  moreover have "quiet LcpF (upd (\<lambda>s. s\<lparr>peer_mru := n\<rparr>))" "quiet LcpF link_down" for n
    by (simp_all add: quiet_def link_down_def)
  ultimately show ?thesis
    unfolding lcp_down_def by (auto intro!: quiet_bnd quiet_auth_down okw.quiet_driver quiet_ret)
qed

lemma lcp_callbacks_simps [simp]:
  "self (lcp_callbacks E A) = LcpF"
  "resetci (lcp_callbacks E A) = Some (lcp_resetci E)"
  "addci (lcp_callbacks E A) = Some (\<lambda>n s. Ret (lcp_addci (eh E) (lcp_gotoptions s), n) s)"
  "ackci (lcp_callbacks E A) = Some (\<lambda>p len s. Ret (lcp_ackci (eh E) (lcp_gotoptions s) p len) s)"
  "nakci (lcp_callbacks E A) = Some (lcp_nakci (eh E) (rand E))" "rejci (lcp_callbacks E A) = Some (lcp_rejci (eh E))"
  "reqci (lcp_callbacks E A) = Some (lcp_reqci (eh E) (rand E))" "down (lcp_callbacks E A) = Some (lcp_down E A)"
  "starting (lcp_callbacks E A) = Some link_required" "retransmit (lcp_callbacks E A) = None"
  "up (lcp_callbacks E A) = Some (lcp_up E A)" "finished (lcp_callbacks E A) = Some (lcp_finished E A)"
  by (simp_all add: lcp_callbacks_def lcp_callbacks1_def lcp_callbacks0_def)

interpretation lcp: fsm_client "ok_env h r v d" "lcp_callbacks (ok_env h r v d) A" "\<lambda>_. True"
  for h r v d A
  by unfold_locales
    (auto intro!: quiet_tame quiet_lcp_ci quiet_lcp_down quiet_ret lcp_nakci_tame
      tame_tame_if [where f = "lcp_rejci h p n" for p n] simp: link_required_def)

end
