(* ===== verification/Ppp_Daemon.thy ===== *)
theory Ppp_Daemon
  imports Lcp
begin

text \<open>
  The PPP task of \<open>pppLib.c\<close>: start-up, the signal handlers, the dispatch of timeouts and of
  packets, and \<open>die\<close>. \<open>die\<close> closes LCP, which sends a packet; a failing write calls \<open>die\<close>
  again, so the environment that ties the knot is indexed by the depth of nested calls of
  \<open>die\<close> (\<open>die_fuel\<close>). What is proved of the task holds for every depth.
\<close>

section \<open>Ending the connection\<close>

text \<open>
  \<open>die(unit, 1)\<close>: close LCP; unless the unit is passive or silent, clean up and \<open>exit\<close>. The
  argument bounds the depth of the recursion through a failing \<open>output\<close>.
\<close>

primrec die_fuel :: "nat \<Rightarrow> env \<Rightarrow> auth_env \<Rightarrow> (ppp, unit) act" where
  "die_fuel 0 E A = (\<lambda>s. Stuck)"
| "die_fuel (Suc n) E A =
     bnd (lcp_close (E\<lparr>die_fn := die_fuel n E A\<rparr>) A)
       (\<lambda>_ s. if opt_passive (lcp_fsm s) \<or> opt_silent (lcp_fsm s) then Ret () s else Exit s)"

text \<open>The environment of the running task.\<close>

definition task_env :: "nat \<Rightarrow> env \<Rightarrow> auth_env \<Rightarrow> env" where
  "task_env n E A = E\<lparr>die_fn := die_fuel n E A\<rparr>"

section \<open>Signals\<close>

definition hup :: "env \<Rightarrow> (ppp, unit) act" where
  "hup E = steps [upd (\<lambda>s. s\<lparr>hungup := True\<rparr>), adjtimeout E, die_fn E]"

definition term_sig :: "env \<Rightarrow> (ppp, unit) act" where
  "term_sig E = steps
     [upd (\<lambda>s. s\<lparr>lcp_fsm := (lcp_fsm s)\<lparr>opt_passive := False, opt_restart := False, opt_silent := False\<rparr>\<rparr>),
      adjtimeout E, die_fn E]"

definition intr :: "env \<Rightarrow> (ppp, unit) act" where
  "intr E = steps [adjtimeout E, die_fn E]"

text \<open>The function pointer of a callout, applied to its argument.\<close>

primrec run_timeout :: "env \<Rightarrow> auth_env \<Rightarrow> cfun \<Rightarrow> (ppp, unit) act" where
  "run_timeout E A (Fsm_timeout P) =
     fsm_timeout E (case P of LcpF \<Rightarrow> lcp_callbacks E A | IpcpF \<Rightarrow> ipcp_callbacks E A)"
| "run_timeout E A Upap_timeout = upap_timeout E"
| "run_timeout E A Chap_challenge_timeout = ChapChallengeTimeout E"
| "run_timeout E A Chap_response_timeout = ChapResponseTimeout E"
| "run_timeout E A Chap_rechallenge = ChapRechallenge E"
| "run_timeout E A Lcp_echo_timeout = LcpEchoTimeout E A"

definition alrm :: "env \<Rightarrow> auth_env \<Rightarrow> (ppp, unit) act" where
  "alrm E A s =
     (if callout s = [] then Ret () s
      else let (due, rest) = callout_due (callout s) in steps
        ([upd (\<lambda>s. s\<lparr>callout := rest\<rparr>),
          if rest \<noteq> [] then set_itimer E (c_time (hd rest)) else skip]
         @ map (\<lambda>c. run_timeout E A (c_func c)) due) s)"

section \<open>Packets\<close>

text \<open>The protocol numbers of \<open>prottbl\<close>, in order.\<close>

definition prottbl_input :: "env \<Rightarrow> auth_env \<Rightarrow> bytes \<Rightarrow> u16 \<Rightarrow> (bytes \<Rightarrow> int \<Rightarrow> (ppp, unit) act) option" where
  "prottbl_input E A us protocol =
     (if LCP (eh E) = protocol then Some (lcp_input E A)
      else if IPCP (eh E) = protocol then Some (ipcp_input E A)
      else if UPAP (eh E) = protocol then Some (upap_input E A)
      else if CHAP (eh E) = protocol then Some (ChapInput E A us)
      else None)"

text \<open>
  The loop of \<open>io\<close> over what successive calls of \<open>read_packet\<close> deliver: the contents of the
  buffer and the length, negative when there is no packet. The result is what was not read.
\<close>

primrec io_loop :: "env \<Rightarrow> auth_env \<Rightarrow> bytes \<Rightarrow> (bytes \<times> int) list \<Rightarrow> (ppp, (bytes \<times> int) list) act" where
  "io_loop E A us [] = ret []"
| "io_loop E A us (r # rs) = (\<lambda>s.
     let (buf, len) = r; protocol = getshort (eh E) (rd buf 2) (rd buf 3); p = drop 4 buf in
     if len < 0 then Ret rs s
     else if len < DLLHEADERLEN (eh E) then Ret rs s
     else if protocol \<noteq> LCP (eh E) \<and> fstate (lcp_fsm s) \<noteq> OPENED then Ret rs s
     else (case prottbl_input E A us protocol of
        Some inputf \<Rightarrow> bnd (inputf p (len - DLLHEADERLEN (eh E))) (\<lambda>_. io_loop E A us rs) s
      | None \<Rightarrow> bnd (steps [upd (\<lambda>s. s\<lparr>unknownProto := unknownProto s + 1\<rparr>), lcp_sprotrej E buf len])
          (\<lambda>_. io_loop E A us rs) s))"

definition io :: "env \<Rightarrow> auth_env \<Rightarrow> bytes \<Rightarrow> (bytes \<times> int) list \<Rightarrow> (ppp, (bytes \<times> int) list) act" where
  "io E A us rs = bnd (adjtimeout E) (\<lambda>_. io_loop E A us rs)"

section \<open>The task\<close>

definition magic_init :: "u32 \<Rightarrow> (ppp, unit) act" where
  "magic_init tick = upd (\<lambda>s. s\<lparr>magic_next := tick\<rparr>)"

text \<open>The initialisation of the entries of \<open>prottbl\<close>.\<close>

definition init_protocols :: "env \<Rightarrow> (ppp, unit) act" where
  "init_protocols E = steps [lcp_init E, ipcp_init E, upap_init E, ChapInit E]"

definition setipdefault :: "env \<Rightarrow> auth_env \<Rightarrow> bool \<Rightarrow> (ppp, unit) act" where
  "setipdefault E A disable_defaultip = upd (\<lambda>s.
     let wo = ipcp_wantoptions s; local = host_by_name A (hostname s) in
     if ouraddr wo \<noteq> 0 \<or> disable_defaultip then s
     else let wo1 = wo\<lparr>accept_local := True\<rparr> in
       s\<lparr>ipcp_wantoptions :=
         (if local \<noteq> 0xffffffff \<and> local \<noteq> 0 \<and> \<not> bad_ip_adrs (eh E) local then wo1\<lparr>ouraddr := local\<rparr>
          else wo1)\<rparr>)"

text \<open>From \<open>lcp_lowerup\<close> to the first \<open>sigsuspend\<close>.\<close>

definition start_link :: "env \<Rightarrow> auth_env \<Rightarrow> (ppp, unit) act" where
  "start_link E A = steps
     [lcp_lowerup E A, lcp_open E A, upd (\<lambda>s. s\<lparr>ppp_phase := PHASE_ESTABLISH\<rparr>)]"

datatype signal = SigHup | SigInt | SigTerm | SigAlrm | SigIo "(bytes \<times> int) list"

primrec handler :: "env \<Rightarrow> auth_env \<Rightarrow> bytes \<Rightarrow> signal \<Rightarrow> (ppp, unit) act" where
  "handler E A us SigHup = hup E"
| "handler E A us SigInt = intr E"
| "handler E A us SigTerm = term_sig E"
| "handler E A us SigAlrm = alrm E A"
| "handler E A us (SigIo rs) = bnd (io E A us rs) (\<lambda>_. skip)"

text \<open>The main loop: one handler per wake-up until the link is dead, then \<open>die\<close> and the end.\<close>

definition when_dead :: "env \<Rightarrow> (ppp, unit) act \<Rightarrow> (ppp, unit) act" where
  "when_dead E f s = (if ppp_phase s = PHASE_DEAD then bnd (die_fn E) (\<lambda>_ s. Exit s) s else f s)"

primrec task_loop :: "env \<Rightarrow> auth_env \<Rightarrow> bytes \<Rightarrow> signal list \<Rightarrow> (ppp, unit) act" where
  "task_loop E A us [] = when_dead E skip"
| "task_loop E A us (e # es) = when_dead E (bnd (handler E A us e) (\<lambda>_. task_loop E A us es))"

end
