(* ===== verification/Samples.thy ===== *)
theory Samples
  imports Ppp_Daemon
begin

text \<open>
  Concrete data for the witnesses: an authentication environment with one secret, a task
  environment in which every call succeeds and returns 0, and units with LCP in a given
  state. The flag values are those of the public \<open>pppd\<close> sources.
\<close>

definition sample_auth :: auth_env where
  "sample_auth = \<lparr>NONWILD_CLIENT = 1, NONWILD_SERVER = 2, ISWILD = (\<lambda>w. w = [0x2a]), MAXWORDLEN = 1024,
     files = (\<lambda>_. None), pap_file = None, chap_file = None, login_verify = (\<lambda>_ _. False), crypt_rtn = None,
     inet_addr = (\<lambda>_. - 1), host_by_name = (\<lambda>_. 0),
     secrets = Some [\<lparr>se_client = [0x61], se_server = [0x62], se_secret = [0x73], se_addrs = []\<rparr>]\<rparr>"

abbreviation sample_env :: "(ppp, unit) act \<Rightarrow> env" where
  "sample_env d \<equiv> ok_env std_hdr (\<lambda>_. 0) (\<lambda>_ _. 0) d"

definition lcp_at :: "fsm_st \<Rightarrow> int \<Rightarrow> ppp" where
  "lcp_at st k = ppp_calloc\<lparr>lcp_fsm := fsm_zero\<lparr>fstate := st, timeouttime := 3, retransmits := k,
       maxconfreqtransmits := 10, maxtermtransmits := 2, maxnakloops := 5\<rparr>,
     callout := [\<lparr>c_time = 3, c_func = Fsm_timeout LcpF\<rparr>], peer_mru := 1500\<rparr>"

lemma lcp_at_simps [simp]:
  "lcp_fsm (lcp_at st k) = fsm_zero\<lparr>fstate := st, timeouttime := 3, retransmits := k,
       maxconfreqtransmits := 10, maxtermtransmits := 2, maxnakloops := 5\<rparr>"
  "callout (lcp_at st k) = [\<lparr>c_time = 3, c_func = Fsm_timeout LcpF\<rparr>]"
  by (simp_all add: lcp_at_def)

end
