(* ===== verification/Auth_Gate.thy ===== *)
theory Auth_Gate
  imports Samples
begin

text \<open>
  The invariant of the authentication phase over everything the task does: whatever arrives
  and whatever calls fail, the link is in the network phase only when every authentication
  that was negotiated is done, and the server side of PAP or CHAP has then accepted the peer.

  \<open>gate_view\<close> is the part of the state that matters; \<open>same\<close> are the actions that leave it
  alone, \<open>triple\<close> is a Hoare triple for partial correctness. The laws hold in an
  environment in which \<open>die\<close> does not come back (the locale \<open>strict\<close>), which is the case
  for a unit that is neither passive nor silent.
\<close>

section \<open>What matters\<close>

record gate_view =
  gv_state :: fsm_st
  gv_passive :: bool
  gv_silent :: bool
  gv_shy :: bool
  gv_phase :: phase
  gv_pending :: u32
  gv_required :: bool
  gv_name :: bytes
  gv_want_upap :: bool
  gv_chap :: bool
  gv_upap :: bool
  gv_us :: upap_ss
  gv_cs :: chap_ss

definition gview :: "ppp \<Rightarrow> gate_view" where
  "gview s = \<lparr>gv_state = fstate (lcp_fsm s), gv_passive = opt_passive (lcp_fsm s),
     gv_silent = opt_silent (lcp_fsm s),
     gv_shy = (passive_mode (lcp_wantoptions s) \<or> silent_mode (lcp_wantoptions s)), gv_phase = ppp_phase s, gv_pending = auth_pending s,
     gv_required = auth_required s, gv_name = our_name s,
     gv_want_upap = neg_upap (lcp_wantoptions s), gv_chap = neg_chap (lcp_gotoptions s),
     gv_upap = neg_upap (lcp_gotoptions s), gv_us = us_serverstate (upap s),
     gv_cs = serverstate (chap s)\<rparr>"

definition eager :: "ppp \<Rightarrow> bool" where
  "eager s \<longleftrightarrow> \<not> opt_passive (lcp_fsm s) \<and> \<not> opt_silent (lcp_fsm s)"

lemma eager_view: "gview t = gview s \<Longrightarrow> eager t = eager s"
  by (simp add: gview_def eager_def)

definition triple :: "(ppp \<Rightarrow> bool) \<Rightarrow> (ppp, 'a) act \<Rightarrow> (ppp \<Rightarrow> bool) \<Rightarrow> bool" where
  "triple P f Q \<longleftrightarrow> (\<forall>s. P s \<longrightarrow> wlp (f s) (\<lambda>_. Q))"

definition same :: "(ppp, 'a) act \<Rightarrow> bool" where
  "same f \<longleftrightarrow> (\<forall>s. eager s \<longrightarrow> wlp (f s) (\<lambda>_ t. gview t = gview s))"

named_theorems sames \<open>actions that leave the view alone\<close>

lemma tripleI: "(\<And>s. P s \<Longrightarrow> wlp (f s) (\<lambda>_. Q)) \<Longrightarrow> triple P f Q"
  by (simp add: triple_def)

lemma tripleD: "triple P f Q \<Longrightarrow> P s \<Longrightarrow> wlp (f s) (\<lambda>_. Q)"
  by (simp add: triple_def)

lemma triple_conseq: "triple P f Q \<Longrightarrow> (\<And>s. P' s \<Longrightarrow> P s) \<Longrightarrow> (\<And>s. Q s \<Longrightarrow> Q' s) \<Longrightarrow> triple P' f Q'"
  unfolding triple_def wlp_def by blast

lemma triple_bnd: "triple P f R \<Longrightarrow> (\<And>a. triple R (g a) Q) \<Longrightarrow> triple P (bnd f g) Q"
  unfolding triple_def wlp_bnd unfolding wlp_def by blast

lemma triple_steps:
  "triple P f R \<Longrightarrow> triple R (steps fs) Q \<Longrightarrow> triple P (steps (f # fs)) Q"
  "triple P (steps []) P"
  by (simp_all add: triple_bnd) (simp add: triple_def)

lemma triple_if:
  "triple (\<lambda>s. P s \<and> c s) f Q \<Longrightarrow> triple (\<lambda>s. P s \<and> \<not> c s) g Q \<Longrightarrow> triple P (\<lambda>s. if c s then f s else g s) Q"
  by (simp add: triple_def)

lemma triple_upd: "(\<And>s. P s \<Longrightarrow> Q (g s)) \<Longrightarrow> triple P (upd g) Q"
  by (simp add: triple_def)

lemma sameI: "(\<And>s. eager s \<Longrightarrow> wlp (f s) (\<lambda>_ t. gview t = gview s)) \<Longrightarrow> same f"
  by (simp add: same_def)

lemma same_triple: "same f \<Longrightarrow> (\<And>s. P s \<Longrightarrow> eager s) \<Longrightarrow> (\<And>s t. P s \<Longrightarrow> gview t = gview s \<Longrightarrow> P t) \<Longrightarrow> triple P f P"
  unfolding triple_def same_def wlp_def by blast

lemma same_wlp: "same f \<Longrightarrow> eager s \<Longrightarrow> (\<And>a t. gview t = gview s \<Longrightarrow> Q a t) \<Longrightarrow> wlp (f s) Q"
  unfolding same_def wlp_def by blast

lemma same_bnd: "same f \<Longrightarrow> (\<And>a. same (g a)) \<Longrightarrow> same (bnd f g)"
  unfolding same_def wlp_bnd unfolding wlp_def by (metis eager_view)

lemma same_skip: "same skip" "same (ret a)" "same (Ret a)"
  by (simp_all add: same_def)

lemma same_steps: "(\<And>f. f \<in> set fs \<Longrightarrow> same f) \<Longrightarrow> same (steps fs)"
  by (induction fs) (auto intro!: same_bnd same_skip)

lemma same_if: "same f \<Longrightarrow> same g \<Longrightarrow> same (\<lambda>s. if c s then f s else g s)"
  by (simp add: same_def)

lemma same_ifb: "same f \<Longrightarrow> same g \<Longrightarrow> same (if b then f else g)"
  by simp

lemma same_at: "(\<And>x. same (f x)) \<Longrightarrow> same (\<lambda>s. f (k s) s)"
  by (simp add: same_def)

lemma same_upd: "(\<And>s. gview (g s) = gview s) \<Longrightarrow> same (upd g)"
  by (simp add: same_def)

lemma same_call: "(\<And>f. p = Some f \<Longrightarrow> same f) \<Longrightarrow> same (call p)"
  by (cases p) (auto simp: same_def)

lemma same_finally: "same f \<Longrightarrow> same (finally_ret f a)"
  by (auto simp: finally_ret_def intro: same_bnd same_skip)

lemma same_ext: "same (ext E c)"
  by (simp add: same_def ext_def gview_def)

lemma same_try_ext: "(\<And>x. same (k x)) \<Longrightarrow> same (try_ext E c k)"
  unfolding try_ext_def by (intro same_bnd same_ext same_ifb same_skip)

lemmas same_rules = same_bnd same_if same_ifb same_skip same_ext same_try_ext same_finally

lemma same_kernel [sames]:
  "same (sifvjcomp E b x y)" "same (sifup E)" "same (sifdown E)" "same (sifaddr E u v m)"
  "same (cifaddr E u v)" "same (sifdefaultroute E u)" "same (cifdefaultroute E u)"
  "same (sifproxyarp E u)" "same (cifproxyarp E u)" "same (ppp_set_xaccm E xs)"
  unfolding sifvjcomp_def sifup_def sifdown_def sifaddr_def cifaddr_def sifdefaultroute_def
    cifdefaultroute_def sifproxyarp_def cifproxyarp_def ppp_set_xaccm_def Let_def
  by (intro same_rules)+


lemma gview_fsm_upd [simp]:
  "gview (fsm_upd IpcpF g s) = gview s"
  "(\<And>f. fstate (g f) = fstate f \<and> opt_passive (g f) = opt_passive f \<and> opt_silent (g f) = opt_silent f) \<Longrightarrow>
   gview (fsm_upd P g s) = gview s"
  "gview (fsm_upd LcpF (\<lambda>f. f\<lparr>fstate := st\<rparr>) s) = (gview s)\<lparr>gv_state := st\<rparr>"
  by (cases P; simp add: gview_def)+

declare fsm_upd.simps [simp del]

lemma gview_frame [simp]:
  "gview (s\<lparr>trace := tr\<rparr>) = gview s" "gview (s\<lparr>callout := cs\<rparr>) = gview s"
  "gview (s\<lparr>schedtime := n\<rparr>) = gview s" "gview (s\<lparr>peer_mru := m\<rparr>) = gview s"
  "gview (s\<lparr>ipcp_gotoptions := op1\<rparr>) = gview s" "gview (s\<lparr>ipcp_hisoptions := op1\<rparr>) = gview s"
  "gview (s\<lparr>ppp_phase := ph\<rparr>) = (gview s)\<lparr>gv_phase := ph\<rparr>"
  by (simp_all add: gview_def)

lemma gview_allow [simp]: "gview (s\<lparr>lcp_allowoptions := lo\<rparr>) = gview s"
  by (simp add: gview_def)

lemma eager_iff: "eager s \<longleftrightarrow> \<not> gv_passive (gview s) \<and> \<not> gv_silent (gview s)"
  by (simp add: eager_def gview_def)

section \<open>When \<open>die\<close> does not come back\<close>

locale strict =
  fixes E :: env
  assumes dies: "eager s \<Longrightarrow> wlp (die_fn E s) (\<lambda>_ _. False)"
begin

lemma wlp_die: "eager s \<Longrightarrow> wlp (die_fn E s) Q"
  using dies by (rule wlp_mono) simp_all

lemma same_die [sames]: "same (die_fn E)"
  by (rule sameI) (rule wlp_die)

lemma same_ioctl: "same (ioctl_or_die E c)"
  unfolding ioctl_or_die_def by (intro same_rules same_die)

lemma same_flags: "same (change_flags_or_die E g)"
  unfolding change_flags_or_die_def by (auto intro!: same_rules same_die same_ioctl)

lemma same_device [sames]:
  "same (output_frame E p)" "same (ppp_send_config E n m b c)" "same (ppp_recv_config E n m b c)"
  "same (set_itimer E n)"
proof -
  have upd: "same (upd (\<lambda>s. s\<lparr>schedtime := k\<rparr>))" for k by (rule same_upd) simp
  show "same (output_frame E p)" "same (ppp_send_config E n m b c)" "same (ppp_recv_config E n m b c)"
    "same (set_itimer E n)"
    unfolding output_frame_def ppp_send_config_def ppp_recv_config_def set_itimer_def
    by (auto intro!: same_rules same_die same_ioctl same_flags upd)
qed

lemmas wlp_itimer = same_wlp [OF same_device(4)]

lemma same_timeouts [sames]:
  "same (ppp_timeout E f n)" "same (ppp_untimeout E f)" "same (adjtimeout E)"
proof -
  show "same (ppp_timeout E f n)" "same (ppp_untimeout E f)"
    by (rule sameI, auto simp: ppp_timeout_def ppp_untimeout_def Let_def eager_iff intro!: wlp_itimer)+
  show "same (adjtimeout E)"
    by (rule sameI) (auto simp: adjtimeout_def eager_iff intro!: wlp_die)
qed

lemma same_fsm_send [sames]:
  "same (TIMEOUT_FSM E C)" "same (UNTIMEOUT_FSM E C)" "same (fsm_sdata E C c i d n)" "same (write_client E)"
proof -
  show "same (UNTIMEOUT_FSM E C)" unfolding UNTIMEOUT_FSM_def by (rule sames)
  show "same (TIMEOUT_FSM E C)" "same (fsm_sdata E C c i d n)"
    by (rule sameI, simp add: TIMEOUT_FSM_def fsm_sdata_def, intro same_wlp [OF same_timeouts(1)]
        same_wlp [OF same_device(1)], assumption+)+
  show "same (write_client E)"
    by (rule sameI) (auto simp: write_client_def eager_iff intro!: same_wlp [OF same_device(1)])
qed

lemma same_termreq [sames]: "same (send_termreq E C)"
  by (rule sameI) (auto simp: send_termreq_def eager_iff
      intro!: same_wlp [OF same_fsm_send(1)] same_wlp [OF same_fsm_send(3)])

lemmas wlp_send = same_wlp [OF same_fsm_send(1)] same_wlp [OF same_fsm_send(2)]
  same_wlp [OF same_fsm_send(3)] same_wlp [OF same_fsm_send(4)] same_wlp [OF same_termreq]

end


section \<open>IPCP leaves the view alone\<close>

text \<open>The table of a protocol above the link: none of its entries touches the view.\<close>

definition upper :: "fsm_callbacks \<Rightarrow> bool" where
  "upper C \<longleftrightarrow> self C = IpcpF \<and> extcode C = None \<and>
     (\<forall>f \<in> set_option (resetci C) \<union> set_option (up C) \<union> set_option (down C) \<union> set_option (starting C)
        \<union> set_option (finished C) \<union> set_option (retransmit C). same f) \<and>
     (\<forall>ad \<in> set_option (addci C). \<forall>n. same (ad n)) \<and>
     (\<forall>k \<in> set_option (ackci C) \<union> set_option (nakci C) \<union> set_option (rejci C). \<forall>p n. same (k p n)) \<and>
     (\<forall>q \<in> set_option (reqci C). \<forall>p n b. same (q p n b))"

lemma upperD:
  assumes "upper C"
  shows "self C = IpcpF" "extcode C = None"
    "same (call (resetci C))" "same (call (up C))" "same (call (down C))" "same (call (starting C))"
    "same (call (finished C))" "same (call (retransmit C))"
    "addci C = Some ad \<Longrightarrow> same (ad n)" "ackci C = Some k \<Longrightarrow> same (k p n)"
    "nakci C = Some k \<Longrightarrow> same (k p n)" "rejci C = Some k \<Longrightarrow> same (k p n)"
    "reqci C = Some q \<Longrightarrow> same (q p n b)"
  using assms by (auto simp: upper_def intro!: same_call)

lemmas wlp_upper = same_wlp [OF upperD(3)] same_wlp [OF upperD(4)] same_wlp [OF upperD(5)]
  same_wlp [OF upperD(6)] same_wlp [OF upperD(7)] same_wlp [OF upperD(8)]

context strict
begin

lemma same_make_ci: "upper C \<Longrightarrow> same (make_ci E C)"
  by (rule sameI) (auto simp: make_ci_def Let_def eager_iff intro!: same_wlp [OF upperD(9)] split: option.split)

lemma same_sconfreq: "upper C \<Longrightarrow> same (fsm_sconfreq E C b)"
  by (rule sameI) (auto simp: fsm_sconfreq_def eager_iff upperD(1)
      intro!: wlp_send wlp_upper same_wlp [OF same_make_ci] split: prod.split)

lemmas wlp_sconfreq = same_wlp [OF same_sconfreq]

lemma same_renegotiate: "upper C \<Longrightarrow> same (renegotiate E C)"
  unfolding renegotiate_def by (auto intro!: same_rules same_sconfreq upperD)

lemma same_lower:
  assumes "upper C"
  shows "same (fsm_lowerup E C)" "same (fsm_lowerdown E C)"
  using assms by (auto intro!: sameI wlp_send wlp_upper wlp_sconfreq
    simp: fsm_lowerup_def fsm_lowerdown_def eager_iff upperD(1) split: fsm_st.split)

lemma same_open_close:
  assumes "upper C"
  shows "same (fsm_open E C)" "same (fsm_close E C)"
proof -
  have "same (fsm_reopen E C)"
    using assms by (auto intro!: sameI same_wlp [OF same_lower(1)] same_wlp [OF same_lower(2)]
      simp: fsm_reopen_def eager_iff)
  then show "same (fsm_open E C)" "same (fsm_close E C)"
    using assms by (auto intro!: sameI wlp_send wlp_upper wlp_sconfreq same_wlp [where f = "fsm_reopen E C"]
      simp: fsm_open_def fsm_close_def eager_iff upperD(1) Let_def split: fsm_st.split)
qed

lemma same_fsm_timeout: "upper C \<Longrightarrow> same (fsm_timeout E C)"
  by (auto intro!: sameI wlp_send wlp_upper wlp_sconfreq
      simp: fsm_timeout_def eager_iff upperD(1) Let_def split: fsm_st.split)

lemma same_rconfreq: "upper C \<Longrightarrow> same (fsm_rconfreq E C i p n)"
proof -
  assume C: "upper C"
  have "same (rconfreq_first E C i)"
    using C by (auto intro!: sameI wlp_send wlp_upper wlp_sconfreq same_wlp [OF same_renegotiate]
      simp: rconfreq_first_def finally_ret_def eager_iff upperD(1) split: fsm_st.split)
  moreover have "same (check_ci C p n)"
    using upperD(13) [OF C] by (cases "reqci C") (simp_all add: same_def check_ci_def)
  moreover have "same (rconfreq_answer E C i (c, q, m))" for c q m
    using C by (auto intro!: sameI wlp_send wlp_upper simp: rconfreq_answer_def eager_iff upperD(1))
  ultimately show ?thesis
    unfolding fsm_rconfreq_def by (auto intro!: same_rules)
qed


lemma same_rconfack: "upper C \<Longrightarrow> same (fsm_rconfack E C i p n)"
  by (auto intro!: sameI wlp_send wlp_upper wlp_sconfreq same_wlp [OF same_renegotiate] same_wlp [OF upperD(10)]
      simp: fsm_rconfack_def eager_iff upperD(1) split: fsm_st.split option.split)

lemma same_rconfnakrej:
  assumes "upper C"
  shows "same (fsm_rconfnakrej E C c i p n)"
proof -
  have nk: "same (case nakci C of None \<Rightarrow> ret False | Some pr \<Rightarrow> pr p n)"
    using upperD(11) [OF assms] by (auto intro!: same_skip split: option.split)
  have rj: "same (case rejci C of None \<Rightarrow> ret False | Some pr \<Rightarrow> pr p n)"
    using upperD(12) [OF assms] by (auto intro!: same_skip split: option.split)
  from assms show ?thesis
    by (auto intro!: sameI wlp_send wlp_upper wlp_sconfreq same_wlp [OF same_renegotiate]
        same_wlp [OF nk] same_wlp [OF rj]
        simp: fsm_rconfnakrej_def eager_iff upperD(1) split: fsm_st.split)
qed

lemma same_rterm:
  assumes "upper C"
  shows "same (fsm_rtermreq E C i)" "same (fsm_rtermack E C)" "same (fsm_rcoderej E C p n)"
  using assms by (auto intro!: sameI wlp_send wlp_upper same_wlp [OF same_renegotiate]
    simp: fsm_rtermreq_def fsm_rtermack_def fsm_rcoderej_def eager_iff upperD(1) split: fsm_st.split)

lemma same_fsm_input: "upper C \<Longrightarrow> same (fsm_input E C p n)"
  by (auto intro!: sameI wlp_send same_wlp [OF same_rconfreq] same_wlp [OF same_rconfack]
      same_wlp [OF same_rconfnakrej] same_wlp [OF same_rterm(1)] same_wlp [OF same_rterm(2)] same_wlp [OF same_rterm(3)]
      simp: fsm_input_def eager_iff upperD(1,2) split: option.split)

lemma same_ipcp_ci:
  "same ipcp_resetci" "same (ipcp_addci h n)" "same (ipcp_nakci h p n)" "same (ipcp_reqci h p n b)"
  "same (ipcp_rejci E p n)"
proof -
  show "same ipcp_resetci" "same (ipcp_addci h n)" "same (ipcp_nakci h p n)" "same (ipcp_reqci h p n b)"
    by (simp_all add: same_def ipcp_resetci_def ipcp_addci_def ipcp_nakci_def ipcp_reqci_def Let_def gview_def
        split: prod.split option.split)
  show "same (ipcp_rejci E p n)"
    by (auto intro!: sameI wlp_die simp: ipcp_rejci_def REJCIADDR_def Let_def split: option.split)
qed

lemma same_ipcp_down: "same (ipcp_down E)"
  by (auto intro!: sameI same_wlp [OF same_kernel(3)] same_wlp [OF same_kernel(5)]
      same_wlp [OF same_kernel(7)] same_wlp [OF same_kernel(9)] simp: ipcp_down_def Let_def eager_iff)

lemma upper_ipcp0: "upper (ipcp_callbacks0 E)"
  by (auto simp: upper_def ipcp_callbacks0_def intro!: same_ipcp_ci same_ipcp_down)
    (simp add: same_def)

lemma same_ipcp_close: "same (ipcp_close E)"
  unfolding ipcp_close_def by (auto intro!: same_rules same_open_close upper_ipcp0 same_die)

lemma same_ipcp_config: "same (ipcp_config E)"
  by (auto intro!: sameI same_wlp [OF same_kernel(1)] same_wlp [OF same_kernel(2)] same_wlp [OF same_kernel(4)]
      same_wlp [OF same_kernel(6)] same_wlp [OF same_kernel(8)] same_wlp [OF same_ipcp_close]
      simp: ipcp_config_def eager_iff) 

lemma same_ipcp_up: "same (ipcp_up E A)"
  by (auto intro!: sameI same_wlp [OF same_ipcp_close] same_wlp [OF same_ipcp_config]
      simp: ipcp_up_def eager_iff)

lemma upper_ipcp: "upper (ipcp_callbacks E A)"
  using upper_ipcp0 same_ipcp_up by (auto simp: upper_def ipcp_callbacks_def)

lemma same_ipcp [sames]:
  "same (ipcp_open E A)" "same (ipcp_lowerup E A)" "same (ipcp_lowerdown E A)"
  "same (ipcp_input E A p n)" "same (ipcp_protrej E A)" "same (fsm_timeout E (ipcp_callbacks E A))"
  unfolding ipcp_open_def ipcp_lowerup_def ipcp_lowerdown_def ipcp_input_def ipcp_protrej_def
  by (intro same_open_close same_lower same_fsm_input same_fsm_timeout upper_ipcp)+

end


section \<open>The gate\<close>

text \<open>Whether an empty name with an empty password is all right for the server \<open>name\<close>.\<close>

definition null_accepts :: "auth_env \<Rightarrow> bytes \<Rightarrow> bool" where
  "null_accepts A name =
     (case null_login A (ppp_calloc\<lparr>our_name := name\<rparr>) of Ret b _ \<Rightarrow> b | _ \<Rightarrow> False)"

text \<open>
  What is known of the peer once the link is established: if authentication is required, it
  was negotiated or an entry for the empty name lets the peer pass; once CHAP (or PAP) is
  no longer pending the server accepted the peer; the network phase has nothing pending.
  (A Protocol-Reject for PAP after it is done takes the PAP server back to its initial state.)
\<close>

definition admitted :: "auth_env \<Rightarrow> gate_view \<Rightarrow> bool" where
  "admitted A v \<longleftrightarrow>
     (gv_required v \<longrightarrow> gv_chap v \<or> gv_upap v \<or> gv_want_upap v \<and> null_accepts A (gv_name v)) \<and>
     (gv_chap v \<longrightarrow> gv_pending v AND CHAP_PEER = 0 \<longrightarrow> gv_cs v = CHAPSS_OPEN \<or> gv_cs v = CHAPSS_RECHALLENGE) \<and>
     (\<not> gv_chap v \<and> gv_upap v \<longrightarrow> gv_pending v AND UPAP_PEER = 0 \<longrightarrow>
        gv_us v = UPAPSS_OPEN \<or> gv_us v = UPAPSS_INITIAL) \<and>
     (gv_phase v = PHASE_NETWORK \<longrightarrow> gv_pending v = 0)"

definition up_phase :: "gate_view \<Rightarrow> bool" where
  "up_phase v \<longleftrightarrow> gv_phase v = PHASE_AUTHENTICATE \<or> gv_phase v = PHASE_NETWORK"

definition gate :: "auth_env \<Rightarrow> ppp \<Rightarrow> bool" where
  "gate A s \<longleftrightarrow> eager s \<and> (fstate (lcp_fsm s) = OPENED \<longleftrightarrow> up_phase (gview s)) \<and>
     (up_phase (gview s) \<longrightarrow> admitted A (gview s))"

text \<open>The link is not established; the state of the automaton is \<open>st\<close>.\<close>

definition idle :: "fsm_st \<Rightarrow> ppp \<Rightarrow> bool" where
  "idle st s \<longleftrightarrow> eager s \<and> fstate (lcp_fsm s) = st \<and> \<not> up_phase (gview s)"

lemma state_gview: "fstate (lcp_fsm s) = gv_state (gview s)"
  by (simp add: gview_def)

lemma idle_view: "idle st s \<longleftrightarrow> eager s \<and> gv_state (gview s) = st \<and> \<not> up_phase (gview s)"
  by (simp add: idle_def gview_def)

lemma gate_view: "gate A s \<longleftrightarrow> eager s \<and> (gv_state (gview s) = OPENED \<longleftrightarrow> up_phase (gview s)) \<and>
     (up_phase (gview s) \<longrightarrow> admitted A (gview s))"
  by (simp add: gate_def gview_def)

lemma gate_eager: "gate A s \<Longrightarrow> eager s"
  by (simp add: gate_def)

lemma idle_gate: "idle st s \<Longrightarrow> st \<noteq> OPENED \<Longrightarrow> gate A s"
  by (simp add: idle_def gate_def)

lemma gate_idle: "gate A s \<Longrightarrow> fstate (lcp_fsm s) \<noteq> OPENED \<Longrightarrow> idle (fstate (lcp_fsm s)) s"
  by (simp add: idle_def gate_def)

lemma up_phase_upd [simp]:
  "up_phase (v\<lparr>gv_state := x\<rparr>) = up_phase v" "up_phase (v\<lparr>gv_us := u\<rparr>) = up_phase v"
  "up_phase (v\<lparr>gv_cs := c\<rparr>) = up_phase v" "up_phase (v\<lparr>gv_pending := n\<rparr>) = up_phase v"
  "up_phase (v\<lparr>gv_chap := b\<rparr>) = up_phase v" "up_phase (v\<lparr>gv_upap := b\<rparr>) = up_phase v"
  by (simp_all add: up_phase_def)

lemma same_gate: "same f \<Longrightarrow> triple (gate A) f (gate A)" "same f \<Longrightarrow> triple (idle st) f (idle st)"
  by (erule same_triple; simp add: gate_view idle_view eager_iff)+

lemma null_login_view: "null_login A s = Ret b t \<Longrightarrow> gview t = gview s \<and> (b \<longrightarrow> null_accepts A (our_name s))"
  by (auto simp: null_login_def null_accepts_def Let_def gview_def split: option.splits prod.splits if_splits)

lemma pending_bits:
  fixes p :: u32
  shows "(p AND NOT CHAP_PEER) AND UPAP_PEER = p AND UPAP_PEER" "(p AND NOT UPAP_PEER) AND CHAP_PEER = p AND CHAP_PEER"
    "(p AND NOT CHAP_WITHPEER) AND UPAP_PEER = p AND UPAP_PEER" "(p AND NOT CHAP_WITHPEER) AND CHAP_PEER = p AND CHAP_PEER"
    "(p AND NOT UPAP_WITHPEER) AND UPAP_PEER = p AND UPAP_PEER" "(p AND NOT UPAP_WITHPEER) AND CHAP_PEER = p AND CHAP_PEER"
  by (simp_all add: and.assoc CHAP_PEER_def UPAP_PEER_def CHAP_WITHPEER_def UPAP_WITHPEER_def)


lemma up_phase_set [simp]:
  "up_phase (v\<lparr>gv_phase := ph\<rparr>) \<longleftrightarrow> ph = PHASE_AUTHENTICATE \<or> ph = PHASE_NETWORK"
  by (simp add: up_phase_def)

section \<open>LCP\<close>

text \<open>
  What the tables of LCP promise: starting a negotiation changes the options asked for, going
  down ends the authentication phase, the two layer actions lead back to the gate.
\<close>

locale lcp_gate = strict E for E :: env +
  fixes A :: auth_env and C :: fsm_callbacks
  assumes self: "self C = LcpF"
    and resetci: "eager s \<Longrightarrow> (\<And>a b t. gview t = (gview s)\<lparr>gv_chap := a, gv_upap := b\<rparr> \<Longrightarrow> Q t) \<Longrightarrow>
      wlp (call (resetci C) s) (\<lambda>_. Q)"
    and make: "same (make_ci E C)"
    and down: "eager s \<Longrightarrow>
      (\<And>u c t. gview t = (gview s)\<lparr>gv_us := u, gv_cs := c, gv_phase := PHASE_TERMINATE\<rparr> \<Longrightarrow> Q t) \<Longrightarrow>
      wlp (call (down C) s) (\<lambda>_. Q)"
    and starting: "same (call (starting C))"
    and retransmit: "same (call (retransmit C))"
    and finished: "idle st s \<Longrightarrow> st \<noteq> OPENED \<Longrightarrow> wlp (call (finished C) s) (\<lambda>_. gate A)"
begin

lemma state_of_view: "state_of C s = gv_state (gview s)"
  by (simp add: state_of_def getf_def self gview_def)

lemma wlp_finished:
  assumes "eager s" and "gv_state (gview s) \<noteq> OPENED" and "\<not> up_phase (gview s)"
    and "\<And>t. gate A t \<Longrightarrow> Q t"
  shows "wlp (call (finished C) s) (\<lambda>_. Q)"
  using finished [of "gv_state (gview s)" s] assms by (auto simp: idle_view elim: wlp_mono)

lemma wlp_negotiate:
  assumes "eager s" and "\<And>a b t. gview t = (gview s)\<lparr>gv_chap := a, gv_upap := b\<rparr> \<Longrightarrow> Q t"
  shows "wlp (fsm_sconfreq E C retrans s) (\<lambda>_. Q)"
proof -
  have Q: "Q t" if "gview t = gview s" for t
    using assms(2) [where t = t and a = "gv_chap (gview s)" and b = "gv_upap (gview s)"] that by simp
  show ?thesis
    using assms(1) by (auto simp: fsm_sconfreq_def eager_iff self
        intro!: wlp_send same_wlp [OF make] resetci intro: Q assms(2) split: prod.split)
qed

lemmas wlp_lcp = wlp_send wlp_negotiate down same_wlp [OF starting] same_wlp [OF retransmit]
lemmas gate_simps = gate_view eager_iff self state_of_view

lemma gate_lower:
  "triple (gate A) (fsm_lowerup E C) (gate A)" "triple (gate A) (fsm_lowerdown E C) (gate A)"
  by (rule tripleI, auto simp: fsm_lowerup_def fsm_lowerdown_def gate_simps intro!: wlp_lcp split: fsm_st.split)+


lemma wlp_gate: "triple (gate A) f (gate A) \<Longrightarrow> gate A s \<Longrightarrow> (\<And>t. gate A t \<Longrightarrow> Q t) \<Longrightarrow> wlp (f s) (\<lambda>_. Q)"
  by (auto dest!: tripleD elim: wlp_mono)

lemma gate_reopen: "triple (gate A) (fsm_reopen E C) (gate A)"
  by (rule tripleI) (auto simp: fsm_reopen_def intro!: wlp_gate [OF gate_lower(1)] wlp_gate [OF gate_lower(2)])

lemma gate_open: "triple (gate A) (fsm_open E C) (gate A)"
  by (rule tripleI) (auto simp: fsm_open_def gate_simps intro!: wlp_lcp wlp_gate [OF gate_reopen] split: fsm_st.split)

lemma gate_close: "triple (gate A) (fsm_close E C) (gate A)"
  by (rule tripleI) (auto simp: fsm_close_def gate_simps Let_def intro!: wlp_lcp split: fsm_st.split)

lemma gate_timeout: "triple (gate A) (fsm_timeout E C) (gate A)"
  by (rule tripleI) (auto simp: fsm_timeout_def gate_simps Let_def intro!: wlp_lcp wlp_finished split: fsm_st.split)

lemma gate_protreject: "triple (gate A) (fsm_protreject E C) (gate A)"
  by (rule tripleI) (auto simp: fsm_protreject_def gate_simps Let_def intro!: wlp_lcp wlp_finished split: fsm_st.split)

lemma gate_rtermreq: "triple (gate A) (fsm_rtermreq E C i) (gate A)"
  by (rule tripleI) (auto simp: fsm_rtermreq_def gate_simps intro!: wlp_lcp split: fsm_st.split)

lemma gate_rcoderej: "triple (gate A) (fsm_rcoderej E C p n) (gate A)"
  by (rule tripleI) (auto simp: fsm_rcoderej_def gate_simps)

end

definition termack_packet :: "hdr \<Rightarrow> bytes \<Rightarrow> int \<Rightarrow> bool" where
  "termack_packet h p n \<longleftrightarrow>
     (case parse_header h (HEADERLEN h) p n of None \<Rightarrow> False | Some (code, _) \<Rightarrow> code = TERMACK h)"

text \<open>The handlers of packets.\<close>

locale lcp_peer = lcp_gate +
  assumes up: "idle OPENED s \<Longrightarrow> wlp (call (up C) s) (\<lambda>_. gate A)"
    and reqci: "same (check_ci C p n)"
    and ackci: "ackci C = Some k \<Longrightarrow> same (k p n)"
    and nakrej: "nakci C = Some k \<or> rejci C = Some k \<Longrightarrow> gate A s \<Longrightarrow>
      wlp (k p n s) (\<lambda>_. gate A)"
    and extcode: "extcode C = Some ex \<Longrightarrow> triple (gate A) (ex c i p n) (gate A)"
begin

lemma wlp_up:
  assumes "eager s" and "gv_state (gview s) = OPENED" and "\<not> up_phase (gview s)"
    and "\<And>t. gate A t \<Longrightarrow> Q t"
  shows "wlp (call (up C) s) (\<lambda>_. Q)"
  using up [of s] assms by (auto simp: idle_view elim: wlp_mono)

lemma gate_rconfreq: "triple (gate A) (fsm_rconfreq E C i p n) (gate A)"
proof -
  have first: "wlp (rconfreq_first E C i s)
      (\<lambda>b t. if b then eager t \<and> \<not> up_phase (gview t) else gate A t)" if "gate A s" for s
    using that by (auto simp: rconfreq_first_def finally_ret_def renegotiate_def gate_simps
        intro!: wlp_lcp split: fsm_st.split)
  have answer: "wlp (rconfreq_answer E C i r s) (\<lambda>_. gate A)" if "eager s" "\<not> up_phase (gview s)" for r s
    using that by (cases r) (auto simp: rconfreq_answer_def gate_simps intro!: wlp_lcp wlp_up)
  have "wlp (bnd (check_ci C p n) (rconfreq_answer E C i) s) (\<lambda>_. gate A)"
    if "eager s" "\<not> up_phase (gview s)" for s
    using that by (auto simp: eager_iff intro!: same_wlp [OF reqci] answer)
  then show ?thesis
    unfolding fsm_rconfreq_def
    by (intro tripleI, simp only: wlp_bnd) (rule wlp_mono [OF first], auto)
qed

lemma gate_rconfack: "triple (gate A) (fsm_rconfack E C i p n) (gate A)"
proof -
  have ak: "same (case ackci C of None \<Rightarrow> ret (n = 0) | Some ak \<Rightarrow> ak p n)"
    using ackci by (auto intro!: same_skip split: option.split)
  show ?thesis
    by (rule tripleI) (auto simp: fsm_rconfack_def renegotiate_def gate_simps
      intro!: wlp_lcp wlp_up same_wlp [OF ak] split: fsm_st.split)
qed

lemma gate_rconfnakrej: "triple (gate A) (fsm_rconfnakrej E C c i p n) (gate A)"
proof -
  have nk: "wlp ((case nakci C of None \<Rightarrow> ret False | Some pr \<Rightarrow> pr p n) s) Q"
    and rj: "wlp ((case rejci C of None \<Rightarrow> ret False | Some pr \<Rightarrow> pr p n) s) Q"
    if "gate A s" "\<And>b t. gate A t \<Longrightarrow> Q b t" for s Q
    by (cases "nakci C"; auto intro: wlp_mono [OF nakrej] that)
      (cases "rejci C"; auto intro: wlp_mono [OF nakrej] that)
  show ?thesis
    by (rule tripleI) (auto simp: fsm_rconfnakrej_def renegotiate_def gate_simps
      intro!: wlp_lcp nk rj split: fsm_st.split)
qed

text \<open>A Terminate-Ack in the Opened state is left out (see \<open>rtermack_opened\<close>).\<close>

lemma gate_rtermack: "gate A s \<Longrightarrow> state_of C s \<noteq> OPENED \<Longrightarrow> wlp (fsm_rtermack E C s) (\<lambda>_. gate A)"
  by (auto simp: fsm_rtermack_def gate_simps intro!: wlp_lcp wlp_finished split: fsm_st.split)

lemma gate_input:
  assumes "gate A s" and "termack_packet (eh E) p n \<Longrightarrow> state_of C s \<noteq> OPENED"
  shows "wlp (fsm_input E C p n s) (\<lambda>_. gate A)"
proof (cases "parse_header (eh E) (HEADERLEN (eh E)) p n")
  case None
  then show ?thesis using assms by (simp add: fsm_input_def)
next
  case (Some r)
  obtain code ident inp len where r: "r = (code, ident, inp, len)" by (cases r)
  have ex: "wlp ((case extcode C of None \<Rightarrow> ret False | Some ex \<Rightarrow> ex code ident inp len) t) Q"
    if "gate A t" "\<And>b u. gate A u \<Longrightarrow> Q b u" for t Q
    using that by (cases "extcode C") (auto intro: wlp_mono [OF tripleD [OF extcode]])
  have rej: "gate A t \<Longrightarrow> wlp (steps [modf C (\<lambda>f. f\<lparr>fid := fid f + 1\<rparr>),
      \<lambda>s. fsm_sdata E C (CODEREJ (eh E)) (fid (getf C s)) p (len + HEADERLEN (eh E)) s] t) (\<lambda>_. gate A)" for t
    by (auto simp: gate_simps intro!: wlp_send)
  from assms Some r show ?thesis
    by (auto simp: fsm_input_def termack_packet_def intro!: tripleD [OF gate_rconfreq] tripleD [OF gate_rconfack]
        tripleD [OF gate_rconfnakrej] tripleD [OF gate_rtermreq] tripleD [OF gate_rcoderej] gate_rtermack ex rej
        simp del: steps.simps)
qed

end


lemma gview_auth [simp]:
  "gview (s\<lparr>chap := c\<rparr>) = (gview s)\<lparr>gv_cs := serverstate c\<rparr>"
  "gview (s\<lparr>upap := u\<rparr>) = (gview s)\<lparr>gv_us := us_serverstate u\<rparr>"
  "gview (s\<lparr>auth_pending := n\<rparr>) = (gview s)\<lparr>gv_pending := n\<rparr>"
  "gview (s\<lparr>lcp_hisoptions := lo\<rparr>) = gview s" "gview (s\<lparr>addresses := ws\<rparr>) = gview s"
  "gview (s\<lparr>rand_pos := k\<rparr>) = gview s"
  "gview (s\<lparr>lcp_echo_timer_running := b\<rparr>) = gview s" "gview (s\<lparr>lcp_echos_pending := i\<rparr>) = gview s"
  "gview (s\<lparr>lcp_echo_number := i\<rparr>) = gview s" "gview (set_mgen g s) = gview s"
  by (simp_all add: gview_def set_mgen_def)

lemma gview_got [simp]:
  "gview (s\<lparr>lcp_gotoptions := lo\<rparr>) = (gview s)\<lparr>gv_chap := neg_chap lo, gv_upap := neg_upap lo\<rparr>"
  by (simp add: gview_def)

lemma gview_kept:
  "serverstate (chap s) = gv_cs (gview s)" "us_serverstate (upap s) = gv_us (gview s)"
  "auth_pending s = gv_pending (gview s)" "neg_chap (lcp_gotoptions s) = gv_chap (gview s)"
  "neg_upap (lcp_gotoptions s) = gv_upap (gview s)" "ppp_phase s = gv_phase (gview s)"
  "auth_required s = gv_required (gview s)" "our_name s = gv_name (gview s)"
  "neg_upap (lcp_wantoptions s) = gv_want_upap (gview s)"
  by (simp_all add: gview_def)

context strict
begin

lemma same_echo_lowerdown: "same (lcp_echo_lowerdown E)"
  by (auto intro!: sameI same_wlp [OF same_timeouts(2)] simp: lcp_echo_lowerdown_def eager_iff)

lemma wlp_auth_down:
  assumes "eager s"
  shows "(\<And>t. gview t = (gview s)\<lparr>gv_cs := CHAPSS_INITIAL\<rparr> \<Longrightarrow> Q t) \<Longrightarrow> wlp (ChapLowerDown E s) (\<lambda>_. Q)"
    and "(\<And>t. gview t = (gview s)\<lparr>gv_us := UPAPSS_INITIAL\<rparr> \<Longrightarrow> Q t) \<Longrightarrow> wlp (upap_lowerdown E s) (\<lambda>_. Q)"
  using assms by (auto simp: ChapLowerDown_def upap_lowerdown_def eager_iff
    intro!: same_wlp [OF same_timeouts(2)])

lemma wlp_lcp_down:
  assumes "eager s"
    and "\<And>u c t. gview t = (gview s)\<lparr>gv_us := u, gv_cs := c, gv_phase := PHASE_TERMINATE\<rparr> \<Longrightarrow> Q t"
  shows "wlp (lcp_down E A s) (\<lambda>_. Q)"
  using assms(1) by (auto simp: lcp_down_def link_down_def eager_iff intro!: same_wlp [OF same_echo_lowerdown]
    same_wlp [OF same_ipcp(3)] wlp_auth_down same_wlp [OF same_kernel(3)] same_wlp [OF same_device(2)]
    same_wlp [OF same_device(3)] assms(2) [where u = UPAPSS_INITIAL and c = CHAPSS_INITIAL])

lemma wlp_lcp_resetci:
  assumes "\<And>a b t. gview t = (gview s)\<lparr>gv_chap := a, gv_upap := b\<rparr> \<Longrightarrow> Q t"
  shows "wlp (lcp_resetci E s) (\<lambda>_. Q)"
  by (auto simp: lcp_resetci_def Let_def split: prod.split intro!: assms) (simp add: gview_def set_mgen_def)

lemma same_lcp_make_ci:
  "addci C = Some (\<lambda>n s. Ret (lcp_addci (eh E) (lcp_gotoptions s), n) s) \<Longrightarrow> same (make_ci E C)"
  by (rule sameI) (auto simp: make_ci_def Let_def split: option.split)

end

sublocale strict < lcp0: lcp_gate E A "lcp_callbacks0 E A" for A
  by unfold_locales (auto simp: lcp_callbacks0_def link_required_def idle_gate
      intro!: wlp_lcp_resetci same_lcp_make_ci wlp_lcp_down same_skip same_call)


context strict
begin

lemma wlp_lcp_finished:
  assumes "idle st s" and "st \<noteq> OPENED"
  shows "wlp (lcp_finished E A s) (\<lambda>_. gate A)"
  using assms tripleD [OF lcp0.gate_open, of A s]
  by (auto simp: lcp_finished_def link_terminated_def idle_gate) (auto simp: gate_view idle_view eager_iff)

end

sublocale strict < lcp1: lcp_gate E A "lcp_callbacks1 E A" for A
  by unfold_locales (auto simp: lcp_callbacks1_def lcp_callbacks0_def link_required_def
      intro!: wlp_lcp_resetci same_lcp_make_ci wlp_lcp_down wlp_lcp_finished same_skip same_call)

section \<open>Authentication\<close>

lemma admitted_down:
  "admitted A v \<Longrightarrow> admitted A (v\<lparr>gv_us := UPAPSS_INITIAL\<rparr>)"
  "admitted A v \<Longrightarrow> gv_cs v = CHAPSS_INITIAL \<or> gv_cs v = CHAPSS_CLOSED \<Longrightarrow> admitted A (v\<lparr>gv_cs := CHAPSS_INITIAL\<rparr>)"
  by (auto simp: admitted_def)

text \<open>A server that accepts the peer keeps the gate, and so does clearing its bit afterwards.\<close>

lemma admitted_accept:
  "admitted A v \<Longrightarrow> admitted A (v\<lparr>gv_us := UPAPSS_OPEN\<rparr>)"
  "admitted A v \<Longrightarrow> admitted A (v\<lparr>gv_cs := CHAPSS_OPEN\<rparr>)"
  "admitted A v \<Longrightarrow> gv_cs v = CHAPSS_OPEN \<Longrightarrow> admitted A (v\<lparr>gv_cs := CHAPSS_RECHALLENGE\<rparr>)"
  by (auto simp: admitted_def)

lemma admitted_clear:
  "admitted A v \<Longrightarrow> gv_us v = UPAPSS_OPEN \<Longrightarrow> admitted A (v\<lparr>gv_pending := gv_pending v AND NOT UPAP_PEER\<rparr>)"
  "admitted A v \<Longrightarrow> gv_cs v = CHAPSS_OPEN \<Longrightarrow> admitted A (v\<lparr>gv_pending := gv_pending v AND NOT CHAP_PEER\<rparr>)"
  "admitted A v \<Longrightarrow> admitted A (v\<lparr>gv_pending := gv_pending v AND NOT UPAP_WITHPEER\<rparr>)"
  "admitted A v \<Longrightarrow> admitted A (v\<lparr>gv_pending := gv_pending v AND NOT CHAP_WITHPEER\<rparr>)"
  "admitted A v \<Longrightarrow> admitted A (v\<lparr>gv_pending := gv_pending v AND NOT 0\<rparr>)"
  by (auto simp: admitted_def pending_bits)

lemma admitted_network: "admitted A v \<Longrightarrow> gv_pending v = 0 \<Longrightarrow> admitted A (v\<lparr>gv_phase := PHASE_NETWORK\<rparr>)"
  by (auto simp: admitted_def)

context strict
begin

lemma gate_protrejs:
  "triple (gate A) (upap_protrej E) (gate A)" "triple (gate A) (ChapProtocolReject E) (gate A)"
  by (rule tripleI, auto simp: upap_protrej_def ChapProtocolReject_def auth_withpeer_fail_def auth_peer_fail_def
      gate_view eager_iff gview_kept intro!: wlp_auth_down wlp_die admitted_down)+

lemma gate_demuxprotrej: "triple (gate A) (demuxprotrej E A pr) (gate A)"
  unfolding demuxprotrej_def lcp_protrej_def
  by (auto intro!: lcp1.gate_protreject gate_protrejs same_gate same_ipcp same_skip)

lemma wlp_network_phase:
  assumes "eager s" and "\<And>t. gview t = (gview s)\<lparr>gv_phase := PHASE_NETWORK\<rparr> \<Longrightarrow> Q t"
  shows "wlp (network_phase E A s) (\<lambda>_. Q)"
  using assms(1) by (auto simp: network_phase_def eager_iff intro!: same_wlp [OF same_ipcp(1)] assms(2))

text \<open>The network phase begins when the last bit is cleared.\<close>

lemma wlp_clear_pending:
  assumes "gate A s" and "gv_state (gview s) = OPENED"
    and "admitted A ((gview s)\<lparr>gv_pending := gv_pending (gview s) AND NOT b\<rparr>)"
  shows "wlp (clear_pending E A b s) (\<lambda>_. gate A)"
  using assms by (auto simp: clear_pending_def gate_view eager_iff gview_kept intro!: wlp_network_phase
    dest: admitted_network)

lemma wlp_auth_success:
  assumes s: "gate A s" "gv_state (gview s) = OPENED"
  shows "UPAP (eh E) \<noteq> CHAP (eh E) \<Longrightarrow> gv_us (gview s) = UPAPSS_OPEN \<Longrightarrow>
      wlp (auth_peer_success E A (UPAP (eh E)) s) (\<lambda>_. gate A)"
    and "gv_cs (gview s) = CHAPSS_OPEN \<Longrightarrow> wlp (auth_peer_success E A (CHAP (eh E)) s) (\<lambda>_. gate A)"
    and "wlp (auth_withpeer_success E A pr s) (\<lambda>_. gate A)"
proof -
  have adm: "admitted A (gview s)" using s by (simp add: gate_view)
  note clear = wlp_clear_pending [OF s admitted_clear(1) [OF adm]] wlp_clear_pending [OF s admitted_clear(2) [OF adm]]
  show "UPAP (eh E) \<noteq> CHAP (eh E) \<Longrightarrow> gv_us (gview s) = UPAPSS_OPEN \<Longrightarrow>
      wlp (auth_peer_success E A (UPAP (eh E)) s) (\<lambda>_. gate A)"
    by (simp add: auth_peer_success_def clear)
  show "gv_cs (gview s) = CHAPSS_OPEN \<Longrightarrow> wlp (auth_peer_success E A (CHAP (eh E)) s) (\<lambda>_. gate A)"
    by (simp add: auth_peer_success_def clear)
  show "wlp (auth_withpeer_success E A pr s) (\<lambda>_. gate A)"
    unfolding auth_withpeer_success_def by (intro wlp_clear_pending s) (auto intro: admitted_clear adm)
qed

lemma same_pap_client:
  "same (upap_sauthreq E)" "same (upap_sresp E c i m)" "same (upap_timeout E)" "same (upap_rauthnak E p n)"
  by (auto simp: upap_sauthreq_def upap_sresp_def upap_timeout_def upap_rauthnak_def auth_withpeer_fail_def
      eager_iff gview_kept intro!: sameI same_wlp [OF same_device(1)] same_wlp [OF same_timeouts(1)])

lemma same_check_passwd: "same (check_passwd A u w)"
  by (auto simp: check_passwd_def intro!: sameI split: option.split)

lemma gate_rauthreq:
  assumes "gate A s" and "gv_state (gview s) = OPENED" and "UPAP (eh E) \<noteq> CHAP (eh E)"
  shows "wlp (upap_rauthreq E A p i n s) (\<lambda>_. gate A)"
proof -
  have s: "eager s" using assms(1) by (rule gate_eager)
  have resp: "wlp (upap_sresp E c i [] s) (\<lambda>_. gate A)" for c
    using same_gate(1) [OF same_pap_client(2)] assms(1) by (rule tripleD)
  have answer: "wlp (steps [upap_sresp E c i m,
        if ok then steps [modu (\<lambda>u. u\<lparr>us_serverstate := UPAPSS_OPEN\<rparr>), auth_peer_success E A (UPAP (eh E))]
        else steps [modu (\<lambda>u. u\<lparr>us_serverstate := UPAPSS_BADAUTH\<rparr>), auth_peer_fail E]] t) (\<lambda>_. gate A)"
    if "gview t = gview s" for c m ok t
  proof -
    have ok: "wlp (auth_peer_success E A (UPAP (eh E)) (t\<lparr>upap := upap t\<lparr>us_serverstate := UPAPSS_OPEN\<rparr>\<rparr>)) (\<lambda>_. gate A)"
      if "gview t = gview s" for t
      using assms that by (intro wlp_auth_success) (auto simp: gate_view eager_iff admitted_accept)
    show ?thesis
      using s that by (auto simp: auth_peer_fail_def eager_iff intro!: same_wlp [OF same_pap_client(2)] wlp_die ok)
  qed
  show ?thesis
    using assms(1) s
    by (auto simp: upap_rauthreq_def simp del: steps.simps split: option.split
        intro!: resp same_wlp [OF same_check_passwd] answer)
qed

lemma gate_upap_input:
  assumes "gate A s" and "gv_state (gview s) = OPENED" and "UPAP (eh E) \<noteq> CHAP (eh E)"
  shows "wlp (upap_input E A p n s) (\<lambda>_. gate A)"
proof -
  have "wlp (upap_rauthack E A q m s) (\<lambda>_. gate A)" for q m
    using assms by (auto simp: upap_rauthack_def intro!: wlp_auth_success)
      (auto simp: gate_view eager_iff gview_kept)
  then show ?thesis
    using assms gate_rauthreq tripleD [OF same_gate(1) [OF same_pap_client(4)]]
    by (auto simp: upap_input_def split: option.split)
qed


lemma same_chap_send:
  "same (ChapSendChallenge E)" "same (ChapSendStatus E us b)" "same (ChapSendResponse E)" "same (ChapGenChallenge E)"
  by (auto simp: ChapSendChallenge_def ChapSendStatus_def ChapSendResponse_def ChapGenChallenge_def Let_def
      eager_iff gview_kept intro!: sameI same_wlp [OF same_device(1)] same_wlp [OF same_timeouts(1)])

lemmas wlp_chap_send = same_wlp [OF same_chap_send(1)] same_wlp [OF same_chap_send(2)]
  same_wlp [OF same_chap_send(3)] same_wlp [OF same_chap_send(4)]

lemma same_get_secret: "same (get_secret A h c v b)"
  by (auto simp: get_secret_def Let_def intro!: sameI split: option.split prod.split)

lemma same_chap_client:
  "same (ChapResponseTimeout E)" "same (ChapReceiveFailure E)" "same (ChapReceiveChallenge E A p i n)"
  by (auto simp: ChapResponseTimeout_def ChapReceiveFailure_def ChapReceiveChallenge_def auth_withpeer_fail_def
      eager_iff gview_kept split: option.split
      intro!: sameI wlp_chap_send same_wlp [OF same_timeouts(2)] same_wlp [OF same_get_secret])

lemma gate_chap_timers:
  "triple (gate A) (ChapChallengeTimeout E) (gate A)" "triple (gate A) (ChapRechallenge E) (gate A)"
  by (rule tripleI, auto simp: ChapChallengeTimeout_def ChapRechallenge_def auth_peer_fail_def gate_view eager_iff
      gview_kept admitted_accept intro!: wlp_chap_send wlp_die same_wlp [OF same_timeouts(1)])+

lemma gate_receive_success:
  assumes "gate A s" and "gv_state (gview s) = OPENED"
  shows "wlp (ChapReceiveSuccess E A s) (\<lambda>_. gate A)"
proof -
  have "wlp (auth_withpeer_success E A (CHAP (eh E)) (t\<lparr>chap := chap t\<lparr>clientstate := CHAPCS_OPEN\<rparr>\<rparr>)) (\<lambda>_. gate A)"
    if "gview t = gview s" for t
    using assms that by (intro wlp_auth_success) (auto simp: gate_view eager_iff gview_kept)
  then show ?thesis
    using assms(1) gate_eager [OF assms(1)]
    by (auto simp: ChapReceiveSuccess_def intro!: same_wlp [OF same_timeouts(2)])
qed

lemma wlp_chap_success:
  assumes "gate A s" and "gv_state (gview s) = OPENED" and "gv_cs (gview s) = CHAPSS_OPEN"
    and "\<And>t. gate A t \<Longrightarrow> Q t"
  shows "wlp (auth_peer_success E A (CHAP (eh E)) s) (\<lambda>_. Q)"
  using wlp_auth_success(2) [OF assms(1-3)] assms(4) by (auto elim: wlp_mono)

lemma gate_receive_response:
  assumes "gate A s" and "gv_state (gview s) = OPENED"
  shows "wlp (ChapReceiveResponse E A us p i n s) (\<lambda>_. gate A)"
proof -
  have s: "eager s" using assms(1) by (rule gate_eager)
  have g: "gate A t" if "gview t = gview s" for t
    using assms that by (simp add: gate_view eager_iff)
  have acc: "gate A (t\<lparr>chap := chap t\<lparr>serverstate := CHAPSS_OPEN\<rparr>\<rparr>)" if "gview t = gview s" for t
    using assms that by (simp add: gate_view eager_iff admitted_accept)
  have timer: "wlp (ppp_timeout E Chap_rechallenge k t) (\<lambda>_. gate A)" if "gate A t" for k t
    using tripleD [OF same_gate(1) [OF same_timeouts(1)] that] .
  have status: "wlp (ChapSendStatus E us b s) (\<lambda>_. gate A)" for b
    using s by (auto intro!: wlp_chap_send g)
  show ?thesis
    using s assms(2)
    by (auto simp: ChapReceiveResponse_def Let_def eager_iff auth_peer_fail_def split: option.split
        intro!: same_wlp [OF same_timeouts(2)] same_wlp [OF same_get_secret] wlp_chap_send wlp_chap_success
          wlp_die status g acc timer)
qed


lemma gate_ChapInput:
  assumes "gate A s" and "gv_state (gview s) = OPENED"
  shows "wlp (ChapInput E A us p n s) (\<lambda>_. gate A)"
  using assms gate_receive_response gate_receive_success
    tripleD [OF same_gate(1) [OF same_chap_client(2)]] tripleD [OF same_gate(1) [OF same_chap_client(3)]]
  by (auto simp: ChapInput_def split: option.split)

section \<open>Echoes\<close>

lemma same_echo_send: "same (lcp_send E c i d n)" "same (lcp_received_echo_reply h p)"
  by (auto simp: lcp_send_def lcp_received_echo_reply_def intro!: sameI same_wlp [OF same_device(1)])

lemma same_echo_request: "same (LcpSendEchoRequest E A)"
proof -
  have down: "wlp (LcpLinkFailure E A s) (\<lambda>_. eager)" if "eager s" for s
    using that by (auto simp: LcpLinkFailure_def fsm_lowerdown_def lcp0.state_of_view state_gview eager_iff lcp0.self
        intro!: lcp0.down)
  have fail: "wlp (LcpLinkFailure E A s) (\<lambda>_ t. wlp (die_fn E (t\<lparr>lcp_echos_pending := 0\<rparr>)) Q)"
    if "eager s" for s Q
    by (rule wlp_mono [OF down [OF that]]) (simp add: eager_iff wlp_die)
  show ?thesis
    by (auto simp: LcpSendEchoRequest_def Let_def eager_iff intro!: sameI same_wlp [OF same_echo_send(1)] fail)
qed


lemma same_echo: "same (LcpEchoCheck E A)" "same (LcpEchoTimeout E A)" "same (lcp_echo_lowerup E A)"
proof -
  show check: "same (LcpEchoCheck E A)"
    by (auto simp: LcpEchoCheck_def eager_iff intro!: sameI same_wlp [OF same_echo_request]
        same_wlp [OF same_timeouts(1)])
  show "same (LcpEchoTimeout E A)" "same (lcp_echo_lowerup E A)"
    by (auto simp: LcpEchoTimeout_def lcp_echo_lowerup_def eager_iff intro!: sameI same_wlp [OF check])
qed

end

section \<open>The link is established\<close>

text \<open>The view without the state of the authentication servers.\<close>

definition core :: "gate_view \<Rightarrow> gate_view" where
  "core v = v\<lparr>gv_us := UPAPSS_INITIAL, gv_cs := CHAPSS_INITIAL, gv_pending := 0\<rparr>"

definition samec :: "(ppp, 'a) act \<Rightarrow> bool" where
  "samec f \<longleftrightarrow> (\<forall>s. eager s \<longrightarrow> wlp (f s) (\<lambda>_ t. core (gview t) = core (gview s)))"

lemma core_simps [simp]:
  "core (v\<lparr>gv_us := u\<rparr>) = core v" "core (v\<lparr>gv_cs := c\<rparr>) = core v" "core (v\<lparr>gv_pending := n\<rparr>) = core v"
  by (simp_all add: core_def)

lemma core_fields:
  assumes "core v = core w"
  shows "gv_state v = gv_state w" "gv_phase v = gv_phase w" "gv_required v = gv_required w"
    "gv_name v = gv_name w" "gv_want_upap v = gv_want_upap w" "gv_chap v = gv_chap w" "gv_upap v = gv_upap w"
    "gv_passive v = gv_passive w" "gv_silent v = gv_silent w" "up_phase v = up_phase w"
  using assms by (cases v; cases w; simp add: core_def up_phase_def)+

lemma eager_core: "eager s \<longleftrightarrow> \<not> gv_passive (core (gview s)) \<and> \<not> gv_silent (core (gview s))"
  by (simp add: eager_iff core_def)

lemma samecI: "(\<And>s. eager s \<Longrightarrow> wlp (f s) (\<lambda>_ t. core (gview t) = core (gview s))) \<Longrightarrow> samec f"
  by (simp add: samec_def)

lemma samec_wlp: "samec f \<Longrightarrow> eager s \<Longrightarrow> (\<And>a t. core (gview t) = core (gview s) \<Longrightarrow> Q a t) \<Longrightarrow> wlp (f s) Q"
  unfolding samec_def wlp_def by blast

lemma samec_bnd: "samec f \<Longrightarrow> (\<And>a. samec (g a)) \<Longrightarrow> samec (bnd f g)"
  unfolding samec_def wlp_bnd unfolding wlp_def by (metis eager_core)

lemma samec_steps: "list_all samec fs \<Longrightarrow> samec (steps fs)"
  by (induction fs) (auto intro!: samec_bnd simp: samec_def [of skip])

lemma wlp_steps_last:
  assumes "eager s" and "fs \<noteq> []" and "list_all samec (butlast fs)"
    and "\<And>t. core (gview t) = core (gview s) \<Longrightarrow> wlp (last fs t) Q"
  shows "wlp (steps fs s) Q"
proof -
  have "wlp (steps (butlast fs @ [last fs]) s) Q"
    unfolding steps_append wlp_bnd
    by (rule samec_wlp [OF samec_steps [OF assms(3)] assms(1)])
      (simp, use assms(4) in \<open>simp add: wlp_def\<close>)
  then show ?thesis using assms(2) by simp
qed

lemma same_samec: "same f \<Longrightarrow> samec f"
  unfolding same_def samec_def wlp_def by metis

context strict
begin

lemma samec_chap:
  "samec (ChapLowerUp E)" "samec (ChapAuthPeer E nm d)" "samec (ChapAuthWithPeer nm d)"
  by (auto simp: ChapLowerUp_def ChapAuthPeer_def ChapAuthWithPeer_def start_challenge_def eager_core core_simps
      intro!: samecI samec_wlp [OF same_samec [OF same_chap_send(1)]] samec_wlp [OF same_samec [OF same_chap_send(4)]])

lemma samec_upap:
  "samec (upap_lowerup E)" "samec upap_authpeer" "samec (upap_authwithpeer E u w)"
  by (auto simp: upap_lowerup_def upap_authpeer_def upap_authwithpeer_def eager_core core_simps
      intro!: samecI samec_wlp [OF same_samec [OF same_pap_client(1)]])


lemma wlp_start_auth:
  assumes "eager s"
  shows "(\<And>t. core (gview t) = core (gview s) \<Longrightarrow>
      Q (if gv_chap (gview s) then CHAP_PEER else if gv_upap (gview s) then UPAP_PEER else 0) t) \<Longrightarrow>
      wlp (start_peer_auth E s) Q"
    and "(\<And>b t. core (gview t) = core (gview s) \<Longrightarrow> b = 0 \<or> b = CHAP_WITHPEER \<or> b = UPAP_WITHPEER \<Longrightarrow> Q b t) \<Longrightarrow>
      wlp (start_own_auth E s) Q"
  using assms by (auto simp: start_peer_auth_def start_own_auth_def finally_ret_def gview_kept
    intro!: samec_wlp [OF samec_chap(2)] samec_wlp [OF samec_chap(3)] samec_wlp [OF samec_upap(2)]
      samec_wlp [OF samec_upap(3)])

lemma or_pending:
  "b = 0 \<or> b = CHAP_WITHPEER \<or> b = UPAP_WITHPEER \<Longrightarrow> (CHAP_PEER OR b) AND CHAP_PEER \<noteq> 0"
  "b = 0 \<or> b = CHAP_WITHPEER \<or> b = UPAP_WITHPEER \<Longrightarrow> (UPAP_PEER OR b) AND UPAP_PEER \<noteq> 0"
  by (auto simp: CHAP_PEER_def UPAP_PEER_def CHAP_WITHPEER_def UPAP_WITHPEER_def)

lemma wlp_start:
  assumes s: "eager s" "gv_state (gview s) = OPENED" "gv_phase (gview s) = PHASE_AUTHENTICATE"
    and req: "gv_required (gview s) \<Longrightarrow>
      gv_chap (gview s) \<or> gv_upap (gview s) \<or> gv_want_upap (gview s) \<and> null_accepts A (gv_name (gview s))"
  shows "wlp (bnd (start_peer_auth E) (\<lambda>a. bnd (start_own_auth E) (\<lambda>b. steps
        [upd (\<lambda>s. s\<lparr>auth_pending := a OR b\<rparr>), if a OR b = 0 then network_phase E A else skip])) s) (\<lambda>_. gate A)"
proof -
  define a where "a = (if gv_chap (gview s) then CHAP_PEER else if gv_upap (gview s) then UPAP_PEER else 0)"
  have fin: "wlp (steps [upd (\<lambda>s. s\<lparr>auth_pending := a OR b\<rparr>), if a OR b = 0 then network_phase E A else skip] t)
      (\<lambda>_. gate A)"
    if t: "core (gview t) = core (gview s)" and b: "b = 0 \<or> b = CHAP_WITHPEER \<or> b = UPAP_WITHPEER" for b t
  proof -
    have "gv_chap (gview s) \<Longrightarrow> (a OR b) AND CHAP_PEER \<noteq> 0"
      "\<not> gv_chap (gview s) \<Longrightarrow> gv_upap (gview s) \<Longrightarrow> (a OR b) AND UPAP_PEER \<noteq> 0"
      using or_pending [OF b] by (simp_all add: a_def)
    then have adm: "admitted A ((gview t)\<lparr>gv_pending := a OR b\<rparr>)"
      using req s core_fields [OF t] by (auto simp: admitted_def)
    then have "gate A (t\<lparr>auth_pending := a OR b\<rparr>)"
      using s core_fields [OF t] by (simp add: gate_view eager_iff up_phase_def)
    moreover have "wlp (network_phase E A (t\<lparr>auth_pending := a OR b\<rparr>)) (\<lambda>_. gate A)" if "a OR b = 0"
      using s core_fields [OF t] admitted_network [OF adm] that
      by (intro wlp_network_phase) (simp_all add: gate_view eager_iff)
    ultimately show ?thesis by simp
  qed
  have own: "wlp (bnd (start_own_auth E) (\<lambda>b. steps
        [upd (\<lambda>s. s\<lparr>auth_pending := a OR b\<rparr>), if a OR b = 0 then network_phase E A else skip]) t) (\<lambda>_. gate A)"
    if t: "core (gview t) = core (gview s)" for t
  proof -
    have "eager t" using t s(1) by (simp add: eager_core)
    then show ?thesis
      unfolding wlp_bnd by (rule wlp_start_auth(2)) (rule fin, simp_all add: t)
  qed
  show ?thesis
    unfolding wlp_bnd by (rule wlp_start_auth(1) [OF s(1)]) (use own in \<open>simp only: wlp_bnd a_def\<close>)
qed

lemma wlp_null_login:
  "(\<And>b t. gview t = gview s \<Longrightarrow> b \<longrightarrow> null_accepts A (gv_name (gview s)) \<Longrightarrow> Q b t) \<Longrightarrow> wlp (null_login A s) Q"
  by (auto simp: wlp_def gview_kept dest!: null_login_view)

lemma wlp_link_established:
  assumes "idle OPENED s"
  shows "wlp (link_established E A s) (\<lambda>_. gate A)"
proof -
  let ?start = "bnd (start_peer_auth E) (\<lambda>a. bnd (start_own_auth E) (\<lambda>b. steps
        [upd (\<lambda>s. s\<lparr>auth_pending := a OR b\<rparr>), if a OR b = 0 then network_phase E A else skip]))"
  let ?ok = "\<lambda>v. gv_required v \<longrightarrow> gv_chap v \<or> gv_upap v \<or> gv_want_upap v \<and> null_accepts A (gv_name v)"
  have s: "eager s" "gv_state (gview s) = OPENED" using assms by (simp_all add: idle_view)
  have check: "wlp (if auth_required s \<and> \<not> (neg_chap (lcp_gotoptions s) \<or> neg_upap (lcp_gotoptions s))
        then bnd (if \<not> neg_upap (lcp_wantoptions s) then ret False else null_login A)
               (\<lambda>ok. if ok then skip else die_fn E) s
        else Ret () s) (\<lambda>_ t. gview t = gview s \<and> ?ok (gview s))"
    using s(1) by (auto simp: gview_kept eager_iff intro!: wlp_null_login wlp_die)
  have start: "wlp (?start (t\<lparr>ppp_phase := PHASE_AUTHENTICATE\<rparr>)) (\<lambda>_. gate A)"
    if "gview t = gview s \<and> ?ok (gview s)" for t
    using s that by (intro wlp_start) (auto simp: eager_iff)
  show ?thesis
    unfolding link_established_def
    by (simp only: steps.simps wlp_bnd [of _ _ s] upd_apply)
      (rule wlp_mono [OF check], use start in simp)
qed


lemma wlp_lcp_up:
  assumes "idle OPENED s"
  shows "wlp (lcp_up E A s) (\<lambda>_. gate A)"
proof -
  have est: "wlp (link_established E A t) (\<lambda>_. gate A)" if "core (gview t) = core (gview s)" for t
    using assms core_fields [OF that] by (intro wlp_link_established) (simp add: idle_view eager_iff)
  have config: "samec (\<lambda>s. let x = k s; y = l s in ppp_send_config E (f1 x y) (f2 x y) (f3 x y) (f4 x y) s)"
    "samec (\<lambda>s. let x = k s; y = l s in ppp_recv_config E (f1 x y) (f2 x y) (f3 x y) (f4 x y) s)"
    for k l :: "ppp \<Rightarrow> lcp_options" and f1 f2 f3 f4
    by (auto simp: Let_def intro!: samecI samec_wlp [OF same_samec [OF same_device(2)]]
        samec_wlp [OF same_samec [OF same_device(3)]])
  then have config1: "samec (\<lambda>s. let y = l s in ppp_recv_config E (f1 (k s) y) (f2 y) (f3 y) (f4 y) s)"
    for k l :: "ppp \<Rightarrow> lcp_options" and f1 f2 f3 f4
    by (simp add: Let_def)
  have opts: "samec (upd (\<lambda>s. if c s then s\<lparr>lcp_gotoptions := (lcp_gotoptions s)\<lparr>magicnumber := 0\<rparr>\<rparr> else s))"
    "samec (upd (\<lambda>s. if c s then s\<lparr>lcp_hisoptions := f s\<rparr> else s))"
    "samec (upd (\<lambda>s. if c s then s\<lparr>peer_mru := g s\<rparr> else s))" for c f g
    by (auto simp: samec_def gview_kept)
  show ?thesis
    unfolding lcp_up_def using assms
    by (intro wlp_steps_last) (auto simp: idle_def intro!: config config1 opts samec_chap samec_upap
        same_samec [OF same_ipcp(2)] same_samec [OF same_echo(3)] est)
qed

lemma gate_extcode: "triple (gate A) (lcp_extcode E A c i p n) (gate A)"
proof (rule tripleI)
  fix s
  assume s: "gate A s"
  have "wlp (lcp_rprotrej E A p n s) (\<lambda>_. gate A)"
    using s tripleD [OF gate_demuxprotrej] by (simp add: lcp_rprotrej_def)
  moreover have "wlp (lcp_send E c' i d m s) (\<lambda>_. gate A)" "wlp (lcp_received_echo_reply h p s) (\<lambda>_. gate A)" for c' d m h
    using tripleD [OF same_gate(1) [OF same_echo_send(1)] s] tripleD [OF same_gate(1) [OF same_echo_send(2)] s] by auto
  ultimately show "wlp (lcp_extcode E A c i p n s) (\<lambda>_. gate A)"
    using s by (simp add: lcp_extcode_def finally_ret_def)
qed

lemma gate_lcp_nakrej:
  assumes "gate A s"
  shows "wlp (lcp_nakci h r p n s) (\<lambda>_. gate A)" "wlp (lcp_rejci h p n s) (\<lambda>_. gate A)"
  using assms
  by (auto simp: lcp_nakci_def lcp_rejci_def Let_def gate_view eager_iff state_gview split: option.split bool.split)

end

sublocale strict < lcp: lcp_peer E A "lcp_callbacks E A" for A
proof
  show "same (check_ci (lcp_callbacks E A) p n)" for p n
    by (auto simp: check_ci_def lcp_reqci_def Let_def intro!: sameI)
  show "ackci (lcp_callbacks E A) = Some k \<Longrightarrow> same (k p n)" for k p n
    by (auto simp: same_def)
qed (auto simp: link_required_def lcp_callbacks_def lcp_callbacks1_def lcp_callbacks0_def
      intro!: wlp_lcp_resetci same_lcp_make_ci wlp_lcp_down wlp_lcp_finished same_skip same_call
        wlp_lcp_up gate_extcode gate_lcp_nakrej)


section \<open>The task\<close>

text \<open>None of the packets is a Terminate-Ack for LCP.\<close>

definition no_termack :: "hdr \<Rightarrow> (bytes \<times> int) list \<Rightarrow> bool" where
  "no_termack h rs \<longleftrightarrow> list_all (\<lambda>(buf, len). getshort h (rd buf 2) (rd buf 3) = LCP h \<longrightarrow>
     \<not> termack_packet h (drop 4 buf) (len - DLLHEADERLEN h)) rs"

definition clean_signal :: "hdr \<Rightarrow> signal \<Rightarrow> bool" where
  "clean_signal h e = (case e of SigIo rs \<Rightarrow> no_termack h rs | _ \<Rightarrow> True)"

context strict
begin

lemma close_eager:
  assumes "eager s"
  shows "wlp (lcp_close E A s) (\<lambda>_. eager)"
proof -
  have "lcp_close E A s = fsm_close E (lcp_callbacks E A) s"
    using assms by (simp add: lcp_close_def eager_def)
  then show ?thesis
    using assms by (auto simp: fsm_close_def eager_iff Let_def lcp.self intro!: lcp.wlp_lcp wlp_lcp_down
      split: fsm_st.split)
qed

lemma gate_run_timeout: "triple (gate A) (run_timeout E A c) (gate A)"
  by (cases c) (auto intro: lcp.gate_timeout same_gate same_ipcp same_pap_client gate_chap_timers
      same_chap_client same_echo split: proto.split)

lemma triple_all: "list_all (\<lambda>f. triple P f P) fs \<Longrightarrow> triple P (steps fs) P"
  by (induction fs) (auto simp del: steps.simps intro: triple_steps)

lemma gate_alrm: "gate A s \<Longrightarrow> wlp (alrm E A s) (\<lambda>_. gate A)"
proof -
  assume s: "gate A s"
  have "triple (gate A) (steps ([upd (\<lambda>s. s\<lparr>callout := rest\<rparr>),
          if rest \<noteq> [] then set_itimer E k else skip]
         @ map (\<lambda>c. run_timeout E A (c_func c)) due)) (gate A)" for rest k due
    by (rule triple_all) (auto simp: list_all_iff intro!: same_gate same_upd same_ifb same_device same_skip
        gate_run_timeout)
  note run = tripleD [OF this s]
  obtain due rest where due: "callout_due (callout s) = (due, rest)" by fastforce
  show ?thesis
    using s run [of rest "c_time (hd rest)" due] by (simp add: alrm_def due)
qed

lemma gate_io_loop:
  assumes "UPAP (eh E) \<noteq> CHAP (eh E)"
  shows "gate A s \<Longrightarrow> no_termack (eh E) rs \<Longrightarrow> wlp (io_loop E A us rs s) (\<lambda>_. gate A)"
proof (induction rs arbitrary: s)
  case Nil
  then show ?case by simp
next
  case (Cons r rs)
  obtain buf len where r: "r = (buf, len)" by (cases r)
  let ?pr = "getshort (eh E) (rd buf 2) (rd buf 3)" and ?p = "drop 4 buf" and ?n = "len - DLLHEADERLEN (eh E)"
  have rs: "no_termack (eh E) rs" and t: "?pr = LCP (eh E) \<Longrightarrow> \<not> termack_packet (eh E) ?p ?n"
    using Cons.prems(2) by (simp_all add: no_termack_def r)
  have inp: "wlp (f ?p ?n s) (\<lambda>_. gate A)"
    if "prottbl_input E A us ?pr = Some f" "?pr = LCP (eh E) \<or> gv_state (gview s) = OPENED" for f
    using that t Cons.prems(1) assms lcp.gate_input [of A s ?p ?n] gate_upap_input gate_ChapInput
      tripleD [OF same_gate(1) [OF same_ipcp(4)]]
    by (auto simp: prottbl_input_def lcp_input_def split: if_split_asm)
  have rej: "wlp (lcp_sprotrej E buf len (s\<lparr>unknownProto := unknownProto s + 1\<rparr>)) (\<lambda>_. gate A)"
    using Cons.prems(1) gate_eager [OF Cons.prems(1)]
    by (auto simp: lcp_sprotrej_def gate_view eager_iff gview_def intro!: same_wlp [OF same_echo_send(1)])
  have "wlp (bnd (f ?p ?n) (\<lambda>_. io_loop E A us rs) s) (\<lambda>_. gate A)"
    if "prottbl_input E A us ?pr = Some f" "?pr = LCP (eh E) \<or> gv_state (gview s) = OPENED" for f
    using wlp_mono [OF inp [OF that]] Cons.IH [OF _ rs] by simp
  moreover have "wlp (lcp_sprotrej E buf len (s\<lparr>unknownProto := unknownProto s + 1\<rparr>)) (\<lambda>_ t. wlp (io_loop E A us rs t) (\<lambda>_. gate A))"
    by (rule wlp_mono [OF rej]) (rule Cons.IH [OF _ rs])
  ultimately show ?case
    using Cons.prems(1) by (auto simp: r Let_def state_gview split: option.split)
qed


lemma gate_handler:
  assumes "UPAP (eh E) \<noteq> CHAP (eh E)" and "gate A s" and "clean_signal (eh E) e"
  shows "wlp (handler E A us e s) (\<lambda>_. gate A)"
proof (cases e)
  case (SigIo rs)
  have "wlp (adjtimeout E s) (\<lambda>_. gate A)"
    using same_gate(1) [OF same_timeouts(3)] assms(2) by (rule tripleD)
  then show ?thesis
    using assms(3) by (auto simp: SigIo io_def clean_signal_def elim!: wlp_mono intro!: gate_io_loop assms(1))
qed (use assms(2) gate_eager [OF assms(2)] in \<open>auto simp: hup_def intr_def term_sig_def eager_iff gview_def gate_alrm
    intro!: same_wlp [OF same_timeouts(3)] wlp_die\<close>)

lemma idle_start_link:
  assumes "idle INITIAL s" and "\<not> gv_shy (gview s)"
  shows "wlp (start_link E A s) (\<lambda>_ t. idle REQSENT t \<and> ppp_phase t = PHASE_ESTABLISH)"
proof -
  have up: "wlp (lcp_lowerup E A s) (\<lambda>_ t. gview t = (gview s)\<lparr>gv_state := CLOSED\<rparr>)"
    using assms by (auto simp: lcp_lowerup_def fsm_lowerup_def lcp.state_of_view lcp.self idle_view eager_iff gview_allow
      intro!: same_wlp [OF same_kernel(3)] same_wlp [OF same_kernel(10)] same_wlp [OF same_device(2)]
        same_wlp [OF same_device(3)])
  have op: "wlp (lcp_open E A t) (\<lambda>_. idle REQSENT)" if t: "gview t = (gview s)\<lparr>gv_state := CLOSED\<rparr>" for t
  proof -
    let ?u = "let wo = lcp_wantoptions t in t\<lparr>lcp_fsm := (lcp_fsm t)\<lparr>opt_passive := passive_mode wo,
        opt_silent := silent_mode wo, opt_restart := passive_mode wo \<or> silent_mode wo\<rparr>\<rparr>"
    have "idle CLOSED t" "\<not> gv_shy (gview t)" using assms t by (simp_all add: idle_view eager_iff)
    then have u: "eager ?u" "gv_state (gview ?u) = CLOSED" "\<not> up_phase (gview ?u)" "\<not> opt_silent (getf (lcp_callbacks E A) ?u)"
      by (simp_all add: Let_def idle_def eager_def gview_def up_phase_def getf_def)
    have "wlp (fsm_open E (lcp_callbacks E A) ?u) (\<lambda>_. idle REQSENT)"
      using u by (auto simp: fsm_open_def lcp.state_of_view lcp.self idle_view eager_iff intro!: lcp.wlp_lcp)
    then show ?thesis by (simp add: lcp_open_def)
  qed
  have op': "wlp (lcp_open E A t) (\<lambda>_ t. idle REQSENT (t\<lparr>ppp_phase := PHASE_ESTABLISH\<rparr>))"
    if "gview t = (gview s)\<lparr>gv_state := CLOSED\<rparr>" for t
    by (rule wlp_mono [OF op [OF that]]) (simp add: idle_view eager_iff)
  show ?thesis
    by (simp add: start_link_def) (rule wlp_mono [OF up], simp add: op')
qed

end


text \<open>A unit that is neither passive nor silent does not survive \<open>die\<close>.\<close>

lemma die_fuel_strict: "strict (task_env n E A)"
proof (induction n)
  case 0
  show ?case by unfold_locales (simp add: task_env_def)
next
  case (Suc n)
  have close: "eager s \<Longrightarrow> wlp (lcp_close (E\<lparr>die_fn := die_fuel n E A\<rparr>) A s) (\<lambda>_. eager)" for s
    using strict.close_eager [OF Suc] by (simp add: task_env_def)
  show ?case
    by unfold_locales (simp add: task_env_def, rule wlp_mono [OF close], simp_all add: eager_def)
qed

interpretation task: strict "task_env n E A" for n E A
  by (rule die_fuel_strict)


lemma eh_task_env [simp]: "eh (task_env n E A) = eh E"
  by (simp add: task_env_def)

lemma gate_handlers:
  assumes "UPAP (eh E) \<noteq> CHAP (eh E)"
  shows "gate A s \<Longrightarrow> list_all (clean_signal (eh E)) es \<Longrightarrow>
    wlp (steps (map (handler (task_env n E A) A us) es) s) (\<lambda>_. gate A)"
proof (induction es arbitrary: s)
  case (Cons e es)
  then show ?case
    using wlp_mono [OF task.gate_handler [where E = E and n = n and A = A]] assms by simp
qed simp

section \<open>Properties\<close>

text \<open>
  The task starts behind the gate: from a fresh unit that is neither passive nor silent,
  \<open>start_link\<close> ends, if it returns, with LCP negotiating and the link not established.
\<close>

theorem start_link_gate:
  assumes "fstate (lcp_fsm s) = INITIAL" and "ppp_phase s = PHASE_DEAD" and "eager s"
    and "\<not> passive_mode (lcp_wantoptions s)" and "\<not> silent_mode (lcp_wantoptions s)"
    and "start_link (task_env n E A) A s = Ret () t"
  shows "gate A t \<and> fstate (lcp_fsm t) = REQSENT \<and> ppp_phase t = PHASE_ESTABLISH"
proof -
  have "idle INITIAL s" "\<not> gv_shy (gview s)"
    using assms by (simp_all add: idle_def up_phase_def gview_def)
  from wlpD [OF task.idle_start_link [OF this] assms(6)] show ?thesis
    by (auto simp: idle_gate) (simp add: idle_def)
qed

theorem start_link_gate_witness:
  "\<exists>t. start_link (task_env 1 (sample_env skip) sample_auth) sample_auth ppp_calloc = Ret () t \<and>
     gate sample_auth t \<and> fstate (lcp_fsm t) = REQSENT"
proof -
  have "case start_link (task_env 1 (sample_env skip) sample_auth) sample_auth ppp_calloc of
      Ret u t \<Rightarrow> True | _ \<Rightarrow> False"
    by code_simp
  then obtain t where t: "start_link (task_env 1 (sample_env skip) sample_auth) sample_auth ppp_calloc = Ret () t"
    by (simp split: res.splits)
  then show ?thesis
    using start_link_gate [OF _ _ _ _ _ t] by (simp add: ppp_calloc_def fsm_zero_def lcp_zero_def eager_def)
qed

text \<open>
  C20. Authentication is a gate: however the device and the kernel answer, whatever packets
  (other than a Terminate-Ack for LCP) and signals arrive and whatever timers expire, the
  unit is in the network phase only while LCP is Opened and no authentication is pending;
  if the peer was to authenticate, it did: CHAP accepted it, or PAP did (a later
  Protocol-Reject for PAP resets its server), and if authentication is required but was not
  negotiated, the secrets accept an empty name and password.
\<close>

theorem authentication_gate:
  assumes "UPAP (eh E) \<noteq> CHAP (eh E)" and "gate A s" and "list_all (clean_signal (eh E)) es"
    and "steps (map (handler (task_env n E A) A us) es) s = Ret () t"
  shows "gate A t \<and> (ppp_phase t = PHASE_NETWORK \<longrightarrow>
      fstate (lcp_fsm t) = OPENED \<and> auth_pending t = 0 \<and>
      (neg_chap (lcp_gotoptions t) \<longrightarrow> serverstate (chap t) \<in> {CHAPSS_OPEN, CHAPSS_RECHALLENGE}) \<and>
      (\<not> neg_chap (lcp_gotoptions t) \<and> neg_upap (lcp_gotoptions t) \<longrightarrow>
         us_serverstate (upap t) \<in> {UPAPSS_OPEN, UPAPSS_INITIAL}) \<and>
      (auth_required t \<and> \<not> neg_chap (lcp_gotoptions t) \<and> \<not> neg_upap (lcp_gotoptions t) \<longrightarrow>
         neg_upap (lcp_wantoptions t) \<and> null_accepts A (our_name t)))"
proof -
  have "gate A t" by (rule wlpD [OF gate_handlers assms(4)]) (use assms in simp_all)
  then show ?thesis
    by (auto simp: gate_def admitted_def up_phase_def gview_def)
qed


text \<open>The PAP server waits; the request with the right secret takes the link to the network phase.\<close>

definition pap_wait :: ppp where
  "pap_wait = ppp_calloc\<lparr>lcp_fsm := fsm_zero\<lparr>fstate := OPENED\<rparr>, ppp_phase := PHASE_AUTHENTICATE,
     auth_pending := UPAP_PEER, auth_required := True, our_name := [0x62], peer_mru := 1500,
     lcp_gotoptions := lcp_zero\<lparr>neg_upap := True\<rparr>,
     upap := (upap ppp_calloc)\<lparr>us_serverstate := UPAPSS_LISTEN\<rparr>\<rparr>"

definition pap_signal :: signal where
  "pap_signal = SigIo [(sauthreq_frame std_hdr 7 [0x61] [0x73], 12)]"

theorem authentication_gate_witness:
  "\<exists>t. steps (map (handler (task_env 1 (sample_env skip) sample_auth) sample_auth []) [pap_signal]) pap_wait = Ret () t \<and>
     ppp_phase t = PHASE_NETWORK \<and> gate sample_auth t \<and> auth_pending t = 0"
proof -
  have "case steps (map (handler (task_env 1 (sample_env skip) sample_auth) sample_auth []) [pap_signal]) pap_wait of
      Ret u t \<Rightarrow> ppp_phase t = PHASE_NETWORK | _ \<Rightarrow> False"
    by code_simp
  then obtain t where t: "steps (map (handler (task_env 1 (sample_env skip) sample_auth) sample_auth []) [pap_signal])
      pap_wait = Ret () t" "ppp_phase t = PHASE_NETWORK"
    by (simp split: res.splits del: list.map steps.simps)
  have "gate sample_auth pap_wait"
    by (simp add: gate_def eager_def gview_def up_phase_def admitted_def pap_wait_def fsm_zero_def lcp_zero_def UPAP_PEER_def)
  moreover have "list_all (clean_signal (eh (sample_env skip))) [pap_signal]"
    by code_simp
  ultimately show ?thesis
    using authentication_gate [OF _ _ _ t(1)] t by (simp add: std_hdr_def)
qed





end
