(* ===== verification/Secrets_Spec.thy ===== *)
theory Secrets_Spec
  imports Auth_Secrets
begin

text \<open>
  What the secrets give: a secrets file is read line by line and the best matching line
  wins; the table of \<open>pppSecretLib.c\<close> returns matching entries only, finds what was added,
  and its flags may be stale (\<open>pppSecretFind_stale_flag\<close>).
\<close>

section \<open>Lines\<close>

text \<open>The words of a file by lines; the first word of the argument starts a line.\<close>

function word_lines :: "(bool \<times> bytes) list \<Rightarrow> bytes list list" where
  "word_lines [] = []"
| "word_lines ((nl, w) # ws) = (w # fst (addr_words ws)) # word_lines (snd (addr_words ws))"
  by pat_completeness auto
termination
  by (relation "measure length") (simp_all add: less_Suc_eq_le addr_words_length)

text \<open>How specific a client and a server word are.\<close>

definition match_flags :: "auth_env \<Rightarrow> bytes \<Rightarrow> bytes \<Rightarrow> int" where
  "match_flags A c v =
     (let g = (if \<not> ISWILD A c then NONWILD_CLIENT A else 0)
      in if \<not> ISWILD A v then g OR NONWILD_SERVER A else g)"

text \<open>What a line contributes: flags, secret and addresses, if it matches.\<close>

fun line_match :: "auth_env \<Rightarrow> bytes option \<Rightarrow> bytes option \<Rightarrow> bytes list \<Rightarrow> scan option" where
  "line_match A client server (c # v # x # as) =
     (if no_match A client c \<or> no_match A server v then None
      else map_option (\<lambda>sec. (match_flags A c v, sec, as)) (indirect A x))"
| "line_match A client server _ = None"

definition best_of :: "scan \<Rightarrow> scan list \<Rightarrow> scan" where
  "best_of r ms = foldl (\<lambda>r m. if fst m > fst r then m else r) r ms"

lemma scan_line_skips: "scan_line A c v ws r = scan_client A c v (snd (addr_words ws)) r"
  by (induction ws rule: addr_words.induct)
    (auto simp: scan_line.simps scan_client.simps Let_def split: prod.split)

lemma best_of_Cons: "best_of r (m # ms) = best_of (if fst m > fst r then m else r) ms"
  by (simp add: best_of_def)

lemma lines_step:
  "List.map_filter f (word_lines ((nl, w) # ws)) =
     (case f (w # fst (addr_words ws)) of None \<Rightarrow> [] | Some m \<Rightarrow> [m]) @
     List.map_filter f (word_lines (snd (addr_words ws)))"
  by (simp add: map_filter_simps split: option.split)

lemma scan_step:
  "scan_client A client server ((nl, w) # ws) r =
     scan_client A client server (snd (addr_words ws))
       (case line_match A client server (w # fst (addr_words ws)) of
          None \<Rightarrow> r | Some m \<Rightarrow> if fst m > fst r then m else r)"
proof (cases ws)
  case Nil
  then show ?thesis by (simp add: scan_client.simps scan_line.simps)
next
  case (Cons x ws1)
  obtain nl1 v where x: "x = (nl1, v)" by (cases x)
  show ?thesis
  proof (cases "no_match A client w \<or> nl1 \<or> no_match A server v \<or> match_flags A w v \<le> fst r")
    case True
    then show ?thesis
      using Cons x
      by (cases "fst (addr_words ws1)")
        (auto simp: scan_client.simps scan_line_skips match_flags_def Let_def
          split: prod.splits option.splits if_split_asm)
  next
    case False
    then show ?thesis
      using Cons x
      by (cases ws1)
        (auto simp: scan_client.simps scan_line_skips match_flags_def Let_def split: prod.splits option.splits)
  qed
qed

lemma scan_client_lines:
  "scan_client A client server ws r =
     best_of r (List.map_filter (line_match A client server) (word_lines ws))"
proof (induction ws arbitrary: r rule: word_lines.induct)
  case (2 nl w ws)
  then show ?case
    by (simp add: scan_step lines_step best_of_Cons del: word_lines.simps split: option.split)
qed (simp add: scan_client.simps best_of_def map_filter_simps)

lemma best_of_max:
  "best_of r ms = r \<and> (\<forall>m \<in> set ms. fst m \<le> fst r) \<or>
   best_of r ms \<in> set ms \<and> fst r < fst (best_of r ms) \<and> (\<forall>m \<in> set ms. fst m \<le> fst (best_of r ms))"
proof (induction ms arbitrary: r)
  case (Cons m ms)
  from Cons [of "if fst m > fst r then m else r"] show ?case by (auto simp: best_of_Cons)
qed (simp add: best_of_def)

text \<open>Two secrets: for client \<open>a\<close> with any server, and for any client with server \<open>b\<close>.\<close>

definition two_secrets :: auth_env where
  "two_secrets = \<lparr>NONWILD_CLIENT = 1, NONWILD_SERVER = 2, ISWILD = (\<lambda>w. w = [0x2a]), MAXWORDLEN = 1024,
     files = (\<lambda>_. None), pap_file = None, chap_file = None, login_verify = (\<lambda>_ _. False), crypt_rtn = None,
     inet_addr = (\<lambda>_. - 1), host_by_name = (\<lambda>_. 0),
     secrets = Some [\<lparr>se_client = [0x61], se_server = [0x2a], se_secret = [0x78], se_addrs = []\<rparr>,
       \<lparr>se_client = [0x2a], se_server = [0x62], se_secret = [0x79], se_addrs = []\<rparr>]\<rparr>"

lemma two_secrets_simps [simp]:
  "flags_ok two_secrets" "ISWILD two_secrets w = (w = [0x2a])"
  "secrets two_secrets = Some [\<lparr>se_client = [0x61], se_server = [0x2a], se_secret = [0x78], se_addrs = []\<rparr>,
     \<lparr>se_client = [0x2a], se_server = [0x62], se_secret = [0x79], se_addrs = []\<rparr>]"
  "NONWILD_CLIENT two_secrets = 1" "NONWILD_SERVER two_secrets = 2"
  by (simp_all add: two_secrets_def flags_ok_def)

text \<open>
  C36. A secrets file is searched line by line and the most specific line wins: the scan
  gives nothing when no line matches the client and the server, and otherwise the flags,
  secret and addresses of a matching line whose flags are not exceeded by any other.
\<close>

theorem scan_authfile_best:
  assumes "flags_ok A" and "ms = List.map_filter (line_match A client server) (word_lines ws)"
  shows "if ms = [] then scan_authfile A ws client server = (- 1, [], [])
    else scan_authfile A ws client server \<in> set ms \<and>
      (\<forall>m \<in> set ms. fst m \<le> fst (scan_authfile A ws client server))"
proof -
  have nonneg: "0 \<le> fst m" if "m \<in> set ms" for m
  proof -
    from that assms(2) obtain l where "line_match A client server l = Some m"
      by (auto simp: List.map_filter_def)
    then show ?thesis using assms(1)
      by (cases "(A, client, server, l)" rule: line_match.cases)
        (auto simp: match_flags_def flags_ok_def Let_def split: if_splits)
  qed
  have eq: "scan_authfile A ws client server = best_of (- 1, [], []) ms"
    by (simp add: scan_authfile_def scan_client_lines assms(2))
  show ?thesis
  proof (cases "ms = []")
    case False
    then obtain m where "m \<in> set ms" "\<not> fst m \<le> fst (- 1, [] :: bytes, [] :: bytes list)"
      using nonneg by (cases ms) fastforce+
    with best_of_max [of "(- 1, [], [])" ms] False show ?thesis unfolding eq by auto
  qed (simp add: eq best_of_def)
qed

theorem scan_authfile_best_witness:
  "scan_authfile two_secrets [(False, [0x61]), (False, [0x2a]), (False, [0x78])] (Some [0x61]) (Some [0x62]) =
     (1, [0x78], [])"
proof -
  have "List.map_filter (line_match two_secrets (Some [0x61]) (Some [0x62]))
      (word_lines [(False, [0x61]), (False, [0x2a]), (False, [0x78])]) = [(1, [0x78], [])]"
    by (simp add: map_filter_simps no_match_def match_flags_def indirect_def)
  with scan_authfile_best [OF two_secrets_simps(1) refl, of "Some [0x61]" "Some [0x62]"
      "[(False, [0x61]), (False, [0x2a]), (False, [0x78])]"]
  show ?thesis by simp
qed

section \<open>The table\<close>

lemma secret_scan_sel:
  "secret_scan A c v es got best sel = (b, Some e) \<Longrightarrow>
   sel = Some e \<or> e \<in> set es \<and> \<not> no_match A c (se_client e) \<and> \<not> no_match A v (se_server e)"
  by (induction A c v es got best sel rule: secret_scan.induct) (auto simp: Let_def split: if_splits)

text \<open>The values the flags can take while the table is scanned.\<close>

definition flag_values :: "auth_env \<Rightarrow> int set" where
  "flag_values A = {0, NONWILD_CLIENT A, NONWILD_SERVER A, NONWILD_CLIENT A OR NONWILD_SERVER A}"

lemma flag_values_le:
  assumes "flags_ok A" and "x \<in> flag_values A"
  shows "0 \<le> x" and "x \<le> NONWILD_CLIENT A OR NONWILD_SERVER A"
proof -
  have "NONWILD_CLIENT A OR NONWILD_SERVER A = NONWILD_CLIENT A + NONWILD_SERVER A"
    using assms(1) plus_and_or [of "NONWILD_CLIENT A" "NONWILD_SERVER A"] by (simp add: flags_ok_def)
  then show "0 \<le> x" "x \<le> NONWILD_CLIENT A OR NONWILD_SERVER A"
    using assms by (auto simp: flag_values_def flags_ok_def or.commute)
qed

lemma flag_values_step:
  assumes "got \<in> flag_values A"
  shows "(if \<not> ISWILD A v then (if \<not> ISWILD A c then NONWILD_CLIENT A else got) OR NONWILD_SERVER A
     else if \<not> ISWILD A c then NONWILD_CLIENT A else got) \<in> flag_values A"
  using assms by (auto simp: flag_values_def or.assoc or.left_commute or.commute)

lemma secret_scan_top:
  assumes "flags_ok A" and "got \<in> flag_values A"
  shows "secret_scan A c v es got (NONWILD_CLIENT A OR NONWILD_SERVER A) sel =
    (NONWILD_CLIENT A OR NONWILD_SERVER A, sel)"
  using assms(2)
proof (induction es arbitrary: got)
  case (Cons e es)
  note step = flag_values_step [OF Cons.prems, of "se_server e" "se_client e"]
  from flag_values_le(2) [OF assms(1) step] Cons.IH [OF step] Cons.IH [OF Cons.prems] show ?case
    by (auto simp: Let_def not_less)
qed simp

lemma secret_scan_keeps: "\<exists>y. snd (secret_scan A c v es got best (Some e)) = Some y"
  by (induction es arbitrary: got best e) (auto simp: Let_def)

lemma secret_scan_found:
  assumes "flags_ok A" and "e \<in> set es" and "\<not> no_match A c (se_client e)" and "\<not> no_match A v (se_server e)"
    and "got \<in> flag_values A"
  shows "\<exists>y. snd (secret_scan A c v es got (- 1) None) = Some y"
  using assms(2-5)
proof (induction es arbitrary: got)
  case (Cons x es)
  note step = flag_values_step [OF Cons.prems(4), of "se_server x" "se_client x"]
  from flag_values_le(1) [OF assms(1) step] Cons show ?case
    by (auto simp: Let_def secret_scan_keeps)
qed simp

text \<open>
  A lookup in the table without reading the secret succeeds exactly when some entry
  matches the client and the server; the secret and the addresses a lookup returns are those
  of a matching entry.
\<close>

theorem pppSecretFind_matches:
  assumes "flags_ok A" and "secrets A = Some es"
  shows "(pppSecretFind A c v False \<noteq> None \<longleftrightarrow>
      (\<exists>e \<in> set es. \<not> no_match A c (se_client e) \<and> \<not> no_match A v (se_server e))) \<and>
    (\<forall>f sec as. pppSecretFind A c v True = Some (f, sec, as) \<longrightarrow>
      (\<exists>e \<in> set es. \<not> no_match A c (se_client e) \<and> \<not> no_match A v (se_server e) \<and>
         indirect A (se_secret e) = Some sec \<and> as = blank_words [] (se_addrs e)))"
proof -
  obtain b sel where scan: "secret_scan A c v es 0 (- 1) None = (b, sel)" by force
  have "0 \<in> flag_values A" by (simp add: flag_values_def)
  from secret_scan_found [OF assms(1) _ _ _ this, of _ es c v] secret_scan_sel [of A c v es 0 "- 1" None b] scan
  show ?thesis
    by (cases sel) (auto simp: pppSecretFind_def assms(2) split: option.splits)
qed

theorem pppSecretFind_matches_witness:
  "pppSecretFind two_secrets (Some [0x63]) (Some [0x64]) False = None \<and>
   pppSecretFind two_secrets (Some [0x61]) (Some [0x64]) False \<noteq> None"
  using pppSecretFind_matches [OF two_secrets_simps(1,3), of "Some [0x63]" "Some [0x64]"]
    pppSecretFind_matches [OF two_secrets_simps(1,3), of "Some [0x61]" "Some [0x64]"]
  by (auto simp: no_match_def simp del: not_None_eq)

text \<open>
  C37. What was added is found: after \<open>pppSecretAdd\<close> of an entry for a client and a server
  given by name, with a literal secret, the lookup of these names gives this secret and the
  addresses, whatever else is in the table; deleting the entry restores the table.
\<close>

theorem pppSecretAdd_Find_Delete:
  assumes "flags_ok A" and "pppSecretAdd e (Some es) = Some t"
    and "\<not> ISWILD A (se_client e)" and "\<not> ISWILD A (se_server e)" and "se_secret e = [] \<or> hd (se_secret e) \<noteq> 0x40"
  shows "pppSecretFind (A\<lparr>secrets := t\<rparr>) (Some (se_client e)) (Some (se_server e)) True =
      Some (NONWILD_CLIENT A OR NONWILD_SERVER A, se_secret e, blank_words [] (se_addrs e)) \<and>
    pppSecretDelete (se_client e) (se_server e) (se_secret e) t = Some (Some es)"
proof -
  let ?A = "A\<lparr>secrets := t\<rparr>" and ?top = "NONWILD_CLIENT A OR NONWILD_SERVER A"
  have t: "t = Some (e # es)" using assms(2) by (simp add: pppSecretAdd_def)
  have ok: "flags_ok ?A" using assms(1) by (simp add: flags_ok_def)
  have top: "?top \<in> flag_values ?A" by (simp add: flag_values_def)
  have "- 1 < ?top" using flag_values_le(1) [OF ok top] by linarith
  then have "secret_scan ?A (Some (se_client e)) (Some (se_server e)) (e # es) 0 (- 1) None = (?top, Some e)"
    using secret_scan_top [OF ok top, of "Some (se_client e)" "Some (se_server e)" es "Some e"] assms(3,4)
    by (simp add: no_match_def Let_def)
  then show ?thesis
    using assms(5) by (auto simp: pppSecretFind_def pppSecretDelete_def t indirect_def)
qed

theorem pppSecretAdd_Find_Delete_witness:
  "pppSecretFind (two_secrets\<lparr>secrets := Some (\<lparr>se_client = [0x61], se_server = [0x62], se_secret = [0x7a],
       se_addrs = [0x31, 0x20, 0x32]\<rparr> # the (secrets two_secrets))\<rparr>) (Some [0x61]) (Some [0x62]) True =
     Some (3, [0x7a], [[0x31], [0x32]])"
  using pppSecretAdd_Find_Delete [OF two_secrets_simps(1), of "\<lparr>se_client = [0x61], se_server = [0x62],
      se_secret = [0x7a], se_addrs = [0x31, 0x20, 0x32]\<rparr>" "the (secrets two_secrets)"]
  by (simp add: pppSecretAdd_def)

text \<open>
  The flag of an entry for a named client stays set for the entries after it: with an
  entry for client \<open>a\<close> and any server before one for any client and server \<open>b\<close>, the lookup for
  \<open>a\<close> and \<open>b\<close> gives the second entry with the flag that says its client is not a wildcard. The
  same two lines in a secrets file give it without that flag.
\<close>

theorem pppSecretFind_stale_flag:
  "pppSecretFind two_secrets (Some [0x61]) (Some [0x62]) True = Some (3, [0x79], []) \<and>
   scan_authfile two_secrets [(False, [0x61]), (False, [0x2a]), (False, [0x78]),
       (True, [0x2a]), (False, [0x62]), (False, [0x79])] (Some [0x61]) (Some [0x62]) = (2, [0x79], [])"
  by code_simp

section \<open>Words\<close>

definition plain_char :: "u8 \<Rightarrow> bool" where
  "plain_char c \<longleftrightarrow> \<not> isspace c \<and> c \<notin> {0, 0x22, 0x23, 0x5c}"

lemma word_chars_plain:
  "list_all plain_char w \<Longrightarrow> isspace c \<Longrightarrow> word_chars False False acc (w @ c # f) = (acc @ w, c # f)"
proof (induction w arbitrary: acc)
  case Nil
  then show ?case by (auto simp: isspace_def)
next
  case (Cons x w)
  then show ?case by (auto simp: plain_char_def)
qed

lemma skip_space_blank:
  "list_all (\<lambda>c. isspace c \<and> c \<noteq> 0x0a) b \<Longrightarrow> plain_char x \<Longrightarrow> skip_space nl False (b @ x # f) = Some (nl, [], x # f)"
proof (induction b)
  case Nil
  then show ?case by (auto simp: plain_char_def isspace_def)
next
  case (Cons c b)
  then show ?case by (auto simp: isspace_def)
qed

text \<open>
  A word of plain characters is read back as it stands, whatever blanks come before it
  and whatever follows the white space that ends it, and no newline is reported.
\<close>

theorem getword_plain:
  assumes "list_all (\<lambda>c. isspace c \<and> c \<noteq> 0x0a) b" and "w \<noteq> []" and "list_all plain_char w"
    and "isspace c" and "length w < maxlen"
  shows "getword maxlen (b @ w @ c # f) = Some (w, False, c # f)"
proof -
  obtain x w' where w: "w = x # w'" using assms(2) by (cases w) auto
  have "takeWhile (\<lambda>c. c \<noteq> 0) w = w"
    using assms(3) by (auto simp: takeWhile_eq_all_conv list_all_iff plain_char_def)
  then show ?thesis
    using assms skip_space_blank [of b x False "w' @ c # f"] word_chars_plain [of w c "[]" f]
    by (simp add: getword_def cstr_def w)
qed

theorem getword_plain_witness:
  "getword 8 [0x20, 0x09, 0x61, 0x62, 0x0a, 0x63] = Some ([0x61, 0x62], False, [0x0a, 0x63])"
  using getword_plain [of "[0x20, 0x09]" "[0x61, 0x62]" "0x0a" 8 "[0x63]"]
  by (simp add: isspace_def plain_char_def)

end
