(* ===== verification/Auth_Spec.thy ===== *)
theory Auth_Spec
  imports Samples Secrets_Spec
begin

text \<open>
  What authentication guarantees: packets are understood as they were sent, the server side
  of PAP and CHAP lets the peer pass exactly when the secret fits, and the network phase
  does not begin before every authentication that was negotiated is done.
\<close>

section \<open>Packets\<close>

text \<open>A packet as it is put together after the link header, with padding behind it.\<close>

lemma parse_packet:
  assumes "codec_ok h" and "4 + length data < 2 ^ 16"
  shows "parse_header h 4 ([code, ident] @ putshort h (word_of_int (4 + int (length data))) @ data @ pad)
      (int (4 + length data + length pad)) = Some (code, ident, data @ pad, int (length data))"
proof -
  define w :: u16 where "w = word_of_int (4 + int (length data))"
  have "\<exists>a b. putshort h w = [a, b] \<and> getshort h a b = w"
    using assms(1) unfolding codec_ok_def by blast
  then obtain a b where ab: "putshort h w = [a, b]" "getshort h a b = w" by blast
  have w: "uint w = 4 + int (length data)"
    using assms(2) unfolding w_def uint_word_of_int by (intro mod_pos_pos_trivial) simp_all
  have "[code, ident] @ putshort h w @ data @ pad = code # ident # a # b # data @ pad"
    "rd (code # ident # a # b # data @ pad) 2 = a" "rd (code # ident # a # b # data @ pad) 3 = b"
    by (simp_all add: ab rd_def)
  then show ?thesis
    unfolding w_def [symmetric] by (simp add: parse_header_def ab w)
qed

lemma octet_length:
  "length xs < 256 \<Longrightarrow> unat (word_of_nat (length xs) :: u8) = length xs"
  "length xs < 256 \<Longrightarrow> uint (word_of_nat (length xs) :: u8) = int (length xs)"
  by (simp_all add: unat_of_nat uint_nat)

text \<open>What \<open>upap_input\<close> finds in the request: the two strings with their length octets.\<close>

lemma pap_request_parsed:
  fixes usr pw :: bytes
  assumes "codec_ok h" and "length usr < 256" and "length pw < 256"
  defines "data \<equiv> word_of_int (int (length usr)) # usr @ word_of_int (int (length pw)) # pw"
  shows "parse_header h (UPAP_HEADERLEN h) (drop 4 (sauthreq_frame h ident usr pw))
      (int (length (sauthreq_frame h ident usr pw)) - 4) = Some (UPAP_AUTHREQ h, ident, data, int (length data))"
    "parse_authreq data (int (length data)) = Some (usr, pw)"
proof -
  have "parse_header h 4 ([UPAP_AUTHREQ h, ident] @ putshort h (word_of_int (4 + int (length data))) @ data @ [])
      (int (4 + length data + length ([] :: bytes))) = Some (UPAP_AUTHREQ h, ident, data @ [], int (length data))"
    using assms by (intro parse_packet) simp_all
  then show "parse_header h (UPAP_HEADERLEN h) (drop 4 (sauthreq_frame h ident usr pw))
      (int (length (sauthreq_frame h ident usr pw)) - 4) = Some (UPAP_AUTHREQ h, ident, data, int (length data))"
    using assms(1) by (auto simp: sauthreq_frame_def data_def algebra_simps)
  show "parse_authreq data (int (length data)) = Some (usr, pw)"
    by (simp add: data_def parse_authreq_def octet_length assms Let_def)
qed

text \<open>
  A PAP request is understood: the packet \<open>upap_sauthreq\<close> sends is accepted by the checks
  of \<open>upap_input\<close>, and \<open>upap_rauthreq\<close> takes from it the name and the password that were put in.
\<close>

theorem pap_request_roundtrip:
  assumes "codec_ok h" and "length usr < 256" and "length pw < 256"
  shows "\<exists>inp len. parse_header h (UPAP_HEADERLEN h) (drop 4 (sauthreq_frame h ident usr pw))
      (int (length (sauthreq_frame h ident usr pw)) - 4) = Some (UPAP_AUTHREQ h, ident, inp, len) \<and>
    parse_authreq inp len = Some (usr, pw)"
  using pap_request_parsed [OF assms] by blast

theorem pap_request_roundtrip_witness:
  "\<exists>inp len. parse_header std_hdr (UPAP_HEADERLEN std_hdr) (drop 4 (sauthreq_frame std_hdr 7 [0x61] [0x62, 0x63]))
      (int (length (sauthreq_frame std_hdr 7 [0x61] [0x62, 0x63])) - 4) =
        Some (UPAP_AUTHREQ std_hdr, 7, inp, len) \<and>
    parse_authreq inp len = Some ([0x61], [0x62, 0x63])"
  using pap_request_roundtrip [of std_hdr "[0x61]" "[0x62, 0x63]" 7] std_ok by simp


lemma res_unit: "(case r of Ret a t \<Rightarrow> skip t | Exit t \<Rightarrow> Exit t | Stuck \<Rightarrow> Stuck) = r"
  by (simp split: res.split)

section \<open>PAP\<close>

lemma pap_client_asks:
  "\<exists>t. upap_sauthreq (ok_env h r v d) s = Ret () t \<and> us_clientstate (upap t) = UPAPCS_AUTHREQ \<and>
     WRITE (sauthreq_frame h (us_id (upap s) + 1) (us_user (upap s)) (us_passwd (upap s))) \<in> set (trace t)"
  by (simp add: upap_sauthreq_def okw.output_frame_ok okw.ppp_timeout_ok Let_def itimer_trace_def bnd_def)

text \<open>
  C23. The PAP exchange: the request a client sends, delivered to a server that listens, is answered
  with an Authenticate-Ack and opens the server exactly when the name and the password are accepted
  (by the secrets table, the secrets file or the login table); otherwise the answer is an
  Authenticate-Nak, the server remembers the bad authentication and the connection is ended.
\<close>

theorem pap_handshake:
  assumes "codec_ok h" and "length usr < 256" "length pw < 256"
    and client: "us_user (upap c) = usr" "us_passwd (upap c) = pw"
    and server: "us_serverstate (upap s) = UPAPSS_LISTEN"
  shows "\<exists>c' F s'. let E = ok_env h r2 v2 d2; ident = us_id (upap c) + 1;
        good = (passwd_lookup A (uselogin s) (our_name s) (cstr usr) (cstr pw) \<noteq> None)
      in upap_sauthreq (ok_env h r1 v1 d1) c = Ret () c' \<and> us_clientstate (upap c') = UPAPCS_AUTHREQ \<and>
         WRITE F \<in> set (trace c') \<and>
         us_serverstate (upap s') = (if good then UPAPSS_OPEN else UPAPSS_BADAUTH) \<and>
         trace s' = WRITE (sresp_frame h (if good then UPAP_AUTHACK h else UPAP_AUTHNAK h) ident
           (if good then login_ok_msg else login_incorrect_msg)) # trace s \<and>
         upap_input E A (drop 4 F) (int (length F) - 4) s =
           (if good then auth_peer_success E A (UPAP h) s' else d2 s')"
proof -
  let ?id = "us_id (upap c) + 1" and ?F = "sauthreq_frame h (us_id (upap c) + 1) usr pw"
  obtain c' where c: "upap_sauthreq (ok_env h r1 v1 d1) c = Ret () c'" "us_clientstate (upap c') = UPAPCS_AUTHREQ"
      "WRITE ?F \<in> set (trace c')"
    using pap_client_asks client by metis
  obtain inp len where p: "parse_header h (UPAP_HEADERLEN h) (drop 4 ?F) (int (length ?F) - 4) =
      Some (UPAP_AUTHREQ h, ?id, inp, len)" "parse_authreq inp len = Some (usr, pw)"
    using pap_request_parsed [OF assms(1-3)] by blast
  note input = upap_input_def p upap_rauthreq_def check_passwd_def upap_sresp_def okw.output_frame_ok
    less_upap_ss_def upap_ss_rank_def auth_peer_fail_def bnd_def res_unit
  let ?s = "\<lambda>s st code msg. s\<lparr>trace := WRITE (sresp_frame h code ?id msg) # trace s, upap := (upap s)\<lparr>us_serverstate := st\<rparr>\<rparr>"
  show ?thesis
  proof (cases "passwd_lookup A (uselogin s) (our_name s) (cstr usr) (cstr pw)")
    case None
    with c server show ?thesis
      by - (rule exI [of _ c'], rule exI [of _ ?F], rule exI [of _ "?s s UPAPSS_BADAUTH (UPAP_AUTHNAK h) login_incorrect_msg"], simp add: input Let_def)
  next
    case (Some addrs)
    with c server show ?thesis
      by - (rule exI [of _ c'], rule exI [of _ ?F], rule exI [of _ "?s (s\<lparr>addresses := addrs\<rparr>) UPAPSS_OPEN (UPAP_AUTHACK h) login_ok_msg"], simp add: input Let_def)
  qed
qed

definition pap_client :: ppp where
  "pap_client = ppp_calloc\<lparr>upap := (upap ppp_calloc)\<lparr>us_user := [0x61], us_passwd := [0x73], us_id := 6\<rparr>\<rparr>"

definition pap_server :: ppp where
  "pap_server = ppp_calloc\<lparr>our_name := [0x62], upap := (upap ppp_calloc)\<lparr>us_serverstate := UPAPSS_LISTEN\<rparr>\<rparr>"

theorem pap_handshake_witness:
  "\<exists>c' F s'. upap_sauthreq (sample_env skip) pap_client = Ret () c' \<and> WRITE F \<in> set (trace c') \<and>
     us_serverstate (upap s') = UPAPSS_OPEN \<and>
     upap_input (sample_env skip) sample_auth (drop 4 F) (int (length F) - 4) pap_server =
       auth_peer_success (sample_env skip) sample_auth (UPAP std_hdr) s'"
proof -
  have good: "passwd_lookup sample_auth (uselogin pap_server) (our_name pap_server) (cstr [0x61]) (cstr [0x73]) \<noteq> None"
    by code_simp
  have sides: "length [0x61 :: u8] < 256" "length [0x73 :: u8] < 256" "us_user (upap pap_client) = [0x61]"
    "us_passwd (upap pap_client) = [0x73]" "us_serverstate (upap pap_server) = UPAPSS_LISTEN"
    by (simp_all add: pap_client_def pap_server_def)
  show ?thesis
    using pap_handshake [where ?r1.0 = "\<lambda>_. 0" and ?v1.0 = "\<lambda>_ _. 0" and ?d1.0 = skip and ?r2.0 = "\<lambda>_. 0"
        and ?v2.0 = "\<lambda>_ _. 0" and ?d2.0 = skip and A = sample_auth, OF std_codec_ok sides]
    unfolding Let_def if_P [OF good] by blast
qed

section \<open>CHAP\<close>

text \<open>A value with its length octet and a name are understood as they were sent.\<close>

lemma parse_value_frame:
  assumes "length val < 256" and "length name < 256" and "0 \<notin> set name" and "val \<noteq> []"
  shows "parse_value (word_of_int (int (length val)) # val @ name) (1 + int (length val) + int (length name)) =
    Some (val, name)"
proof -
  have "1 \<le> int (length val)" using assms(4) by (cases val) simp_all
  moreover have "takeWhile (\<lambda>c. c \<noteq> 0) name = name"
    using assms(3) by (auto simp: takeWhile_eq_all_conv)
  ultimately show ?thesis
    using assms(1,2) by (simp add: parse_value_def octet_length Let_def cstr_def)
qed

lemma chap_frame_parsed:
  assumes "codec_ok h" and "length val < 256" and "length name < 256" and "0 \<notin> set name" and "val \<noteq> []"
  shows "\<exists>inp len. parse_header h (CHAP_HEADERLEN h) (drop 4 (chap_frame h code ident val name))
      (int (length (chap_frame h code ident val name)) - 4) = Some (code, ident, inp, len) \<and>
    parse_value inp len = Some (val, name)"
proof -
  let ?data = "word_of_int (int (length val)) # val @ name"
  have "parse_header h 4 ([code, ident] @ putshort h (word_of_int (4 + int (length ?data))) @ ?data @ [])
      (int (4 + length ?data + length ([] :: bytes))) = Some (code, ident, ?data @ [], int (length ?data))"
    using assms by (intro parse_packet) simp_all
  moreover have "parse_value ?data (int (length ?data)) = Some (val, name)"
    using parse_value_frame [OF assms(2-5)] by (simp add: algebra_simps)
  ultimately show ?thesis
    using assms(1) by (auto simp: chap_frame_def algebra_simps)
qed

text \<open>The secret \<open>get_secret\<close> finds; the state only remembers the addresses that go with it.\<close>

definition chap_secret :: "auth_env \<Rightarrow> hdr \<Rightarrow> bytes \<Rightarrow> bytes \<Rightarrow> bytes option" where
  "chap_secret A h client server =
     (case get_secret A h client server False ppp_calloc of Ret v _ \<Rightarrow> v | _ \<Rightarrow> None)"

definition chap_addrs :: "auth_env \<Rightarrow> hdr \<Rightarrow> bytes \<Rightarrow> bytes \<Rightarrow> bytes list \<Rightarrow> bytes list" where
  "chap_addrs A h client server old =
     (case get_secret A h client server True (ppp_calloc\<lparr>addresses := old\<rparr>) of Ret _ t \<Rightarrow> addresses t | _ \<Rightarrow> [])"

lemma get_secret_eq:
  "get_secret A h client server save s = Ret (chap_secret A h client server)
     (if save then s\<lparr>addresses := chap_addrs A h client server (addresses s)\<rparr> else s)"
  by (cases "pppSecretFind A (Some client) (Some server) True"; cases "opened A (chap_file A)")
    (simp_all add: get_secret_def chap_secret_def chap_addrs_def Let_def split: prod.split)


text \<open>What both sides compute from a secret.\<close>

definition chap_answer :: "auth_env \<Rightarrow> hdr \<Rightarrow> u8 \<Rightarrow> bytes \<Rightarrow> bytes \<Rightarrow> bytes \<Rightarrow> bytes" where
  "chap_answer A h ident client server chal =
     chap_digest h ident (case chap_secret A h client server of None \<Rightarrow> [] | Some sec \<Rightarrow> sec) chal"

lemma chap_client_answers:
  assumes "codec_ok h" and "codes_ok h" and "length chal < 256" "chal \<noteq> []" and "length srv < 256" "0 \<notin> set srv"
    and "clientstate (chap s) = CHAPCS_LISTEN" and "resp_type (chap s) = CHAP_DIGEST_MD5 h"
  shows "\<exists>t. ChapInput (ok_env h r v d) A us (drop 4 (chap_frame h (CHAP_CHALLENGE h) ident chal srv))
        (int (length (chap_frame h (CHAP_CHALLENGE h) ident chal srv)) - 4) s = Ret () t \<and>
      clientstate (chap t) = CHAPCS_RESPONSE \<and>
      WRITE (chap_frame h (CHAP_RESPONSE h) ident (chap_answer A h ident (resp_name (chap s)) srv chal)
        (resp_name (chap s))) \<in> set (trace t)"
proof -
  obtain inp len where p: "parse_header h (CHAP_HEADERLEN h) (drop 4 (chap_frame h (CHAP_CHALLENGE h) ident chal srv))
      (int (length (chap_frame h (CHAP_CHALLENGE h) ident chal srv)) - 4) = Some (CHAP_CHALLENGE h, ident, inp, len)"
    and v: "parse_value inp len = Some (chal, srv)"
    using chap_frame_parsed [OF assms(1,3,5,6,4)] by blast
  show ?thesis
    using assms(7,8)
    by (simp add: ChapInput_def p ChapReceiveChallenge_def v get_secret_eq bnd_def ChapSendResponse_def
        okw.output_frame_ok okw.ppp_timeout_ok Let_def chap_answer_def itimer_trace_def)
qed

lemma chap_server_decides:
  fixes r :: "nat \<Rightarrow> u32" and v :: "iocall list \<Rightarrow> iocall \<Rightarrow> u32" and d :: "(ppp, unit) act" and A :: auth_env
  assumes "codec_ok h" and "codes_ok h" and "length val < 256" "val \<noteq> []" and "length nm < 256" "0 \<notin> set nm"
    and "serverstate (chap s) = CHAPSS_INITIAL_CHAL" and "chal_id (chap s) = ident"
  defines "E \<equiv> ok_env h r v d"
    and "good \<equiv> response_ok h (chap s) (chap_secret A h nm (chal_name (chap s))) val"
  shows "\<exists>s'. serverstate (chap s') = (if good then CHAPSS_OPEN else CHAPSS_BADAUTH) \<and>
      WRITE (status_frame h (if good then CHAP_SUCCESS h else CHAP_FAILURE h) ident (chap_msg good us)) \<in> set (trace s') \<and>
      auth_pending s' = auth_pending s \<and>
      ChapInput E A us (drop 4 (chap_frame h (CHAP_RESPONSE h) ident val nm))
        (int (length (chap_frame h (CHAP_RESPONSE h) ident val nm)) - 4) s =
      (if good then steps [auth_peer_success E A (CHAP h), \<lambda>s. if chal_interval (chap s) \<noteq> 0
           then ppp_timeout E Chap_rechallenge (chal_interval (chap s)) s else Ret () s] s'
       else d s')"
proof -
  obtain inp len where p: "parse_header h (CHAP_HEADERLEN h) (drop 4 (chap_frame h (CHAP_RESPONSE h) ident val nm))
      (int (length (chap_frame h (CHAP_RESPONSE h) ident val nm)) - 4) = Some (CHAP_RESPONSE h, ident, inp, len)"
    and v: "parse_value inp len = Some (val, nm)"
    using chap_frame_parsed [OF assms(1,3,5,6,4)] by blast
  obtain b n where u: "ppp_untimeout E Chap_challenge_timeout s =
      Ret () (s\<lparr>callout := callout_unlink Chap_challenge_timeout (callout s),
        schedtime := itimer_sched E b n s, trace := itimer_trace b n s\<rparr>)"
    unfolding E_def using okw.ppp_untimeout_ok by blast
  have c: "CHAP_RESPONSE h \<noteq> CHAP_CHALLENGE h" using assms(2) by (auto simp: codes_ok_def)
  have E: "eh E = h" "output_frame E q t = Ret () (t\<lparr>trace := WRITE q # trace t\<rparr>)" "die_fn E = d" for q t
    by (simp_all add: E_def okw.output_frame_ok)
  let ?s = "s\<lparr>callout := callout_unlink Chap_challenge_timeout (callout s), schedtime := itimer_sched E b n s,
      addresses := chap_addrs A h nm (chal_name (chap s)) (addresses s),
      trace := WRITE (status_frame h (if good then CHAP_SUCCESS h else CHAP_FAILURE h) ident (chap_msg good us)) #
        itimer_trace b n s,
      chap := (chap s)\<lparr>serverstate := if good then CHAPSS_OPEN else CHAPSS_BADAUTH\<rparr>\<rparr>"
  have "ChapInput E A us (drop 4 (chap_frame h (CHAP_RESPONSE h) ident val nm))
        (int (length (chap_frame h (CHAP_RESPONSE h) ident val nm)) - 4) s =
      (if good then steps [auth_peer_success E A (CHAP h), \<lambda>s. if chal_interval (chap s) \<noteq> 0
           then ppp_timeout E Chap_rechallenge (chal_interval (chap s)) s else Ret () s] ?s
       else d ?s)"
    using assms(7,8) c
    by (simp add: ChapInput_def E p ChapReceiveResponse_def v u get_secret_eq good_def
        ChapSendStatus_def auth_peer_fail_def Let_def bnd_def res_unit)
  then show ?thesis by (intro exI [of _ ?s]) simp
qed


text \<open>
  C21. The CHAP handshake: a client that listens answers our challenge, and its answer, sent back
  to the server that is waiting for it, is accepted (the server is open, reports success and clears
  its pending authentication) exactly when the server has a secret for the pair of names that
  gives the same MD5 digest as the client's; otherwise the server reports failure and ends the
  connection. In particular a client with the same secret passes.
\<close>

theorem chap_handshake:
  assumes hdr: "codec_ok h" "codes_ok h"
    and "length srv < 256" "0 \<notin> set srv" "length nm < 256" "0 \<notin> set nm" "length chal < 256" "chal \<noteq> []"
    and client: "clientstate (chap c) = CHAPCS_LISTEN" "resp_type (chap c) = CHAP_DIGEST_MD5 h" "resp_name (chap c) = nm"
    and server: "serverstate (chap s) = CHAPSS_INITIAL_CHAL" "chal_type (chap s) = CHAP_DIGEST_MD5 h"
      "chal_id (chap s) = ident" "challenge (chap s) = chal" "chal_name (chap s) = srv"
    and size: "MD5_SIGNATURE_SIZE h = 16"
  shows "\<exists>c' F s'. let challenge_frame = chap_frame h (CHAP_CHALLENGE h) ident chal srv;
        good = (\<exists>sec. chap_secret A2 h nm srv = Some sec \<and> chap_digest h ident sec chal = chap_answer A1 h ident nm srv chal)
      in ChapInput (ok_env h r1 v1 d1) A1 us1 (drop 4 challenge_frame) (int (length challenge_frame) - 4) c = Ret () c' \<and>
         WRITE F \<in> set (trace c') \<and>
         serverstate (chap s') = (if good then CHAPSS_OPEN else CHAPSS_BADAUTH) \<and>
         WRITE (status_frame h (if good then CHAP_SUCCESS h else CHAP_FAILURE h) ident (chap_msg good us2)) \<in> set (trace s') \<and>
         ChapInput (ok_env h r2 v2 d2) A2 us2 (drop 4 F) (int (length F) - 4) s =
           (if good then steps [auth_peer_success (ok_env h r2 v2 d2) A2 (CHAP h), \<lambda>s. if chal_interval (chap s) \<noteq> 0
                then ppp_timeout (ok_env h r2 v2 d2) Chap_rechallenge (chal_interval (chap s)) s else Ret () s] s'
            else d2 s')"
proof -
  let ?ans = "chap_answer A1 h ident nm srv chal"
  let ?F = "chap_frame h (CHAP_RESPONSE h) ident ?ans nm"
  have len: "length ?ans = MD5_SIGNATURE_SIZE h" by (simp add: chap_answer_def chap_digest_def length_digest size)
  have ans: "?ans \<noteq> []" "length ?ans < 256" using len size by auto
  obtain c' where c: "ChapInput (ok_env h r1 v1 d1) A1 us1 (drop 4 (chap_frame h (CHAP_CHALLENGE h) ident chal srv))
      (int (length (chap_frame h (CHAP_CHALLENGE h) ident chal srv)) - 4) c = Ret () c'" "WRITE ?F \<in> set (trace c')"
    using chap_client_answers [OF hdr assms(7,8,3,4) client(1,2)] client(3) by blast
  have good: "response_ok h (chap s) (chap_secret A2 h nm (chal_name (chap s))) ?ans \<longleftrightarrow>
      (\<exists>sec. chap_secret A2 h nm srv = Some sec \<and> chap_digest h ident sec chal = ?ans)"
    using server len by (auto simp: response_ok_def split: option.split)
  show ?thesis
    using chap_server_decides [where A = A2 and r = r2 and v = v2 and d = d2 and us = us2,
        OF hdr ans(2,1) assms(5,6) server(1,3)] c
    unfolding good Let_def by blast
qed


definition sample_client :: ppp where
  "sample_client = ppp_calloc\<lparr>chap := (chap ppp_calloc)\<lparr>clientstate := CHAPCS_LISTEN,
     resp_type := CHAP_DIGEST_MD5 std_hdr, resp_name := [0x61]\<rparr>\<rparr>"

definition sample_server :: ppp where
  "sample_server = ppp_calloc\<lparr>chap := (chap ppp_calloc)\<lparr>serverstate := CHAPSS_INITIAL_CHAL,
     chal_type := CHAP_DIGEST_MD5 std_hdr, chal_id := 7, challenge := [1, 2], chal_name := [0x62]\<rparr>\<rparr>"

theorem chap_handshake_witness:
  "\<exists>c' F s'. ChapInput (sample_env skip) sample_auth [] (drop 4 (chap_frame std_hdr (CHAP_CHALLENGE std_hdr) 7 [1, 2] [0x62]))
       (int (length (chap_frame std_hdr (CHAP_CHALLENGE std_hdr) 7 [1, 2] [0x62])) - 4) sample_client = Ret () c' \<and>
     WRITE F \<in> set (trace c') \<and> serverstate (chap s') = CHAPSS_OPEN \<and>
     ChapInput (sample_env skip) sample_auth [] (drop 4 F) (int (length F) - 4) sample_server =
     steps [auth_peer_success (sample_env skip) sample_auth (CHAP std_hdr), \<lambda>s. if chal_interval (chap s) \<noteq> 0
        then ppp_timeout (sample_env skip) Chap_rechallenge (chal_interval (chap s)) s else Ret () s] s'"
proof -
  have "chap_secret sample_auth std_hdr [0x61] [0x62] = Some [0x73]" by code_simp
  then have good: "\<exists>sec. chap_secret sample_auth std_hdr [0x61] [0x62] = Some sec \<and>
      chap_digest std_hdr 7 sec [1, 2] = chap_answer sample_auth std_hdr 7 [0x61] [0x62] [1, 2]"
    by (simp add: chap_answer_def)
  have size: "MD5_SIGNATURE_SIZE std_hdr = 16" by (simp add: std_hdr_def)
  have codes: "codes_ok std_hdr" by (simp add: codes_ok_def std_hdr_def)
  have sides: "length [0x62 :: u8] < 256" "0 \<notin> set [0x62 :: u8]" "length [0x61 :: u8] < 256" "0 \<notin> set [0x61 :: u8]"
    "length [1 :: u8, 2] < 256" "[1 :: u8, 2] \<noteq> []"
    "clientstate (chap sample_client) = CHAPCS_LISTEN" "resp_type (chap sample_client) = CHAP_DIGEST_MD5 std_hdr"
    "resp_name (chap sample_client) = [0x61]"
    "serverstate (chap sample_server) = CHAPSS_INITIAL_CHAL" "chal_type (chap sample_server) = CHAP_DIGEST_MD5 std_hdr"
    "chal_id (chap sample_server) = 7" "challenge (chap sample_server) = [1, 2]" "chal_name (chap sample_server) = [0x62]"
    by (simp_all add: sample_client_def sample_server_def)
  show ?thesis
    using chap_handshake [where ?r1.0 = "\<lambda>_. 0" and ?v1.0 = "\<lambda>_ _. 0" and ?d1.0 = skip and ?us1.0 = "[]"
        and ?r2.0 = "\<lambda>_. 0" and ?v2.0 = "\<lambda>_ _. 0" and ?d2.0 = skip and ?us2.0 = "[]" and ?A1.0 = sample_auth and ?A2.0 = sample_auth,
        OF std_codec_ok codes sides size]
    unfolding Let_def if_P [OF good] by blast
qed

end
