(* ===== verification/Daemon_Spec.thy ===== *)
theory Daemon_Spec
  imports Samples
begin

text \<open>
  What the task does at its edges: a device on which every write fails, and packets that arrive
  while LCP is not Opened.
\<close>

section \<open>A dead device\<close>

text \<open>\<open>nx\<close>: the action does not end the task; if it returns, \<open>Q\<close> holds.\<close>

definition nx :: "('a, 's) res \<Rightarrow> ('a \<Rightarrow> 's \<Rightarrow> bool) \<Rightarrow> bool" where
  "nx r Q = (case r of Ret a t \<Rightarrow> Q a t | Exit t \<Rightarrow> False | Stuck \<Rightarrow> True)"

definition opn :: "ppp \<Rightarrow> bool" where
  "opn s \<longleftrightarrow> fstate (lcp_fsm s) = OPENED"

definition holds :: "(ppp, 'a) act \<Rightarrow> bool" where
  "holds f \<longleftrightarrow> (\<forall>s. opn s \<longrightarrow> nx (f s) (\<lambda>_. opn))"

lemma nx_simps [simp]: "nx (Ret a s) Q = Q a s" "nx (Exit s) Q = False" "nx Stuck Q"
  by (simp_all add: nx_def)

lemma nx_bnd [simp]: "nx (bnd f g s) Q = nx (f s) (\<lambda>a t. nx (g a t) Q)"
  by (simp add: nx_def bnd_def split: res.split)

lemma nx_mono: "nx r Q \<Longrightarrow> (\<And>a t. Q a t \<Longrightarrow> Q' a t) \<Longrightarrow> nx r Q'"
  by (simp add: nx_def split: res.splits)

lemma nx_holds: "holds f \<Longrightarrow> opn s \<Longrightarrow> (\<And>a t. opn t \<Longrightarrow> Q a t) \<Longrightarrow> nx (f s) Q"
  unfolding holds_def by (blast intro: nx_mono)

lemma holdsI: "(\<And>s. opn s \<Longrightarrow> nx (f s) (\<lambda>_. opn)) \<Longrightarrow> holds f"
  by (simp add: holds_def)

lemma opn_upd [simp]:
  "opn (s\<lparr>trace := tr\<rparr>) = opn s" "opn (s\<lparr>callout := cs\<rparr>) = opn s" "opn (s\<lparr>schedtime := n\<rparr>) = opn s"
  "opn (s\<lparr>chap := c\<rparr>) = opn s" "opn (s\<lparr>upap := u\<rparr>) = opn s" "opn (s\<lparr>lcp_echo_timer_running := b\<rparr>) = opn s"
  "opn (s\<lparr>peer_mru := i\<rparr>) = opn s" "opn (s\<lparr>ppp_phase := p\<rparr>) = opn s"
  "opn (fsm_upd IpcpF g s) = opn s"
  by (simp_all add: opn_def)

lemma holds_bnd: "holds f \<Longrightarrow> (\<And>a. holds (g a)) \<Longrightarrow> holds (bnd f g)"
  by (rule holdsI) (auto intro!: nx_holds [of f] nx_holds [where f = "g a" for a])

lemma holds_basic: "holds skip" "holds (ret a)" "holds (ext E c)" "holds f \<Longrightarrow> holds g \<Longrightarrow> holds (if b then f else g)"
  by (simp_all add: holds_def ext_def)

lemma holds_try_ext: "(\<And>x. holds (k x)) \<Longrightarrow> holds (try_ext E c k)"
  unfolding try_ext_def by (intro holds_bnd holds_basic)

lemma holds_kernel:
  "holds (sifdown E)" "holds (cifaddr E u v)" "holds (cifdefaultroute E u)" "holds (cifproxyarp E u)"
  unfolding sifdown_def cifaddr_def cifdefaultroute_def cifproxyarp_def
  by (intro holds_bnd holds_basic holds_try_ext)+

text \<open>An environment in which \<open>die\<close>, called while LCP is Opened, does not come back.\<close>

locale lost = fixes E :: env
  assumes die_lost: "opn s \<Longrightarrow> die_fn E s = Stuck"
begin

lemma holds_die: "holds (die_fn E)"
  by (simp add: holds_def die_lost)

lemma holds_config: "holds (ppp_send_config E n m b c)" "holds (ppp_recv_config E n m b c)" "holds (set_itimer E n)"
  unfolding ppp_send_config_def ppp_recv_config_def set_itimer_def change_flags_or_die_def ioctl_or_die_def steps.simps
  by (intro holds_bnd holds_basic holds_die | simp add: holds_def)+

lemma holds_untimeout: "holds (ppp_untimeout E f)"
  by (rule holdsI) (auto simp: ppp_untimeout_def Let_def intro!: nx_holds [OF holds_config(3)])

lemma holds_lower:
  "holds (ChapLowerDown E)" "holds (upap_lowerdown E)" "holds (lcp_echo_lowerdown E)" "holds (ipcp_lowerdown E A)"
proof -
  show "holds (ChapLowerDown E)" "holds (upap_lowerdown E)" "holds (lcp_echo_lowerdown E)"
    by (rule holdsI, auto simp: ChapLowerDown_def upap_lowerdown_def lcp_echo_lowerdown_def
        intro!: nx_holds [OF holds_untimeout])+
  have "holds (ipcp_down E)"
    by (rule holdsI) (auto simp: ipcp_down_def Let_def intro!: nx_holds [OF holds_kernel(1)]
        nx_holds [OF holds_kernel(2)] nx_holds [OF holds_kernel(3)] nx_holds [OF holds_kernel(4)])
  then show "holds (ipcp_lowerdown E A)"
    by (intro holdsI) (auto simp: ipcp_lowerdown_def fsm_lowerdown_def UNTIMEOUT_FSM_def set_state_def modf_def
        simp del: fsm_upd.simps intro!: nx_holds [OF holds_untimeout] nx_holds [of "ipcp_down E"] split: fsm_st.split)
qed

lemma holds_lcp_down: "holds (lcp_down E A)"
  by (rule holdsI) (auto simp: lcp_down_def link_down_def intro!: nx_holds [OF holds_lower(1)] nx_holds [OF holds_lower(2)]
      nx_holds [OF holds_lower(3)] nx_holds [OF holds_lower(4)] nx_holds [OF holds_kernel(1)]
      nx_holds [OF holds_config(1)] nx_holds [OF holds_config(2)])

end

lemma bnd_stuck: "f s = Stuck \<Longrightarrow> bnd f g s = Stuck"
  by (simp add: bnd_def)

lemma holds_stuck:
  assumes "holds f" "opn s" "\<And>a t. opn t \<Longrightarrow> g a t = Stuck"
  shows "bnd f g s = Stuck"
proof -
  have "nx (f s) (\<lambda>a t. g a t = Stuck)"
    by (rule nx_holds [OF assms(1,2)]) (rule assms(3))
  then show ?thesis
    by (simp add: nx_def bnd_def split: res.splits)
qed

text \<open>A device on which every write fails.\<close>

definition dead_device :: "env \<Rightarrow> bool" where
  "dead_device E \<longleftrightarrow> (\<forall>tr p. fst (world E tr (WRITE p)) \<noteq> 0)"

context lost
begin

lemma lost_output: "dead_device E \<Longrightarrow> opn s \<Longrightarrow> output_frame E p s = Stuck"
  by (simp add: output_frame_def dead_device_def die_lost)

lemma lost_close:
  assumes "dead_device E" "opn s"
  shows "lcp_close E A s = Stuck"
proof -
  let ?C = "lcp_callbacks E A"
  have t: "send_termreq E ?C s = Stuck" if "opn s" for s
    using that assms(1)
    by (simp add: send_termreq_def modf_def fsm_sdata_def bnd_def upd_def lost_output opn_def)
  have d: "call (down ?C) = lcp_down E A"
    by (simp add: lcp_callbacks_def lcp_callbacks1_def lcp_callbacks0_def call_def fun_eq_iff)
  have "steps (call (down ?C) # [modf ?C k, send_termreq E ?C, z]) s = Stuck" if k: "\<And>f. fstate (k f) = fstate f" for k z
    unfolding steps.simps d
    by (rule holds_stuck [OF holds_lcp_down assms(2)]) (auto simp: modf_def opn_def k bnd_def t [unfolded opn_def])
  then show ?thesis
    using assms(2) by (simp add: lcp_close_def opn_def fsm_close_def Let_def state_of_def getf_def del: steps.simps)
qed

end

lemma lost_task: "dead_device E \<Longrightarrow> lost (task_env n E A)"
proof (induction n)
  case 0
  show ?case
    by unfold_locales (simp add: task_env_def)
next
  case (Suc n)
  then have l: "lost (task_env n E A)" and d: "dead_device (task_env n E A)"
    by (simp_all add: task_env_def dead_device_def)
  show ?case
    by unfold_locales (simp add: task_env_def [of "Suc n"] bnd_stuck [OF lost.lost_close [OF l d, unfolded task_env_def]])
qed

text \<open>Every call of the environment fails.\<close>

definition dead_env :: "hdr \<Rightarrow> (nat \<Rightarrow> u32) \<Rightarrow> (ppp, unit) act \<Rightarrow> env" where
  "dead_env h r d = \<lparr>eh = h, rand = r, world = (\<lambda>tr c. (-1, 0)), die_fn = d\<rparr>"

lemma dead_dead_env: "dead_device (dead_env h r d)"
  by (simp add: dead_device_def dead_env_def)

interpretation dead: lost "task_env n (dead_env h r d) A" for n h r d A
  by (rule lost_task) (rule dead_dead_env)

text \<open>
  C39. On a device where every write fails, \<open>die\<close> called while LCP is Opened does not come back: at
  every depth of nesting the Terminate-Request is sent before the state changes, so that its failure
  calls \<open>die\<close> again in the same state.
\<close>

theorem dead_device_recursion:
  assumes "dead_device E" "fstate (lcp_fsm s) = OPENED"
  shows "die_fuel n E A s = Stuck"
  using lost.die_lost [OF lost_task [OF assms(1)], of s n A] assms(2) by (simp add: opn_def task_env_def)

theorem dead_device_recursion_witness:
  "\<forall>n. die_fuel n (dead_env std_hdr (\<lambda>_. 0) skip) sample_auth (lcp_at OPENED 5) = Stuck"
  using dead_device_recursion [OF dead_dead_env, of "lcp_at OPENED 5"] by (simp add: lcp_at_def fsm_zero_def)

section \<open>A refused authentication on a passive unit\<close>

text \<open>
  A passive unit that requires CHAP; the peer has rejected the option, so nothing is left to
  negotiate, and LCP waits for the acknowledgement of request 7.
\<close>

definition refused :: ppp where
  "refused = ppp_calloc\<lparr>lcp_fsm := fsm_zero\<lparr>fstate := ACKSENT, timeouttime := 3, retransmits := 5, reqid := 7,
       maxconfreqtransmits := 10, maxtermtransmits := 2, opt_passive := True, opt_restart := True\<rparr>,
     ppp_phase := PHASE_ESTABLISH, auth_required := True, peer_mru := 1500,
     lcp_wantoptions := lcp_zero\<lparr>neg_chap := True, passive_mode := True\<rparr>, lcp_gotoptions := lcp_zero\<rparr>"

definition ack_of_nothing :: signal where
  "ack_of_nothing = SigIo [(sdata_frame std_hdr (LCP std_hdr) (CONFACK std_hdr) 7 [] 0, 8)]"

text \<open>
  \<open>die\<close> comes back on a passive unit, so \<open>link_established\<close> goes on after a peer refused to
  authenticate: it has LCP send its Terminate-Request and then enters the network phase, with nothing
  pending and IPCP opened, although authentication was required and none took place.
\<close>

theorem refusal_enters_network:
  "case handler (task_env 1 (sample_env skip) sample_auth) sample_auth [] ack_of_nothing refused of
     Ret u t \<Rightarrow> ppp_phase t = PHASE_NETWORK \<and> auth_required t \<and> auth_pending t = 0 \<and>
       fstate (lcp_fsm t) = CLOSING \<and> fstate (ipcp_fsm t) = STARTING
   | _ \<Rightarrow> False"
  by code_simp

end
