(* ===== verification/Sl_Compress.thy ===== *)
theory Sl_Compress
  imports Ppp_Header
begin

text \<open>
  \<open>sl_compress.c\<close>: compression of TCP/IP headers (RFC 1144). Headers are byte lists, fields are
  read and written at their offsets; a field in network order is read with \<open>gs\<close> or \<open>gl\<close>
  (\<open>ntohs\<close>, \<open>ntohl\<close>). The macros \<open>ENCODE\<close>, \<open>ENCODEZ\<close>, \<open>DECODEL\<close>, \<open>DECODES\<close>, \<open>DECODEU\<close> and the masks
  are in \<open>sl_compress.h\<close>, which is not in the repository: they are the record \<open>vj_hdr\<close>, with
  their documented laws in \<open>vj_ok\<close>. The statistics are left out.
\<close>

section \<open>The header file\<close>

text \<open>
  The decoding macros get the packet from the position of \<open>cp\<close> on and the field; they give the
  new value and by how much \<open>cp\<close> is advanced. \<open>lds\<close> and \<open>sts\<close> are an access to an \<open>u_short\<close>
  in the byte order of the machine.
\<close>

record vj_hdr =
  MAX_STATES :: nat
  MAX_HDR :: nat
  NEW_C :: u8
  NEW_I :: u8
  TCP_PUSH_BIT :: u8
  NEW_S :: u8
  NEW_A :: u8
  NEW_W :: u8
  NEW_U :: u8
  SPECIAL_I :: u8
  SPECIAL_D :: u8
  SPECIALS_MASK :: u8
  ENCODE :: "u32 \<Rightarrow> bytes"
  ENCODEZ :: "u32 \<Rightarrow> bytes"
  DECODEL :: "bytes \<Rightarrow> u32 \<Rightarrow> u32 \<times> nat"
  DECODES :: "bytes \<Rightarrow> u16 \<Rightarrow> u16 \<times> nat"
  DECODEU :: "bytes \<Rightarrow> u16 \<times> nat"
  TH_FIN :: u8
  TH_SYN :: u8
  TH_RST :: u8
  TH_PUSH :: u8
  TH_ACK :: u8
  TH_URG :: u8
  IPPROTO_TCP :: u8
  lds :: "u8 \<Rightarrow> u8 \<Rightarrow> u16"
  sts :: "u16 \<Rightarrow> bytes"

text \<open>The assignments of RFC 793, RFC 1144, and what an encoded difference decodes to.\<close>

definition vj_masks :: "vj_hdr \<Rightarrow> bool" where
  "vj_masks V \<longleftrightarrow>
     NEW_C V = 0x40 \<and> NEW_I V = 0x20 \<and> TCP_PUSH_BIT V = 0x10 \<and> NEW_S V = 8 \<and> NEW_A V = 4 \<and> NEW_W V = 2 \<and> NEW_U V = 1 \<and>
     SPECIAL_I V = 0xb \<and> SPECIAL_D V = 0xf \<and> SPECIALS_MASK V = 0xf \<and>
     TH_FIN V = 1 \<and> TH_SYN V = 2 \<and> TH_RST V = 4 \<and> TH_PUSH V = 8 \<and> TH_ACK V = 16 \<and> TH_URG V = 32 \<and> IPPROTO_TCP V = 6"

definition vj_codec :: "vj_hdr \<Rightarrow> bool" where
  "vj_codec V \<longleftrightarrow>
     (\<forall>n. length (ENCODE V n) \<le> 3 \<and> length (ENCODEZ V n) \<le> 3) \<and>
     (\<forall>n r f. 0 < n \<and> n \<le> 0xffff \<longrightarrow> DECODEL V (ENCODE V n @ r) f = (f + n, length (ENCODE V n))) \<and>
     (\<forall>n r f. 0 < n \<and> n \<le> 0xffff \<longrightarrow> DECODES V (ENCODE V n @ r) f = (f + ucast n, length (ENCODE V n))) \<and>
     (\<forall>n r f. DECODES V (ENCODEZ V n @ r) f = (f + ucast n, length (ENCODEZ V n))) \<and>
     (\<forall>n r. DECODEU V (ENCODEZ V n @ r) = (ucast n, length (ENCODEZ V n))) \<and>
     (\<forall>w. length (sts V w) = 2)"

definition vj_ok :: "vj_hdr \<Rightarrow> bool" where
  "vj_ok V \<longleftrightarrow> vj_masks V \<and> vj_codec V \<and> 0 < MAX_STATES V \<and> MAX_STATES V \<le> 255 \<and> 120 \<le> MAX_HDR V"

section \<open>Headers as bytes\<close>

definition gs :: "bytes \<Rightarrow> nat \<Rightarrow> u16" where
  "gs b i = be_getshort (rd b i) (rd b (i + 1))"

definition gl :: "bytes \<Rightarrow> nat \<Rightarrow> u32" where
  "gl b i = be_getlong (rd b i) (rd b (i + 1)) (rd b (i + 2)) (rd b (i + 3))"

text \<open>\<open>ip_hl\<close> and \<open>th_off\<close> count words of four bytes.\<close>

definition ip_hl :: "bytes \<Rightarrow> nat" where
  "ip_hl b = unat (rd b 0 AND 0xf)"

definition th_off :: "bytes \<Rightarrow> nat \<Rightarrow> nat" where
  "th_off b i = unat (drop_bit 4 (rd b (i + 12)))"

abbreviation (input) "off_len \<equiv> 2 :: nat"
abbreviation (input) "off_id \<equiv> 4 :: nat"
abbreviation (input) "off_off \<equiv> 6 :: nat"
abbreviation (input) "off_p \<equiv> 9 :: nat"
abbreviation (input) "off_sum \<equiv> 10 :: nat"
abbreviation (input) "off_src \<equiv> 12 :: nat"
abbreviation (input) "off_dst \<equiv> 16 :: nat"

section \<open>The state\<close>

record cstate =
  cs_next :: nat
  cs_hlen :: nat
  cs_id :: u8
  cs_hdr :: bytes

text \<open>
  Pointers into \<open>tstate\<close> are indices. Of the flags of a \<open>slcompress\<close> only \<open>SLF_TOSS\<close> is used.
\<close>

record slcompress =
  last_cs :: nat
  last_recv :: u8
  last_xmit :: u8
  toss :: bool
  tstate :: "cstate list"
  rstate :: "cstate list"

definition cstate_zero :: "vj_hdr \<Rightarrow> cstate" where
  "cstate_zero V = \<lparr>cs_next = 0, cs_hlen = 0, cs_id = 0, cs_hdr = replicate (MAX_HDR V) 0\<rparr>"

definition sl_compress_init :: "vj_hdr \<Rightarrow> slcompress" where
  "sl_compress_init V = \<lparr>last_cs = 0, last_recv = 255, last_xmit = 255, toss = True,
     tstate = map (\<lambda>i. (cstate_zero V)\<lparr>cs_id := word_of_nat i, cs_next := (if i = 0 then MAX_STATES V - 1 else i - 1)\<rparr>)
       [0..<MAX_STATES V],
     rstate = replicate (MAX_STATES V) (cstate_zero V)\<rparr>"

section \<open>Compression\<close>

text \<open>The connection of a packet is that of a saved header.\<close>

definition same_conn :: "bytes \<Rightarrow> bytes \<Rightarrow> bool" where
  "same_conn ip h \<longleftrightarrow> gl ip off_src = gl h off_src \<and> gl ip off_dst = gl h off_dst \<and>
     gl ip (4 * ip_hl ip) = gl h (4 * ip_hl h)"

text \<open>
  The search from the second state on: the state before it, the state, and whether it is one
  of the connection. The first argument bounds the number of rounds of the loop.
\<close>

primrec search :: "nat \<Rightarrow> cstate list \<Rightarrow> nat \<Rightarrow> bytes \<Rightarrow> nat \<Rightarrow> (nat \<times> nat \<times> bool) option" where
  "search 0 ts lastcs ip cs = None"
| "search (Suc k) ts lastcs ip cs =
     (let lcs = cs; cs1 = cs_next (ts ! cs) in
      if same_conn ip (cs_hdr (ts ! cs1)) then Some (lcs, cs1, True)
      else if cs1 = lastcs then Some (lcs, cs1, False)
      else search k ts lastcs ip cs1)"

definition set_next :: "nat \<Rightarrow> nat \<Rightarrow> slcompress \<Rightarrow> slcompress" where
  "set_next i n sl = sl\<lparr>tstate := (tstate sl)[i := (tstate sl ! i)\<lparr>cs_next := n\<rparr>]\<rparr>"

text \<open>Find the state of the connection, or take the oldest one; move it to the front of the list.\<close>

definition locate :: "bytes \<Rightarrow> slcompress \<Rightarrow> (slcompress \<times> nat \<times> bool) option" where
  "locate ip sl =
     (let ts = tstate sl; lastcs = last_cs sl; cs = cs_next (ts ! lastcs) in
      if same_conn ip (cs_hdr (ts ! cs)) then Some (sl, cs, True)
      else (case search (length ts) ts lastcs ip cs of
         None \<Rightarrow> None
       | Some (lcs, cs, False) \<Rightarrow> Some (sl\<lparr>last_cs := lcs\<rparr>, cs, False)
       | Some (lcs, cs, True) \<Rightarrow>
           if cs = lastcs then Some (sl\<lparr>last_cs := lcs\<rparr>, cs, True)
           else let c1 = set_next lcs (cs_next (ts ! cs)) sl;
                    c2 = set_next cs (cs_next (tstate c1 ! lastcs)) c1
                in Some (set_next lastcs cs c2, cs, True)))"

text \<open>Nothing changed but what is expected to change: versions, lengths, options.\<close>

definition expected :: "bytes \<Rightarrow> bytes \<Rightarrow> bool" where
  "expected ip h \<longleftrightarrow>
     (let hl = ip_hl ip; t = 4 * hl; d = th_off ip t in
      gs ip 0 = gs h 0 \<and> gs ip off_off = gs h off_off \<and> gs ip 8 = gs h 8 \<and> d = th_off h t \<and>
      (hl > 5 \<longrightarrow> take (4 * (hl - 5)) (drop 20 ip) = take (4 * (hl - 5)) (drop 20 h)) \<and>
      (d > 5 \<longrightarrow> take (4 * (d - 5)) (drop (t + 20) ip) = take (4 * (d - 5)) (drop (t + 20) h)))"

text \<open>What is sent of each field: the mask and the bytes, or \<open>None\<close> for \<open>goto uncompressed\<close>.\<close>

definition send_urp :: "vj_hdr \<Rightarrow> bytes \<Rightarrow> bytes \<Rightarrow> nat \<Rightarrow> (u8 \<times> bytes) option" where
  "send_urp V ip h t =
     (if rd ip (t + 13) AND TH_URG V \<noteq> 0 then Some (NEW_U V, ENCODEZ V (ucast (gs ip (t + 18))))
      else if gs ip (t + 18) \<noteq> gs h (t + 18) then None else Some (0, []))"

definition send_win :: "vj_hdr \<Rightarrow> bytes \<Rightarrow> bytes \<Rightarrow> nat \<Rightarrow> u8 \<times> bytes" where
  "send_win V ip h t =
     (let d = gs ip (t + 14) - gs h (t + 14) in if d \<noteq> 0 then (NEW_W V, ENCODE V (ucast d)) else (0, []))"

definition send_delta :: "vj_hdr \<Rightarrow> u8 \<Rightarrow> u32 \<Rightarrow> (u8 \<times> bytes) option" where
  "send_delta V m d =
     (if d \<noteq> 0 then if d > 0xffff then None else Some (m, ENCODE V d) else Some (0, []))"

text \<open>The switch on the set of changes: the special cases.\<close>

definition special :: "vj_hdr \<Rightarrow> bytes \<Rightarrow> bytes \<Rightarrow> nat \<Rightarrow> u8 \<Rightarrow> bytes \<Rightarrow> u32 \<Rightarrow> u32 \<Rightarrow> (u8 \<times> bytes) option" where
  "special V ip h hlen changes new_seq deltaS deltaA =
     (let last_data = ucast (gs h off_len) - word_of_nat hlen in
      if changes = 0 then
        if gs ip off_len \<noteq> gs h off_len \<and> unat (gs h off_len) = hlen then Some (changes, new_seq) else None
      else if changes = SPECIAL_I V \<or> changes = SPECIAL_D V then None
      else if changes = NEW_S V OR NEW_A V then
        if deltaS = deltaA \<and> deltaS = last_data then Some (SPECIAL_I V, []) else Some (changes, new_seq)
      else if changes = NEW_S V then
        if deltaS = last_data then Some (SPECIAL_D V, []) else Some (changes, new_seq)
      else Some (changes, new_seq))"

definition all_changes :: "vj_hdr \<Rightarrow> bytes \<Rightarrow> bytes \<Rightarrow> nat \<Rightarrow> (u8 \<times> bytes) option" where
  "all_changes V ip h hlen =
     (let t = 4 * ip_hl ip; deltaA = gl ip (t + 8) - gl h (t + 8); deltaS = gl ip (t + 4) - gl h (t + 4);
          (mw, bw) = send_win V ip h t
      in case (send_urp V ip h t, send_delta V (NEW_A V) deltaA, send_delta V (NEW_S V) deltaS) of
        (Some (mu, bu), Some (ma, ba), Some (ms, bs)) \<Rightarrow>
          special V ip h hlen (mu OR mw OR ma OR ms) (bu @ bw @ ba @ bs) deltaS deltaA
      | _ \<Rightarrow> None)"

definition with_id :: "vj_hdr \<Rightarrow> bytes \<Rightarrow> bytes \<Rightarrow> u8 \<times> bytes \<Rightarrow> u8 \<times> bytes" where
  "with_id V ip h cb =
     (let (changes, new_seq) = cb; d = (ucast (gs ip off_id) :: u32) - ucast (gs h off_id);
          (c1, b1) = (if d \<noteq> 1 then (changes OR NEW_I V, new_seq @ ENCODEZ V d) else (changes, new_seq))
      in (if rd ip (4 * ip_hl ip + 13) AND TH_PUSH V \<noteq> 0 then c1 OR TCP_PUSH_BIT V else c1, b1))"

datatype vj_type = TYPE_IP | TYPE_UNCOMPRESSED_TCP | TYPE_COMPRESSED_TCP | TYPE_ERROR

text \<open>\<open>BCOPY(ip, &cs->cs_ip, hlen)\<close>\<close>

definition save_hdr :: "nat \<Rightarrow> bytes \<Rightarrow> nat \<Rightarrow> slcompress \<Rightarrow> slcompress" where
  "save_hdr cs ip hlen sl = sl\<lparr>tstate := (tstate sl)[cs := (tstate sl ! cs)\<lparr>cs_hdr :=
     put_at 0 (take hlen ip) (cs_hdr (tstate sl ! cs))\<rparr>]\<rparr>"

definition send_uncompressed :: "bytes \<Rightarrow> nat \<Rightarrow> nat \<Rightarrow> slcompress \<Rightarrow> vj_type \<times> bytes \<times> slcompress" where
  "send_uncompressed ip hlen cs sl =
     (let i = cs_id (tstate sl ! cs) in
      (TYPE_UNCOMPRESSED_TCP, put_at off_p [i] ip, (save_hdr cs ip hlen sl)\<lparr>last_xmit := i\<rparr>))"

text \<open>
  The compressed header is written over the end of the header that is in the packet, and the
  beginning of the packet moves up to it. \<open>None\<close>: the header is too short for that.
\<close>

definition send_compressed ::
  "bytes \<Rightarrow> nat \<Rightarrow> nat \<Rightarrow> u8 \<times> bytes \<Rightarrow> u8 \<Rightarrow> bool \<Rightarrow> slcompress \<Rightarrow> (vj_type \<times> bytes \<times> slcompress) option" where
  "send_compressed ip hlen cs cb new_c cid sl =
     (let (changes, new_seq) = cb; t = 4 * ip_hl ip; sum = be_putshort (gs ip (t + 16));
          sl1 = save_hdr cs ip hlen sl; i = cs_id (tstate sl ! cs);
          (front, sl2) =
            (if \<not> cid \<or> last_xmit sl \<noteq> i then ([changes OR new_c, i], sl1\<lparr>last_xmit := i\<rparr>)
             else ([changes], sl1));
          new = front @ sum @ new_seq; h = hlen - length new
      in if hlen < length new then None
         else Some (TYPE_COMPRESSED_TCP, drop h (put_at h new ip), sl2))"

definition sl_compress_tcp ::
  "vj_hdr \<Rightarrow> nat \<Rightarrow> bytes \<Rightarrow> slcompress \<Rightarrow> bool \<Rightarrow> (vj_type \<times> bytes \<times> slcompress) option" where
  "sl_compress_tcp V m_len ip sl compress_cid =
     (let t = 4 * ip_hl ip; hlen = 4 * (ip_hl ip + th_off ip t) in
      if gs ip off_off AND 0x3fff \<noteq> 0 \<or> m_len < 40 then Some (TYPE_IP, ip, sl)
      else if rd ip (t + 13) AND (TH_SYN V OR TH_FIN V OR TH_RST V OR TH_ACK V) \<noteq> TH_ACK V
      then Some (TYPE_IP, ip, sl)
      else case locate ip sl of
        None \<Rightarrow> None
      | Some (sl1, cs, found) \<Rightarrow>
          let h = cs_hdr (tstate sl1 ! cs) in
          if \<not> found \<or> \<not> expected ip h then Some (send_uncompressed ip hlen cs sl1)
          else (case all_changes V ip h hlen of
             None \<Rightarrow> Some (send_uncompressed ip hlen cs sl1)
           | Some cb \<Rightarrow> send_compressed ip hlen cs (with_id V ip h cb) (NEW_C V) compress_cid sl1))"

section \<open>Decompression\<close>

text \<open>The Internet checksum of the header, in the byte order of the machine.\<close>

fun sum_shorts :: "vj_hdr \<Rightarrow> bytes \<Rightarrow> u32" where
  "sum_shorts V (a # b # bs) = ucast (lds V a b) + sum_shorts V bs"
| "sum_shorts V _ = 0"

definition hdr_cksum :: "vj_hdr \<Rightarrow> bytes \<Rightarrow> u16" where
  "hdr_cksum V bs =
     (let c = sum_shorts V bs; c1 = (c AND 0xffff) + drop_bit 16 c; c2 = (c1 AND 0xffff) + drop_bit 16 c1
      in ucast (NOT c2))"

definition bad_packet :: "slcompress \<Rightarrow> bytes option \<times> slcompress" where
  "bad_packet sl = (None, sl\<lparr>toss := True\<rparr>)"

definition uncompressed_in :: "vj_hdr \<Rightarrow> bytes \<Rightarrow> slcompress \<Rightarrow> bytes option \<times> slcompress" where
  "uncompressed_in V buf sl =
     (let i = rd buf off_p; k = unat i; ip = put_at off_p [IPPROTO_TCP V] buf;
          hlen = 4 * (ip_hl ip + th_off ip (4 * ip_hl ip));
          cs = rstate sl ! k
      in if k \<ge> MAX_STATES V then bad_packet sl
         else (Some ip, sl\<lparr>last_recv := i, toss := False, rstate := (rstate sl)[k :=
           cs\<lparr>cs_hdr := put_at off_sum [0, 0] (put_at 0 (take hlen ip) (cs_hdr cs)), cs_hlen := hlen\<rparr>]\<rparr>))"

text \<open>The changes of a compressed packet, applied to the saved header; \<open>cp\<close> is the position in the packet.\<close>

definition in_u :: "vj_hdr \<Rightarrow> bytes \<Rightarrow> u8 \<Rightarrow> nat \<Rightarrow> bytes \<times> nat \<Rightarrow> bytes \<times> nat" where
  "in_u V buf changes t hc =
     (let (h, cp) = hc; fl = rd h (t + 13) in
      if changes AND NEW_U V \<noteq> 0
      then let (v, k) = DECODEU V (drop cp buf)
           in (put_at (t + 18) (be_putshort v) (put_at (t + 13) [fl OR TH_URG V] h), cp + k)
      else (put_at (t + 13) [fl AND NOT (TH_URG V)] h, cp))"

definition in_s :: "vj_hdr \<Rightarrow> bytes \<Rightarrow> bool \<Rightarrow> nat \<Rightarrow> bytes \<times> nat \<Rightarrow> bytes \<times> nat" where
  "in_s V buf on i hc =
     (let (h, cp) = hc in
      if on then let (v, k) = DECODES V (drop cp buf) (gs h i) in (put_at i (be_putshort v) h, cp + k) else (h, cp))"

definition in_l :: "vj_hdr \<Rightarrow> bytes \<Rightarrow> bool \<Rightarrow> nat \<Rightarrow> bytes \<times> nat \<Rightarrow> bytes \<times> nat" where
  "in_l V buf on i hc =
     (let (h, cp) = hc in
      if on then let (v, k) = DECODEL V (drop cp buf) (gl h i) in (put_at i (be_putlong v) h, cp + k) else (h, cp))"

definition add_l :: "nat \<Rightarrow> u32 \<Rightarrow> bytes \<Rightarrow> bytes" where
  "add_l i d h = put_at i (be_putlong (gl h i + d)) h"

definition in_changes :: "vj_hdr \<Rightarrow> bytes \<Rightarrow> u8 \<Rightarrow> nat \<Rightarrow> u32 \<Rightarrow> bytes \<times> nat \<Rightarrow> bytes \<times> nat" where
  "in_changes V buf changes t last_data hc =
     (let m = changes AND SPECIALS_MASK V in
      if m = SPECIAL_I V then (add_l (t + 4) last_data (add_l (t + 8) last_data (fst hc)), snd hc)
      else if m = SPECIAL_D V then (add_l (t + 4) last_data (fst hc), snd hc)
      else in_l V buf (changes AND NEW_S V \<noteq> 0) (t + 4)
            (in_l V buf (changes AND NEW_A V \<noteq> 0) (t + 8)
              (in_s V buf (changes AND NEW_W V \<noteq> 0) (t + 14) (in_u V buf changes t hc))))"

definition in_id :: "vj_hdr \<Rightarrow> bytes \<Rightarrow> u8 \<Rightarrow> bytes \<times> nat \<Rightarrow> bytes \<times> nat" where
  "in_id V buf changes hc =
     (if changes AND NEW_I V \<noteq> 0 then in_s V buf True off_id hc
      else (put_at off_id (be_putshort (gs (fst hc) off_id + 1)) (fst hc), snd hc))"

text \<open>From the explicit or implied connection on; \<open>cp\<close> is behind the connection number.\<close>

definition restore :: "vj_hdr \<Rightarrow> bytes \<Rightarrow> u8 \<Rightarrow> nat \<Rightarrow> slcompress \<Rightarrow> bytes option \<times> slcompress" where
  "restore V buf changes cp sl =
     (let k = unat (last_recv sl); cs = rstate sl ! k; h = cs_hdr cs; t = 4 * ip_hl h;
          h1 = put_at (t + 16) [rd buf cp, rd buf (cp + 1)] h;
          fl = rd h1 (t + 13);
          h2 = put_at (t + 13) [if changes AND TCP_PUSH_BIT V \<noteq> 0 then fl OR TH_PUSH V else fl AND NOT (TH_PUSH V)] h1;
          last_data = ucast (gs h2 off_len) - word_of_nat (cs_hlen cs);
          (h3, cp1) = in_id V buf changes (in_changes V buf changes t last_data (h2, cp + 2));
          h4 = put_at off_len (be_putshort (word_of_nat (cs_hlen cs + (length buf - cp1)))) h3;
          top = take (cs_hlen cs) h4
      in if length buf < cp1 then bad_packet (sl\<lparr>rstate := (rstate sl)[k := cs\<lparr>cs_hdr := h3\<rparr>]\<rparr>)
         else (Some (put_at off_sum (sts V (hdr_cksum V (take t top))) (top @ drop cp1 buf)),
               sl\<lparr>rstate := (rstate sl)[k := cs\<lparr>cs_hdr := h4\<rparr>]\<rparr>))"

definition compressed_in :: "vj_hdr \<Rightarrow> bytes \<Rightarrow> slcompress \<Rightarrow> bytes option \<times> slcompress" where
  "compressed_in V buf sl =
     (let changes = rd buf 0 in
      if changes AND NEW_C V \<noteq> 0 then
        if unat (rd buf 1) \<ge> MAX_STATES V then bad_packet sl
        else restore V buf changes 2 (sl\<lparr>toss := False, last_recv := rd buf 1\<rparr>)
      else if toss sl then (None, sl)
      else restore V buf changes 1 sl)"

definition sl_uncompress_tcp :: "vj_hdr \<Rightarrow> bytes \<Rightarrow> vj_type \<Rightarrow> slcompress \<Rightarrow> bytes option \<times> slcompress" where
  "sl_uncompress_tcp V buf ty sl =
     (case ty of TYPE_UNCOMPRESSED_TCP \<Rightarrow> uncompressed_in V buf sl
      | TYPE_COMPRESSED_TCP \<Rightarrow> compressed_in V buf sl
      | _ \<Rightarrow> bad_packet sl)"

section \<open>The coding of RFC 1144\<close>

definition std_encode :: "u32 \<Rightarrow> bytes" where
  "std_encode n = (if (ucast n :: u16) \<ge> 256 then [0, ucast (drop_bit 8 n), ucast n] else [ucast n])"

definition std_encodez :: "u32 \<Rightarrow> bytes" where
  "std_encodez n = (if (ucast n :: u16) \<ge> 256 \<or> (ucast n :: u16) = 0 then [0, ucast (drop_bit 8 n), ucast n] else [ucast n])"

definition std_decode :: "bytes \<Rightarrow> u16 \<times> nat" where
  "std_decode bs = (if rd bs 0 = 0 then (be_getshort (rd bs 1) (rd bs 2), 3) else (ucast (rd bs 0), 1))"

definition std_vj :: vj_hdr where
  "std_vj = \<lparr>MAX_STATES = 16, MAX_HDR = 128, NEW_C = 0x40, NEW_I = 0x20, TCP_PUSH_BIT = 0x10, NEW_S = 8, NEW_A = 4,
     NEW_W = 2, NEW_U = 1, SPECIAL_I = 0xb, SPECIAL_D = 0xf, SPECIALS_MASK = 0xf,
     ENCODE = std_encode, ENCODEZ = std_encodez,
     DECODEL = (\<lambda>bs f. let (v, k) = std_decode bs in (f + ucast v, k)),
     DECODES = (\<lambda>bs f. let (v, k) = std_decode bs in (f + v, k)), DECODEU = std_decode,
     TH_FIN = 1, TH_SYN = 2, TH_RST = 4, TH_PUSH = 8, TH_ACK = 16, TH_URG = 32, IPPROTO_TCP = 6,
     lds = be_getshort, sts = be_putshort\<rparr>"

lemma small_byte:
  assumes "(ucast n :: u16) < 256"
  shows "ucast (ucast (n :: u32) :: u8) = (ucast n :: u16)"
proof -
  have "unat n mod 65536 < 256"
    using assms by (simp add: word_less_nat_alt unsigned_ucast_eq take_bit_eq_mod)
  then have "unat n mod 256 = unat n mod 65536"
    using mod_mod_cancel [of 256 65536 "unat n"] by simp
  then show ?thesis
    by (simp add: word_unat_eq_iff unsigned_ucast_eq unsigned_take_bit_eq take_bit_eq_mod [where 'a = nat])
qed

lemma std_decode_encodez: "std_decode (std_encodez n @ r) = (ucast n, length (std_encodez n))"
proof -
  have three: "be_getshort (ucast (drop_bit 8 n)) (ucast n) = (ucast n :: u16)"
    by (rule bit_word_eqI) (auto simp: be_getshort_def bit_simps)
  have one: "(ucast n :: u8) \<noteq> 0 \<and> ucast (ucast n :: u8) = (ucast n :: u16)" if "(ucast n :: u16) < 256" "(ucast n :: u16) \<noteq> 0"
    using small_byte [OF that(1)] that(2) by auto
  show ?thesis
    using three one by (auto simp: std_decode_def std_encodez_def rd_def not_le)
qed

lemma std_encode_small: "0 < n \<Longrightarrow> n \<le> 0xffff \<Longrightarrow> std_encode n = std_encodez n"
proof -
  assume n: "0 < n" "n \<le> 0xffff"
  then have "0 < unat n" "unat n < 65536"
    by (simp_all add: word_less_nat_alt word_le_nat_alt)
  then have "(ucast n :: u16) \<noteq> 0"
    by (simp add: word_unat_eq_iff unsigned_ucast_eq take_bit_eq_mod)
  then show "std_encode n = std_encodez n"
    by (simp add: std_encode_def std_encodez_def)
qed

lemma ucast_small: "n \<le> 0xffff \<Longrightarrow> ucast (ucast (n :: u32) :: u16) = n"
  by (simp add: word_unat_eq_iff unsigned_ucast_eq unsigned_take_bit_eq take_bit_eq_mod [where 'a = nat] word_le_nat_alt)

lemma std_vj_ok: "vj_ok std_vj"
proof -
  have "vj_codec std_vj"
    unfolding vj_codec_def
    by (intro conjI allI impI)
      (simp_all add: std_vj_def std_encode_small std_decode_encodez ucast_small length_be_putshort, simp_all add: std_encode_def std_encodez_def)
  then show ?thesis
    by (simp add: vj_ok_def vj_masks_def std_vj_def)
qed

end
