(* ===== verification/If_Ppp.thy ===== *)
theory If_Ppp
  imports Sl_Compress
begin

text \<open>
  \<open>if_ppp.c\<close>: the asynchronous driver. Packets wait in queues, are framed by the write task
  (escapes, frame check sequence, flags) and rebuilt from the bytes of the line by \<open>pppinput\<close>.
  An mbuf is a buffer with the offset and the contents of its data, a chain of mbufs a list; a
  pointer into the chain that is being filled is an index, and \<open>sc_mp\<close> is always the end of the data
  of the mbuf \<open>sc_mc\<close>. Printing (\<open>SC_DEBUG\<close>, \<open>SC_LOG_*\<close>) is left out. The code is compiled with
  \<open>VJC\<close> and \<open>INET\<close>.
\<close>

section \<open>The header file and the environment\<close>

record drv_hdr =
  PPP_FLAG :: u8
  PPP_ESCAPE :: u8
  PPP_TRANS :: u8
  PPP_ALLSTATIONS :: u8
  PPP_UI :: u8
  PPP_FCS :: "u16 \<Rightarrow> u8 \<Rightarrow> u16"
  PPP_INITFCS :: u16
  PPP_GOODFCS :: u16
  PPP_HDRLEN :: nat
  PPP_FCSLEN :: nat
  PPP_IP :: u16
  PPP_VJC_COMP :: u16
  PPP_VJC_UNCOMP :: u16
  PPP_LCP :: u16
  PPP_MTU :: int
  DRV_MRU :: int
  PPP_MAXMRU :: int
  SC_MASK :: u32
  SC_ENABLE_IP :: u32
  SC_COMP_AC :: u32
  SC_COMP_PROT :: u32
  SC_COMP_TCP :: u32
  SC_NO_TCP_CCID :: u32
  SC_REJ_COMP_AC :: u32
  SC_REJ_COMP_TCP :: u32
  SC_FLUSH :: u32
  SC_ESCAPED :: u32
  SC_DISCARD_PKT :: u32
  SC_RCV_B7_0 :: u32
  SC_RCV_B7_1 :: u32
  SC_RCV_EVNP :: u32
  SC_RCV_ODDP :: u32
  IFF_UP :: u32
  IFF_RUNNING :: u32
  IFF_POINTOPOINT :: u32
  IFF_MULTICAST :: u32
  IFQ_MAXLEN :: nat
  EMSGSIZE :: int
  ENOBUFS :: int
  ENETDOWN :: int
  EAFNOSUPPORT :: int
  ENOTSUP :: int
  EINVAL :: int

text \<open>
  What the calls to the device, to the buffer pool and to the hooks of the user return, by the
  number of the call: how many bytes a write of \<open>n\<close> bytes accepted, the bytes waiting in the output
  buffer, the size of a new mbuf for a length.
\<close>

record dev =
  dh :: drv_hdr
  dv :: vj_hdr
  d_write :: "nat \<Rightarrow> nat \<Rightarrow> int"
  d_nwrite :: "nat \<Rightarrow> int"
  d_getm :: "nat \<Rightarrow> nat \<Rightarrow> nat option"
  in_hook :: "(bytes \<Rightarrow> bool) option"
  out_hook :: "(bytes \<Rightarrow> bool) option"

section \<open>State\<close>

record mbuf =
  m_extSize :: nat
  m_off :: nat
  m_dat :: bytes

type_synonym chain = "mbuf list"

definition contents :: "chain \<Rightarrow> bytes" where
  "contents ms = concat (map m_dat ms)"

record softc =
  sc_flags :: u32
  sc_asyncmap :: "u32 list"
  sc_rasyncmap :: u32
  sc_mru :: int
  sc_ilen :: int
  sc_fcs :: u16
  sc_m :: chain
  sc_mc :: nat
  sc_outm :: "chain option"
  sc_outfcs :: u16
  sc_fastq :: "chain list"
  sc_inq :: "chain list"
  if_snd :: "chain list"
  ipintrq :: "chain list"
  sc_comp :: slcompress
  sc_qlen :: int
  sc_bytessent :: nat
  sc_bytesrcvd :: nat
  sc_ipsent :: nat
  sc_iprcvd :: nat
  if_flags :: u32
  if_mtu :: int
  if_ipackets :: nat
  if_opackets :: nat
  if_ierrors :: nat
  if_oerrors :: nat
  if_iqdrops :: nat
  if_drops :: nat
  line :: bytes
  calls :: nat
  sigio :: nat
  wrtsem :: bool
  errno :: int

abbreviation has :: "softc \<Rightarrow> u32 \<Rightarrow> bool" where
  "has sc m \<equiv> sc_flags sc AND m \<noteq> 0"

definition set_flag :: "u32 \<Rightarrow> softc \<Rightarrow> softc" where
  "set_flag m sc = sc\<lparr>sc_flags := sc_flags sc OR m\<rparr>"

definition clear_flag :: "u32 \<Rightarrow> softc \<Rightarrow> softc" where
  "clear_flag m sc = sc\<lparr>sc_flags := sc_flags sc AND NOT m\<rparr>"

text \<open>\<open>HDROFF\<close>, with header compression compiled in.\<close>

definition HDROFF :: "dev \<Rightarrow> nat" where
  "HDROFF E = MAX_HDR (dv E)"

definition M_TRAILINGSPACE :: "mbuf \<Rightarrow> int" where
  "M_TRAILINGSPACE m = int (m_extSize m) - int (m_off m) - int (length (m_dat m))"

section \<open>The frame check sequence\<close>

definition fcstab :: "u16 list" where
  "fcstab =
    [0x0000, 0x1189, 0x2312, 0x329b, 0x4624, 0x57ad, 0x6536, 0x74bf,
     0x8c48, 0x9dc1, 0xaf5a, 0xbed3, 0xca6c, 0xdbe5, 0xe97e, 0xf8f7,
     0x1081, 0x0108, 0x3393, 0x221a, 0x56a5, 0x472c, 0x75b7, 0x643e,
     0x9cc9, 0x8d40, 0xbfdb, 0xae52, 0xdaed, 0xcb64, 0xf9ff, 0xe876,
     0x2102, 0x308b, 0x0210, 0x1399, 0x6726, 0x76af, 0x4434, 0x55bd,
     0xad4a, 0xbcc3, 0x8e58, 0x9fd1, 0xeb6e, 0xfae7, 0xc87c, 0xd9f5,
     0x3183, 0x200a, 0x1291, 0x0318, 0x77a7, 0x662e, 0x54b5, 0x453c,
     0xbdcb, 0xac42, 0x9ed9, 0x8f50, 0xfbef, 0xea66, 0xd8fd, 0xc974,
     0x4204, 0x538d, 0x6116, 0x709f, 0x0420, 0x15a9, 0x2732, 0x36bb,
     0xce4c, 0xdfc5, 0xed5e, 0xfcd7, 0x8868, 0x99e1, 0xab7a, 0xbaf3,
     0x5285, 0x430c, 0x7197, 0x601e, 0x14a1, 0x0528, 0x37b3, 0x263a,
     0xdecd, 0xcf44, 0xfddf, 0xec56, 0x98e9, 0x8960, 0xbbfb, 0xaa72,
     0x6306, 0x728f, 0x4014, 0x519d, 0x2522, 0x34ab, 0x0630, 0x17b9,
     0xef4e, 0xfec7, 0xcc5c, 0xddd5, 0xa96a, 0xb8e3, 0x8a78, 0x9bf1,
     0x7387, 0x620e, 0x5095, 0x411c, 0x35a3, 0x242a, 0x16b1, 0x0738,
     0xffcf, 0xee46, 0xdcdd, 0xcd54, 0xb9eb, 0xa862, 0x9af9, 0x8b70,
     0x8408, 0x9581, 0xa71a, 0xb693, 0xc22c, 0xd3a5, 0xe13e, 0xf0b7,
     0x0840, 0x19c9, 0x2b52, 0x3adb, 0x4e64, 0x5fed, 0x6d76, 0x7cff,
     0x9489, 0x8500, 0xb79b, 0xa612, 0xd2ad, 0xc324, 0xf1bf, 0xe036,
     0x18c1, 0x0948, 0x3bd3, 0x2a5a, 0x5ee5, 0x4f6c, 0x7df7, 0x6c7e,
     0xa50a, 0xb483, 0x8618, 0x9791, 0xe32e, 0xf2a7, 0xc03c, 0xd1b5,
     0x2942, 0x38cb, 0x0a50, 0x1bd9, 0x6f66, 0x7eef, 0x4c74, 0x5dfd,
     0xb58b, 0xa402, 0x9699, 0x8710, 0xf3af, 0xe226, 0xd0bd, 0xc134,
     0x39c3, 0x284a, 0x1ad1, 0x0b58, 0x7fe7, 0x6e6e, 0x5cf5, 0x4d7c,
     0xc60c, 0xd785, 0xe51e, 0xf497, 0x8028, 0x91a1, 0xa33a, 0xb2b3,
     0x4a44, 0x5bcd, 0x6956, 0x78df, 0x0c60, 0x1de9, 0x2f72, 0x3efb,
     0xd68d, 0xc704, 0xf59f, 0xe416, 0x90a9, 0x8120, 0xb3bb, 0xa232,
     0x5ac5, 0x4b4c, 0x79d7, 0x685e, 0x1ce1, 0x0d68, 0x3ff3, 0x2e7a,
     0xe70e, 0xf687, 0xc41c, 0xd595, 0xa12a, 0xb0a3, 0x8238, 0x93b1,
     0x6b46, 0x7acf, 0x4854, 0x59dd, 0x2d62, 0x3ceb, 0x0e70, 0x1ff9,
     0xf78f, 0xe606, 0xd49d, 0xc514, 0xb1ab, 0xa022, 0x92b9, 0x8330,
     0x7bc7, 0x6a4e, 0x58d5, 0x495c, 0x3de3, 0x2c6a, 0x1ef1, 0x0f78]"

definition pppfcs :: "drv_hdr \<Rightarrow> u16 \<Rightarrow> bytes \<Rightarrow> u16" where
  "pppfcs H fcs cp = foldl (PPP_FCS H) fcs cp"

text \<open>Does a byte need to be escaped?\<close>

definition ESCAPE_P :: "softc \<Rightarrow> u8 \<Rightarrow> bool" where
  "ESCAPE_P sc c \<longleftrightarrow> sc_asyncmap sc ! unat (drop_bit 5 c) AND push_bit (unat (c AND 0x1f)) 1 \<noteq> 0"

section \<open>Opening, and the controls of the line\<close>

definition pppgetm_step :: "dev \<Rightarrow> nat \<Rightarrow> softc \<Rightarrow> (nat \<times> softc) option" where
  "pppgetm_step E len sc =
     (case d_getm E (calls sc) len of
        None \<Rightarrow> None
      | Some k \<Rightarrow> Some (k, sc\<lparr>calls := calls sc + 1, sc_m := sc_m sc @ [\<lparr>m_extSize = k, m_off = 0, m_dat = []\<rparr>]\<rparr>))"

text \<open>
  The loop of \<open>pppgetm\<close>: walk over the mbufs that are there and add new ones until \<open>len\<close> bytes fit.
  An mbuf of size 0 would not advance it; the pool gives none.
\<close>

function pppgetm_more :: "dev \<Rightarrow> nat \<Rightarrow> softc \<Rightarrow> softc" where
  "pppgetm_more E len sc =
     (if len = 0 then sc
      else case pppgetm_step E len sc of
        None \<Rightarrow> sc\<lparr>calls := calls sc + 1\<rparr>
      | Some (k, sc1) \<Rightarrow> if k = 0 then sc1 else pppgetm_more E (len - k) sc1)"
  by auto
termination
  by (relation "measure (\<lambda>(E, len, sc). len)") auto

definition pppgetm :: "dev \<Rightarrow> softc \<Rightarrow> softc" where
  "pppgetm E sc =
     pppgetm_more E (nat (int (HDROFF E) + sc_mru sc + int (PPP_HDRLEN (dh E)) + int (PPP_FCSLEN (dh E)))
       - sum_list (map m_extSize (sc_m sc))) sc"

definition getm_enough :: "dev \<Rightarrow> softc \<Rightarrow> bool" where
  "getm_enough E sc \<longleftrightarrow> int (HDROFF E) + sc_mru sc + int (PPP_HDRLEN (dh E)) + int (PPP_FCSLEN (dh E))
     \<le> int (sum_list (map m_extSize (sc_m sc)))"

text \<open>What \<open>pppopen\<close> sets, after \<open>pppalloc\<close> (zeros) and \<open>pppattach\<close>.\<close>

definition softc_init :: "dev \<Rightarrow> softc" where
  "softc_init E = \<lparr>sc_flags = 0, sc_asyncmap = [0xffffffff, 0, 0, 0x60000000, 0, 0, 0, 0], sc_rasyncmap = 0,
     sc_mru = DRV_MRU (dh E), sc_ilen = 0, sc_fcs = 0, sc_m = [], sc_mc = 0, sc_outm = None, sc_outfcs = 0,
     sc_fastq = [], sc_inq = [], if_snd = [], ipintrq = [], sc_comp = sl_compress_init (dv E), sc_qlen = 0,
     sc_bytessent = 0, sc_bytesrcvd = 0, sc_ipsent = 0, sc_iprcvd = 0,
     if_flags = IFF_POINTOPOINT (dh E) OR IFF_MULTICAST (dh E) OR IFF_RUNNING (dh E), if_mtu = PPP_MTU (dh E),
     if_ipackets = 0, if_opackets = 0, if_ierrors = 0, if_oerrors = 0, if_iqdrops = 0, if_drops = 0,
     line = [], calls = 0, sigio = 0, wrtsem = False, errno = 0\<rparr>"

definition pppopen :: "dev \<Rightarrow> softc option" where
  "pppopen E = (let sc = pppgetm E (softc_init E) in if getm_enough E sc then Some sc else None)"

text \<open>
  \<open>ppptioctl\<close>: the requests with their arguments, the error number and the value returned. The unit number
  and the descriptor, which two more requests return, are constants of the unit.
\<close>

datatype tioctl = FIONREAD | PPPIOCGFLAGS | PPPIOCSFLAGS u32 | PPPIOCSASYNCMAP u32 | PPPIOCGASYNCMAP
  | PPPIOCSRASYNCMAP u32 | PPPIOCGRASYNCMAP | PPPIOCSXASYNCMAP "u32 list" | PPPIOCGXASYNCMAP | PPPIOCSMRU int | PPPIOCGMRU
  | PPPIOCSMAXCID int | PPPIOCXFERUNIT | SIOCSIFMTU int | SIOCGIFMTU | OtherIoctl

datatype ioval = NoVal | IntVal int | WordVal u32 | MapVal "u32 list" | TypeVal | Counters nat nat int int

definition set_mru :: "dev \<Rightarrow> int \<Rightarrow> softc \<Rightarrow> int \<times> softc" where
  "set_mru E mru sc =
     (let H = dh E; sc1 = pppgetm E (sc\<lparr>sc_mru := mru\<rparr>); sc2 = pppgetm E (sc1\<lparr>sc_mru := DRV_MRU H\<rparr>) in
      if mru < DRV_MRU H \<or> mru > PPP_MAXMRU H then (0, sc)
      else if getm_enough E sc1 then (0, sc1)
      else if getm_enough E sc2 then (ENOBUFS H, sc2)
      else (ENOBUFS H, sc2\<lparr>if_flags := if_flags sc2 AND NOT (IFF_UP H)\<rparr>))"

primrec ppptioctl :: "dev \<Rightarrow> tioctl \<Rightarrow> softc \<Rightarrow> int \<times> ioval \<times> softc" where
  "ppptioctl E FIONREAD sc = (0, IntVal (sc_qlen sc), sc)"
| "ppptioctl E PPPIOCGFLAGS sc = (0, WordVal (sc_flags sc), sc)"
| "ppptioctl E (PPPIOCSFLAGS f) sc =
     (0, NoVal, sc\<lparr>sc_flags := (sc_flags sc AND NOT (SC_MASK (dh E))) OR (f AND SC_MASK (dh E))\<rparr>)"
| "ppptioctl E (PPPIOCSASYNCMAP w) sc = (0, NoVal, sc\<lparr>sc_asyncmap := (sc_asyncmap sc)[0 := w]\<rparr>)"
| "ppptioctl E PPPIOCGASYNCMAP sc = (0, WordVal (sc_asyncmap sc ! 0), sc)"
| "ppptioctl E (PPPIOCSRASYNCMAP w) sc = (0, NoVal, sc\<lparr>sc_rasyncmap := w\<rparr>)"
| "ppptioctl E PPPIOCGRASYNCMAP sc = (0, WordVal (sc_rasyncmap sc), sc)"
| "ppptioctl E (PPPIOCSXASYNCMAP ws) sc =
     (0, NoVal, sc\<lparr>sc_asyncmap := ws[1 := 0, 2 := ws ! 2 AND NOT 0x40000000, 3 := ws ! 3 OR 0x60000000]\<rparr>)"
| "ppptioctl E PPPIOCGXASYNCMAP sc = (0, MapVal (sc_asyncmap sc), sc)"
| "ppptioctl E (PPPIOCSMRU mru) sc = (let (err, sc1) = set_mru E mru sc in (err, NoVal, sc1))"
| "ppptioctl E PPPIOCGMRU sc = (0, IntVal (sc_mru sc), sc)"
| "ppptioctl E (PPPIOCSMAXCID n) sc =
     (if n > int (MAX_STATES (dv E)) then (EINVAL (dh E), NoVal, sc)
      else (0, NoVal, sc\<lparr>sc_comp := sl_compress_init (dv E)\<rparr>))"
| "ppptioctl E PPPIOCXFERUNIT sc = (0, NoVal, sc)"
| "ppptioctl E (SIOCSIFMTU n) sc = (0, NoVal, sc\<lparr>if_mtu := n\<rparr>)"
| "ppptioctl E SIOCGIFMTU sc = (0, IntVal (if_mtu sc), sc)"
| "ppptioctl E OtherIoctl sc = (ENOTSUP (dh E), NoVal, sc)"

text \<open>
  \<open>pppioctl\<close>, the requests to the interface. The address requests and the multicast ones carry whether
  the address is an \<open>AF_INET\<close> one (\<open>None\<close> for a null pointer); the counters take the protocols that were
  not known and the line speed from the unit.
\<close>

datatype if_request = SIOCGIFFLAGS | SIOCSIFFLAGS | SIOCSIFADDR bool | SIOCSIFDSTADDR bool | IF_SIOCSIFMTU int | IF_SIOCGIFMTU
  | SIOCADDMULTI "bool option" | SIOCDELMULTI "bool option" | SIOCGMIB2CNFG | SIOCGMIB2CNTRS int int | OtherRequest

definition af_inet_only :: "dev \<Rightarrow> bool \<Rightarrow> softc \<Rightarrow> int \<times> ioval \<times> softc" where
  "af_inet_only E inet sc = (if inet then 0 else EAFNOSUPPORT (dh E), NoVal, sc)"

primrec pppioctl :: "dev \<Rightarrow> if_request \<Rightarrow> softc \<Rightarrow> int \<times> ioval \<times> softc" where
  "pppioctl E SIOCGIFFLAGS sc = (0, WordVal (if_flags sc), sc)"
| "pppioctl E SIOCSIFFLAGS sc =
     (0, NoVal, if if_flags sc AND IFF_RUNNING (dh E) = 0 then sc\<lparr>if_flags := if_flags sc AND NOT (IFF_UP (dh E))\<rparr> else sc)"
| "pppioctl E (SIOCSIFADDR inet) sc = af_inet_only E inet sc"
| "pppioctl E (SIOCSIFDSTADDR inet) sc = af_inet_only E inet sc"
| "pppioctl E (IF_SIOCSIFMTU n) sc = (0, NoVal, sc\<lparr>if_mtu := n\<rparr>)"
| "pppioctl E IF_SIOCGIFMTU sc = (0, IntVal (if_mtu sc), sc)"
| "pppioctl E (SIOCADDMULTI ifr) sc = af_inet_only E (ifr = Some True) sc"
| "pppioctl E (SIOCDELMULTI ifr) sc = af_inet_only E (ifr = Some True) sc"
| "pppioctl E SIOCGMIB2CNFG sc = (0, TypeVal, sc)"
| "pppioctl E (SIOCGMIB2CNTRS unknownProto baud_rate) sc =
     (0, Counters (sc_bytesrcvd sc) (sc_bytessent sc) unknownProto (if baud_rate = 0 then 9600 else baud_rate), sc)"
| "pppioctl E OtherRequest sc = (EINVAL (dh E), NoVal, sc)"

definition pinit :: "dev \<Rightarrow> softc \<Rightarrow> softc" where
  "pinit E sc = sc\<lparr>if_flags := if_flags sc OR IFF_UP (dh E) OR IFF_RUNNING (dh E)\<rparr>"

section \<open>Output\<close>

definition interactive_ports :: "u16 list" where
  "interactive_ports = [0, 513, 0, 0, 0, 21, 0, 23]"

definition INTERACTIVE :: "u16 \<Rightarrow> bool" where
  "INTERACTIVE p \<longleftrightarrow> interactive_ports ! unat (p AND 7) = p"

text \<open>\<open>IF_ENQUEUE\<close> after the test for a full queue: the new queue, or \<open>None\<close>.\<close>

definition enqueue :: "dev \<Rightarrow> chain list \<Rightarrow> chain \<Rightarrow> chain list option" where
  "enqueue E q m = (if length q \<ge> IFQ_MAXLEN (dh E) then None else Some (q @ [m]))"

datatype dst = AF_INET | AF_UNSPEC u8 u8 u16 | AF_OTHER

text \<open>The PPP header in front of a packet: in the first mbuf if there is room, else in a new one.\<close>

definition prepend_header :: "dev \<Rightarrow> bytes \<Rightarrow> chain \<Rightarrow> softc \<Rightarrow> chain option \<times> softc" where
  "prepend_header E hd4 ms sc =
     (case ms of
        [] \<Rightarrow> (None, sc)
      | m # rest \<Rightarrow>
          if m_off m < PPP_HDRLEN (dh E) then
            (case d_getm E (calls sc) (PPP_HDRLEN (dh E)) of
               None \<Rightarrow> (None, sc\<lparr>calls := calls sc + 1\<rparr>)
             | Some k \<Rightarrow> (Some (\<lparr>m_extSize = k, m_off = 0, m_dat = hd4\<rparr> # ms), sc\<lparr>calls := calls sc + 1\<rparr>))
          else (Some (m\<lparr>m_off := m_off m - PPP_HDRLEN (dh E), m_dat := hd4 @ m_dat m\<rparr> # rest), sc))"

definition is_interactive :: "dev \<Rightarrow> bytes \<Rightarrow> bool" where
  "is_interactive E ip \<longleftrightarrow> rd ip 9 = IPPROTO_TCP (dv E) \<and>
     (INTERACTIVE (gs ip (4 * ip_hl ip + 2)) \<or> INTERACTIVE (gs ip (4 * ip_hl ip)))"

definition pppasyncstart :: "softc \<Rightarrow> softc" where
  "pppasyncstart sc = sc\<lparr>wrtsem := True\<rparr>"

text \<open>The label \<open>bad\<close> of \<open>pppoutput\<close>.\<close>

definition output_bad :: "int \<Rightarrow> softc \<Rightarrow> int \<times> softc" where
  "output_bad e sc = (e, sc\<lparr>errno := e\<rparr>)"

text \<open>From the test of the hook on: the queue is the fast one or that of the interface.\<close>

definition send_packet :: "dev \<Rightarrow> bool \<Rightarrow> chain \<Rightarrow> softc \<Rightarrow> int \<times> softc" where
  "send_packet E fast m sc =
     (if (case out_hook E of None \<Rightarrow> False | Some f \<Rightarrow> f (contents m)) then (0, sc)
      else case enqueue E (if fast then sc_fastq sc else if_snd sc) m of
        None \<Rightarrow> output_bad (ENOBUFS (dh E)) (sc\<lparr>if_drops := if_drops sc + 1, if_oerrors := if_oerrors sc + 1\<rparr>)
      | Some q \<Rightarrow> (0, pppasyncstart (if fast then sc\<lparr>sc_fastq := q\<rparr> else sc\<lparr>if_snd := q\<rparr>)))"

definition with_header :: "dev \<Rightarrow> bool \<Rightarrow> bytes \<Rightarrow> chain \<Rightarrow> softc \<Rightarrow> int \<times> softc" where
  "with_header E fast hd4 ms sc =
     (case prepend_header E hd4 ms sc of
        (None, sc1) \<Rightarrow> output_bad (ENOBUFS (dh E)) sc1
      | (Some m, sc1) \<Rightarrow> send_packet E fast m sc1)"

definition pppoutput :: "dev \<Rightarrow> chain \<Rightarrow> dst \<Rightarrow> softc \<Rightarrow> int \<times> softc" where
  "pppoutput E m0 dst sc =
     (let H = dh E; down = (if_flags sc AND IFF_RUNNING H = 0 \<or> if_flags sc AND IFF_UP H = 0) in
      case dst of
        AF_UNSPEC address control protocol \<Rightarrow>
          with_header E False (address # control # be_putshort protocol) m0 sc
      | AF_INET \<Rightarrow>
          if down \<or> \<not> has sc (SC_ENABLE_IP H) then output_bad (ENETDOWN H) sc
          else with_header E (is_interactive E (m_dat (hd m0)))
            (PPP_ALLSTATIONS H # PPP_UI H # be_putshort (PPP_IP H)) m0 (sc\<lparr>sc_ipsent := sc_ipsent sc + 1\<rparr>)
      | AF_OTHER \<Rightarrow> output_bad (if down then ENETDOWN H else EAFNOSUPPORT H) sc)"

text \<open>
  The loop of \<open>pppwrite\<close>: clusters until the count is reached, each filled from the beginning of the
  buffer. A cluster of size 0 would not advance it; the pool gives none.
\<close>

function write_mbufs :: "dev \<Rightarrow> bytes \<Rightarrow> nat \<Rightarrow> softc \<Rightarrow> chain option \<times> softc" where
  "write_mbufs E buf count sc =
     (if count = 0 then (Some [], sc)
      else let sc1 = sc\<lparr>calls := calls sc + 1\<rparr> in
        case d_getm E (calls sc) count of
          None \<Rightarrow> (None, sc1)
        | Some k \<Rightarrow>
            if k = 0 then (None, sc1)
            else let len = min count k; m = \<lparr>m_extSize = k, m_off = 0, m_dat = take len buf\<rparr>;
                     (r, sc2) = write_mbufs E buf (count - len) sc1
                 in (map_option (\<lambda>ms. m # ms) r, sc2))"
  by auto
termination
  by (relation "measure (\<lambda>(E, buf, count, sc). count)") auto

definition strip_front :: "nat \<Rightarrow> mbuf \<Rightarrow> mbuf" where
  "strip_front n m = m\<lparr>m_off := m_off m + n, m_dat := drop n (m_dat m)\<rparr>"

definition pppwrite :: "dev \<Rightarrow> bytes \<Rightarrow> softc \<Rightarrow> int \<times> softc" where
  "pppwrite E buf sc =
     (let H = dh E; count = length buf in
      if int count > if_mtu sc + int (PPP_HDRLEN H) \<or> count < PPP_HDRLEN H then (-1, sc\<lparr>errno := EMSGSIZE H\<rparr>)
      else case write_mbufs E buf count sc of
        (Some (m # ms), sc1) \<Rightarrow>
          let d = m_dat m in pppoutput E (strip_front (PPP_HDRLEN H) m # ms) (AF_UNSPEC (rd d 0) (rd d 1) (gs d 2)) sc1
      | (_, sc1) \<Rightarrow> (-1, sc1\<lparr>errno := ENOBUFS H\<rparr>))"

subsection \<open>Taking a packet from the queues\<close>

definition if_dequeue :: "softc \<Rightarrow> (chain \<times> softc) option" where
  "if_dequeue sc =
     (case sc_fastq sc of
        m # q \<Rightarrow> Some (m, sc\<lparr>sc_fastq := q\<rparr>)
      | [] \<Rightarrow> (case if_snd sc of m # q \<Rightarrow> Some (m, sc\<lparr>if_snd := q\<rparr>) | [] \<Rightarrow> None))"

text \<open>
  Header compression of an IP packet: the TCP/IP header is in the first mbuf behind the PPP header,
  or at the beginning of the second.
\<close>

definition vj_out :: "dev \<Rightarrow> softc \<Rightarrow> chain \<Rightarrow> (u16 \<times> chain \<times> softc) option" where
  "vj_out E sc ms =
     (let H = dh E; go = (\<lambda>m_len ip put.
        if rd ip 9 \<noteq> IPPROTO_TCP (dv E) then Some (PPP_IP H, ms, sc)
        else case sl_compress_tcp (dv E) m_len ip (sc_comp sc) (\<not> has sc (SC_NO_TCP_CCID H)) of
          None \<Rightarrow> None
        | Some (ty, p, comp') \<Rightarrow>
            let proto = (case ty of TYPE_UNCOMPRESSED_TCP \<Rightarrow> PPP_VJC_UNCOMP H | TYPE_COMPRESSED_TCP \<Rightarrow> PPP_VJC_COMP H | _ \<Rightarrow> PPP_IP H)
            in Some (proto, put (ucast proto :: u8) p, sc\<lparr>sc_comp := comp'\<rparr>))
      in case ms of
        [] \<Rightarrow> Some (PPP_IP H, ms, sc)
      | m # rest \<Rightarrow>
          if length (m_dat m) \<le> PPP_HDRLEN H then
            (case rest of
               [] \<Rightarrow> Some (PPP_IP H, ms, sc)
             | m2 # rest2 \<Rightarrow> go (length (m_dat m2)) (m_dat m2)
                 (\<lambda>b p. m\<lparr>m_dat := put_at 3 [b] (m_dat m)\<rparr> # m2\<lparr>m_dat := p\<rparr> # rest2))
          else go (length (m_dat m)) (drop (PPP_HDRLEN H) (m_dat m))
            (\<lambda>b p. m\<lparr>m_dat := put_at 3 [b] (take (PPP_HDRLEN H) (m_dat m)) @ p\<rparr> # rest))"

text \<open>The header as it goes on the line.\<close>

definition squeeze :: "drv_hdr \<Rightarrow> softc \<Rightarrow> u16 \<Rightarrow> bytes \<Rightarrow> bytes" where
  "squeeze H sc protocol d =
     (let address = rd d 0; control = rd d 1;
          ac = (has sc (SC_COMP_AC H) \<and> address = PPP_ALLSTATIONS H \<and> control = PPP_UI H \<and>
                protocol \<noteq> ucast (PPP_ALLSTATIONS H) \<and> protocol \<noteq> PPP_LCP H);
          pc = (has sc (SC_COMP_PROT H) \<and> protocol < 0xff)
      in if ac then (if pc then drop 3 d else drop 2 d)
         else if pc then address # control # drop 3 d else d)"

definition ppp_dequeue :: "dev \<Rightarrow> softc \<Rightarrow> (chain \<times> softc) option option" where
  "ppp_dequeue E sc =
     (case if_dequeue sc of
        None \<Rightarrow> Some None
      | Some (ms, sc1) \<Rightarrow>
          let H = dh E; proto = gs (m_dat (hd ms)) 2 in
          (case (if proto = PPP_IP H \<and> has sc1 (SC_COMP_TCP H) then vj_out E sc1 ms else Some (proto, ms, sc1)) of
             None \<Rightarrow> None
           | Some (protocol, ms2, sc2) \<Rightarrow>
               let m = hd ms2; d = squeeze H sc2 protocol (m_dat m)
               in Some (Some (m\<lparr>m_off := m_off m + (length (m_dat m) - length d), m_dat := d\<rparr> # tl ms2, sc2))))"

subsection \<open>The write task\<close>

text \<open>\<open>write(fd, buf, n)\<close>: the device takes the bytes it accepts.\<close>

definition dev_write :: "dev \<Rightarrow> bytes \<Rightarrow> softc \<Rightarrow> int \<times> softc" where
  "dev_write E buf sc =
     (let cc = d_write E (calls sc) (length buf)
      in (cc, sc\<lparr>calls := calls sc + 1, line := line sc @ take (nat cc) buf\<rparr>))"

text \<open>The retry loop: every call starts at the beginning of the run. The result is \<open>nleft\<close>.\<close>

function write_run :: "dev \<Rightarrow> bytes \<Rightarrow> nat \<Rightarrow> softc \<Rightarrow> nat \<times> softc" where
  "write_run E start nleft sc =
     (if nleft = 0 then (0, sc)
      else let (cc, sc1) = dev_write E start sc in
        if cc \<le> 0 then (nleft, sc1) else write_run E start (nleft - min (nat cc) nleft) sc1)"
  by auto
termination
  by (relation "measure (\<lambda>(E, start, nleft, sc). nleft)") (auto simp: dev_write_def Let_def)

text \<open>One mbuf: runs of plain bytes, and escaped bytes in between. The result is what is left.\<close>

function send_bytes :: "dev \<Rightarrow> bytes \<Rightarrow> softc \<Rightarrow> bytes \<times> softc" where
  "send_bytes E data sc =
     (if data = [] then ([], sc)
      else let run = takeWhile (\<lambda>c. \<not> ESCAPE_P sc c) data; n = length run;
               (nleft, sc1) = (if n > 0 then write_run E run n sc else (0, sc));
               ndone = n - nleft; data1 = drop ndone data; sc2 = sc1\<lparr>sc_bytessent := sc_bytessent sc1 + ndone\<rparr>
           in if ndone < n then (data1, sc2)
              else case data1 of
                [] \<Rightarrow> ([], sc2)
              | c # rest \<Rightarrow>
                  let (r1, sc3) = dev_write E [PPP_ESCAPE (dh E)] sc2 in
                  if r1 \<noteq> 1 then (data1, sc3)
                  else let (r2, sc4) = dev_write E [c XOR PPP_TRANS (dh E)] sc3 in
                    if r2 \<noteq> 1 then (data1, sc4)
                    else send_bytes E rest (sc4\<lparr>sc_bytessent := sc_bytessent sc4 + 2\<rparr>))"
  by auto
termination
  by (relation "measure (\<lambda>(E, data, sc). length data)") (auto simp: Let_def dest!: arg_cong [where f = length])

definition esc :: "dev \<Rightarrow> softc \<Rightarrow> u8 \<Rightarrow> bytes" where
  "esc E sc c = (if ESCAPE_P sc c then [PPP_ESCAPE (dh E), c XOR PPP_TRANS (dh E)] else [c])"

definition endseq :: "dev \<Rightarrow> softc \<Rightarrow> bytes" where
  "endseq E sc =
     esc E sc (ucast (NOT (sc_outfcs sc))) @ esc E sc (ucast (drop_bit 8 (NOT (sc_outfcs sc)))) @ [PPP_FLAG (dh E)]"

text \<open>The loop over the mbufs of a packet; a packet that is not sent completely is remembered in \<open>sc_outm\<close>.\<close>

primrec send_chain :: "dev \<Rightarrow> chain \<Rightarrow> softc \<Rightarrow> softc" where
  "send_chain E [] sc = sc"
| "send_chain E (m # ms) sc =
     (let (rest, sc1) = send_bytes E (m_dat m) sc;
          sc2 = (if rest = [] \<and> ms = [] then snd (dev_write E (endseq E sc1) sc1) else sc1)
      in if rest \<noteq> []
         then sc2\<lparr>sc_outm := Some (m\<lparr>m_off := m_off m + (length (m_dat m) - length rest), m_dat := rest\<rparr> # ms)\<rparr>
         else if ms = [] then sc2
         else send_chain E ms (sc2\<lparr>sc_outfcs := pppfcs (dh E) (sc_outfcs sc2) (m_dat (hd ms))\<rparr>))"

text \<open>One packet: a flag if the line was idle, the frame, and the counters.\<close>

definition start_packet :: "dev \<Rightarrow> chain \<Rightarrow> softc \<Rightarrow> softc" where
  "start_packet E ms sc =
     (let sc1 = (if d_nwrite E (calls sc) = 0
                 then snd (dev_write E [PPP_FLAG (dh E)] (sc\<lparr>calls := calls sc + 1, sc_bytessent := sc_bytessent sc + 1\<rparr>))
                 else sc\<lparr>calls := calls sc + 1\<rparr>)
      in sc1\<lparr>sc_outfcs := pppfcs (dh E) (PPP_INITFCS (dh E)) (m_dat (hd ms))\<rparr>)"

definition finish_packet :: "softc \<Rightarrow> softc" where
  "finish_packet sc = sc\<lparr>sc_outm := None, sc_bytessent := sc_bytessent sc + 1, if_opackets := if_opackets sc + 1\<rparr>"

text \<open>
  The inner loop of \<open>ppp_wrt_task\<close> after the semaphore is taken, until the queues are empty. The
  first argument bounds the number of packets; \<open>None\<close> when it is used up.
\<close>

primrec wrt_loop :: "dev \<Rightarrow> nat \<Rightarrow> softc \<Rightarrow> softc option" where
  "wrt_loop E 0 sc = None"
| "wrt_loop E (Suc k) sc =
     (case sc_outm sc of
        Some ms \<Rightarrow> wrt_loop E k (finish_packet (send_chain E ms sc))
      | None \<Rightarrow> (case ppp_dequeue E sc of
          None \<Rightarrow> None
        | Some None \<Rightarrow> Some sc
        | Some (Some (ms, sc1)) \<Rightarrow> wrt_loop E k (finish_packet (send_chain E ms (start_packet E ms sc1)))))"

text \<open>\<open>ppp_wrt_flush\<close> repeats the loop of the task for what is queued when the unit is closed.\<close>

definition ppp_wrt_flush :: "dev \<Rightarrow> nat \<Rightarrow> softc \<Rightarrow> softc option" where
  "ppp_wrt_flush E k sc = wrt_loop E k sc"

text \<open>
  \<open>pppclose\<close>: the queues are sent, then the unit is gone (\<open>pppdealloc\<close> frees what is left in them). The
  result is the status, the slot of the unit and what the line got; \<open>None\<close> when the bound is used up.
\<close>

definition pppclose :: "dev \<Rightarrow> nat \<Rightarrow> softc option \<Rightarrow> (int \<times> softc option \<times> bytes) option" where
  "pppclose E k slot =
     (case slot of
        None \<Rightarrow> Some (-1, None, [])
      | Some sc \<Rightarrow> map_option (\<lambda>sc'. (0, None, line sc')) (ppp_wrt_flush E k sc))"

section \<open>Input\<close>

text \<open>The protocol hook of the line; the second value is the number of bytes handed to \<open>ppp_tty_read\<close>, if any.\<close>

definition pppintr :: "dev \<Rightarrow> bool \<Rightarrow> bool \<Rightarrow> u8 \<Rightarrow> softc \<Rightarrow> softc \<times> int option" where
  "pppintr E lcp_opened ring_full c sc =
     (let H = dh E;
          sc1 = (if sc_qlen sc = 0
                 then if ring_full then set_flag (SC_DISCARD_PKT H) sc else clear_flag (SC_DISCARD_PKT H) sc
                 else sc);
          sc2 = sc1\<lparr>sc_qlen := sc_qlen sc1 + 1\<rparr>
      in if sc_qlen sc2 > 2 * PPP_MTU H then (sc2\<lparr>sc_qlen := 0\<rparr>, Some (sc_qlen sc2))
         else if \<not> lcp_opened \<and> c = of_char CHR ''T'' then (sc2, Some (sc_qlen sc2))
         else if c = PPP_FLAG H then (sc2\<lparr>sc_qlen := 0\<rparr>, Some (sc_qlen sc2))
         else (sc2, None))"

definition drop_input :: "softc \<Rightarrow> softc" where
  "drop_input sc = sc\<lparr>if_ierrors := if_ierrors sc + 1\<rparr>"

text \<open>Header decompression of a received packet: \<open>None\<close> when it is dropped.\<close>

definition vj_in :: "dev \<Rightarrow> u16 \<Rightarrow> mbuf \<Rightarrow> nat \<Rightarrow> softc \<Rightarrow> mbuf option \<times> softc" where
  "vj_in E proto m ilen sc =
     (let H = dh E; d = drop (PPP_HDRLEN H) (m_dat m);
          ty = (if proto = PPP_VJC_COMP H then TYPE_COMPRESSED_TCP else TYPE_UNCOMPRESSED_TCP)
      in if has sc (SC_REJ_COMP_TCP H) then (None, drop_input sc)
         else if proto = PPP_VJC_COMP H \<and> m_off m < MAX_HDR (dv E) then (None, drop_input sc)
         else case sl_uncompress_tcp (dv E) d ty (sc_comp sc) of
           (None, comp') \<Rightarrow> (None, drop_input (sc\<lparr>sc_comp := comp'\<rparr>))
         | (Some q, comp') \<Rightarrow>
             let m_len = length d + length q + PPP_HDRLEN H - (ilen - PPP_HDRLEN H)
             in (Some (m\<lparr>m_off := m_off m + length d - length q,
                  m_dat := take m_len (take 3 (m_dat m) @ [ucast (PPP_IP H)] @ q)\<rparr>), sc\<lparr>sc_comp := comp'\<rparr>))"

text \<open>Hand a packet to IP or to \<open>read\<close>; \<open>ilen\<close> is its length.\<close>

definition pass_up :: "dev \<Rightarrow> u16 \<Rightarrow> chain \<Rightarrow> softc \<Rightarrow> softc" where
  "pass_up E proto ms sc =
     (let H = dh E; full = sc\<lparr>if_ierrors := if_ierrors sc + 1, if_iqdrops := if_iqdrops sc + 1\<rparr> in
      if (case in_hook E of None \<Rightarrow> False | Some f \<Rightarrow> f (contents ms)) then sc
      else if proto = PPP_IP H then
        if if_flags sc AND IFF_UP H = 0 \<or> \<not> has sc (SC_ENABLE_IP H) then sc
        else (case enqueue E (ipintrq sc) (strip_front (PPP_HDRLEN H) (hd ms) # tl ms) of
           None \<Rightarrow> full
         | Some q \<Rightarrow> sc\<lparr>ipintrq := q, sc_iprcvd := sc_iprcvd sc + 1\<rparr>)
      else (case enqueue E (sc_inq sc) ms of
           None \<Rightarrow> full
         | Some q \<Rightarrow> sc\<lparr>sc_inq := q, sigio := sigio sc + 1\<rparr>))"

definition ppppktin :: "dev \<Rightarrow> chain \<Rightarrow> softc \<Rightarrow> softc" where
  "ppppktin E ms sc =
     (let H = dh E; proto = gs (m_dat (hd ms)) 2; sc1 = sc\<lparr>if_ipackets := if_ipackets sc + 1\<rparr> in
      if proto = PPP_VJC_COMP H \<or> proto = PPP_VJC_UNCOMP H then
        (case vj_in E proto (hd ms) (length (contents ms)) sc1 of
           (None, sc2) \<Rightarrow> sc2
         | (Some m, sc2) \<Rightarrow> pass_up E (PPP_IP H) (m # tl ms) sc2)
      else pass_up E proto ms sc1)"

text \<open>\<open>copy_from_mbufs\<close> copies the whole chain and sets the count that is returned.\<close>

definition pppread :: "softc \<Rightarrow> bytes option \<times> softc" where
  "pppread sc = (case sc_inq sc of [] \<Rightarrow> (None, sc) | m # q \<Rightarrow> (Some (contents m), sc\<lparr>sc_inq := q\<rparr>))"

subsection \<open>A byte from the line\<close>

definition paritytab :: "u32 list" where
  "paritytab = [0x96696996, 0x69969669, 0x69969669, 0x96696996, 0x69969669, 0x96696996, 0x96696996, 0x69969669]"

definition rcv_bits :: "drv_hdr \<Rightarrow> u8 \<Rightarrow> u32" where
  "rcv_bits H c =
     (if c AND 0x80 \<noteq> 0 then SC_RCV_B7_1 H else SC_RCV_B7_0 H) OR
     (if paritytab ! unat (drop_bit 5 c) AND push_bit (unat (c AND 0x1f)) 1 \<noteq> 0 then SC_RCV_ODDP H else SC_RCV_EVNP H)"

text \<open>Append to the mbuf that is being filled.\<close>

definition store :: "bytes \<Rightarrow> softc \<Rightarrow> softc" where
  "store bs sc = sc\<lparr>sc_m := (sc_m sc)[sc_mc sc := (sc_m sc ! sc_mc sc)\<lparr>m_dat := m_dat (sc_m sc ! sc_mc sc) @ bs\<rparr>],
     sc_ilen := sc_ilen sc + int (length bs)\<rparr>"

definition flush :: "dev \<Rightarrow> softc \<Rightarrow> softc" where
  "flush E sc = (if has sc (SC_FLUSH (dh E)) then sc else set_flag (SC_FLUSH (dh E)) (drop_input sc))"

text \<open>The steps of the data path: the state, and whether to go on (otherwise \<open>goto flush\<close>).\<close>

definition first_octet :: "dev \<Rightarrow> u8 \<Rightarrow> softc \<Rightarrow> softc \<times> bool" where
  "first_octet E c sc =
     (if sc_ilen sc \<noteq> 0 then (sc, True)
      else let H = dh E; sc1 = (if sc_m sc = [] then pppgetm E sc else sc) in
        if sc_m sc1 = [] then (sc1, False)
        else let k = m_extSize (hd (sc_m sc1));
                 m = \<lparr>m_extSize = k, m_off = (if k \<ge> HDROFF E + PPP_HDRLEN H then HDROFF E else 0), m_dat = []\<rparr>;
                 sc2 = sc1\<lparr>sc_m := m # tl (sc_m sc1), sc_mc := 0, sc_fcs := PPP_INITFCS H\<rparr>
             in if c \<noteq> PPP_ALLSTATIONS H then
                  if has sc2 (SC_REJ_COMP_AC H) then (sc2, False)
                  else (store [PPP_ALLSTATIONS H, PPP_UI H] sc2, True)
                else (sc2, True))"

definition next_mbuf :: "dev \<Rightarrow> softc \<Rightarrow> softc \<times> bool" where
  "next_mbuf E sc =
     (if M_TRAILINGSPACE (sc_m sc ! sc_mc sc) > 0 then (sc, True)
      else let sc1 = (if sc_mc sc + 1 < length (sc_m sc) then sc else pppgetm E sc); i = sc_mc sc1 + 1 in
        if i < length (sc_m sc1)
        then (sc1\<lparr>sc_mc := i, sc_m := (sc_m sc1)[i := \<lparr>m_extSize = m_extSize (sc_m sc1 ! i), m_off = 0, m_dat = []\<rparr>]\<rparr>, True)
        else (sc1, False))"

definition data_octet :: "dev \<Rightarrow> u8 \<Rightarrow> softc \<Rightarrow> softc" where
  "data_octet E c sc =
     (let H = dh E; (sc1, go) = first_octet E c sc;
          sc2 = (if sc_ilen sc1 = 2 \<and> c AND 1 = 1 then store [0] sc1 else sc1);
          sc3 = sc2\<lparr>sc_ilen := sc_ilen sc2 + 1\<rparr>;
          (sc4, room) = next_mbuf E sc3
      in if \<not> go then flush E sc1
         else if sc_ilen sc1 = 1 \<and> c \<noteq> PPP_UI H then flush E sc1
         else if sc_ilen sc2 = 3 \<and> c AND 1 = 0 then flush E sc2
         else if sc_ilen sc3 > sc_mru sc3 + int (PPP_HDRLEN H) + int (PPP_FCSLEN H) then flush E sc3
         else if \<not> room then flush E sc4
         else (store [c] sc4)\<lparr>sc_ilen := sc_ilen sc4, sc_fcs := PPP_FCS H (sc_fcs sc4) c\<rparr>)"

definition drop_last :: "nat \<Rightarrow> chain \<Rightarrow> chain" where
  "drop_last i ms = ms[i := (ms ! i)\<lparr>m_dat := butlast (m_dat (ms ! i))\<rparr>]"

definition flag_octet :: "dev \<Rightarrow> softc \<Rightarrow> softc" where
  "flag_octet E sc =
     (let H = dh E; ilen = sc_ilen sc; sc1 = sc\<lparr>sc_ilen := 0\<rparr>; bad = SC_FLUSH H OR SC_ESCAPED H in
      if has sc bad \<or> ilen > 0 \<and> sc_fcs sc \<noteq> PPP_GOODFCS H then
        let sc2 = sc1\<lparr>sc_comp := snd (sl_uncompress_tcp (dv E) [] TYPE_ERROR (sc_comp sc1))\<rparr>
        in if has sc bad then clear_flag bad sc2 else drop_input sc2
      else if ilen < int (PPP_HDRLEN H) + int (PPP_FCSLEN H) then (if ilen \<noteq> 0 then drop_input sc1 else sc1)
      else
        let i = sc_mc sc; ms1 = drop_last i (sc_m sc); j = (if m_dat (ms1 ! i) = [] then i - 1 else i);
            ms2 = drop_last j ms1
        in pppgetm E (ppppktin E (take (j + 1) ms2) (sc1\<lparr>sc_m := drop (j + 1) ms2, sc_mc := j\<rparr>)))"

definition pppinput :: "dev \<Rightarrow> softc \<Rightarrow> u8 \<Rightarrow> softc" where
  "pppinput E sc c =
     (let H = dh E; sc1 = set_flag (rcv_bits H c) (sc\<lparr>sc_bytesrcvd := sc_bytesrcvd sc + 1\<rparr>) in
      if c = PPP_FLAG H then flag_octet E sc1
      else if has sc1 (SC_FLUSH H) then sc1
      else if c < 0x20 \<and> sc_rasyncmap sc1 AND push_bit (unat c) 1 \<noteq> 0 then sc1
      else if has sc1 (SC_ESCAPED H) then data_octet E (c XOR PPP_TRANS H) (clear_flag (SC_ESCAPED H) sc1)
      else if c = PPP_ESCAPE H then set_flag (SC_ESCAPED H) sc1
      else data_octet E c sc1)"

text \<open>\<open>ppp_tty_read\<close>: the bytes that were read, and what the peer of a passive unit wrote first.\<close>

definition ppp_tty_read :: "dev \<Rightarrow> bool \<Rightarrow> bytes \<Rightarrow> int \<Rightarrow> softc \<Rightarrow> softc" where
  "ppp_tty_read E lcp_opened buf count sc =
     (if count > 2 * PPP_MTU (dh E) then drop_input sc
      else if \<not> lcp_opened \<and> take 6 buf = map of_char ''CLIENT''
      then snd (dev_write E (map of_char ''CLIENTSERVER'') (sc\<lparr>sc_qlen := 0\<rparr>))
      else if has sc (SC_DISCARD_PKT (dh E)) then clear_flag (SC_DISCARD_PKT (dh E)) (drop_input sc)
      else foldl (pppinput E) sc buf)"

end
