(* ===== verification/Vj_Spec.thy ===== *)
theory Vj_Spec
  imports Sl_Compress
begin

text \<open>
  TCP/IP header compression is transparent: the circular list of connection states is a list in
  the order of last use, the compressor always gives a result, and what the decompressor makes of
  it is the packet that was sent, as long as both sides started together.
\<close>

section \<open>The circular list of states\<close>

fun path :: "('a \<Rightarrow> 'a) \<Rightarrow> 'a list \<Rightarrow> bool" where
  "path f (x # y # zs) \<longleftrightarrow> f x = y \<and> path f (y # zs)"
| "path f _ \<longleftrightarrow> True"

lemma path_append: "path f (xs @ y # ys) \<longleftrightarrow> path f (xs @ [y]) \<and> path f (y # ys)"
  by (induction f xs rule: path.induct) (auto simp: neq_Nil_conv split: list.splits)

lemma path_cong: "(\<And>x. x \<in> set (butlast xs) \<Longrightarrow> f x = g x) \<Longrightarrow> path f xs = path g xs"
  by (induction f xs rule: path.induct) auto

definition nxt :: "slcompress \<Rightarrow> nat \<Rightarrow> nat" where
  "nxt sl i = cs_next (tstate sl ! i)"

text \<open>The states in the order of last use: \<open>last_cs\<close> is the oldest, and its successor the newest.\<close>

definition ring :: "slcompress \<Rightarrow> nat list \<Rightarrow> bool" where
  "ring sl ord \<longleftrightarrow> ord \<noteq> [] \<and> distinct ord \<and> set ord = {..<length (tstate sl)} \<and> last ord = last_cs sl \<and>
     path (nxt sl) (ord @ [hd ord])"

lemma search_path:
  assumes "path (\<lambda>i. cs_next (ts ! i)) (cs # xs @ [l])" "length xs < k" "l \<notin> set xs"
  shows "\<exists>as c bs. xs @ [l] = as @ c # bs \<and> (\<forall>a\<in>set as. \<not> same_conn ip (cs_hdr (ts ! a))) \<and>
     search k ts l ip cs = Some (last (cs # as), c, same_conn ip (cs_hdr (ts ! c))) \<and>
     (\<not> same_conn ip (cs_hdr (ts ! c)) \<longrightarrow> bs = [])"
  using assms
proof (induction xs arbitrary: cs k)
  case Nil
  then obtain k' where "k = Suc k'" by (cases k) auto
  with Nil show ?case
    by (intro exI [of _ "[]"] exI [of _ l]) auto
next
  case (Cons x xs)
  then obtain k' where k: "k = Suc k'" "length xs < k'" by (cases k) auto
  have x: "cs_next (ts ! cs) = x" "path (\<lambda>i. cs_next (ts ! i)) (x # xs @ [l])" "l \<noteq> x"
    using Cons.prems by auto
  show ?case
  proof (cases "same_conn ip (cs_hdr (ts ! x))")
    case True
    then show ?thesis
      using x k by (intro exI [of _ "[]"] exI [of _ x] exI [of _ "xs @ [l]"]) auto
  next
    case False
    obtain as c bs where *: "xs @ [l] = as @ c # bs" "\<forall>a\<in>set as. \<not> same_conn ip (cs_hdr (ts ! a))"
      "search k' ts l ip x = Some (last (x # as), c, same_conn ip (cs_hdr (ts ! c)))"
      "\<not> same_conn ip (cs_hdr (ts ! c)) \<longrightarrow> bs = []"
      using Cons.IH [OF x(2) k(2)] Cons.prems(3) by auto
    then show ?thesis
      using x k False by (intro exI [of _ "x # as"] exI [of _ c] exI [of _ bs]) auto
  qed
qed

lemma path_Cons: "path f (x # ys) \<longleftrightarrow> ys = [] \<or> f x = hd ys \<and> path f ys"
  by (cases ys) auto

lemma path_move:
  assumes "path f (us @ p # c # vs @ [l, h])" "distinct (us @ p # c # vs @ [l])" "h = hd (us @ [p])"
  shows "path (f(p := hd (vs @ [l]), c := h, l := c)) (c # us @ p # vs @ [l, c])"
proof -
  let ?g = "f(p := hd (vs @ [l]), c := h, l := c)"
  have "path f (us @ [p])" and "path f (vs @ [l])"
    using assms(1) path_append [of f us p "c # vs @ [l, h]"] path_append [of f vs l "[h]"] by (auto simp: path_Cons)
  then have "path ?g (us @ [p])" "path ?g (vs @ [l])"
    using assms(2) path_cong [of "us @ [p]" ?g f] path_cong [of "vs @ [l]" ?g f] by fastforce+
  moreover have "p \<noteq> c" "p \<noteq> l" "c \<noteq> l" using assms(2) by auto
  ultimately show ?thesis
    using assms(3) path_append [of ?g us p "vs @ [l, c]"] path_append [of ?g vs l "[c]"]
    by (simp add: path_Cons) (cases us; cases vs; simp)
qed

lemma nxt_set_next: "i < length (tstate sl) \<Longrightarrow> nxt (set_next i n sl) = (nxt sl)(i := n)"
  by (auto simp: nxt_def set_next_def fun_eq_iff nth_list_update)

lemma set_next_frame [simp]:
  "length (tstate (set_next i n sl)) = length (tstate sl)" "last_cs (set_next i n sl) = last_cs sl"
  "last_xmit (set_next i n sl) = last_xmit sl"
  by (simp_all add: set_next_def)

lemma ring_move:
  assumes ring: "ring sl (us @ p # c # vs @ [l])"
    and sl': "sl' = set_next l c (set_next c (hd (us @ [p])) (set_next p (hd (vs @ [l])) sl))"
  shows "ring sl' (c # us @ p # vs @ [l])"
proof -
  have d: "distinct (us @ p # c # vs @ [l])" and len: "set (us @ p # c # vs @ [l]) = {..<length (tstate sl)}"
    and path: "path (nxt sl) (us @ p # c # vs @ [l, hd (us @ [p])])" and l: "l = last_cs sl"
    using ring by (cases us; simp add: ring_def)+
  have bounds: "l < length (tstate sl)" "c < length (tstate sl)" "p < length (tstate sl)"
    using len by auto
  have "nxt sl' = (nxt sl)(p := hd (vs @ [l]), c := hd (us @ [p]), l := c)"
    using bounds by (simp add: sl' nxt_set_next)
  then have "path (nxt sl') (c # us @ p # vs @ [l, c])"
    using path_move [OF path d] by simp
  then show ?thesis
    using d len l by (auto simp: ring_def sl')
qed

text \<open>What moving a state to the front leaves alone.\<close>

definition same_states :: "slcompress \<Rightarrow> slcompress \<Rightarrow> bool" where
  "same_states sl sl' \<longleftrightarrow> length (tstate sl') = length (tstate sl) \<and> last_xmit sl' = last_xmit sl \<and>
     (\<forall>i<length (tstate sl). cs_hdr (tstate sl' ! i) = cs_hdr (tstate sl ! i) \<and> cs_id (tstate sl' ! i) = cs_id (tstate sl ! i))"

lemma same_states_refl [simp]: "same_states sl sl" "same_states sl (sl\<lparr>last_cs := l\<rparr>)"
  by (simp_all add: same_states_def)

lemma same_states_set_next: "same_states sl sl' \<Longrightarrow> same_states sl (set_next i n sl')"
  by (cases "i < length (tstate sl')") (auto simp: same_states_def set_next_def nth_list_update)

abbreviation is_conn :: "slcompress \<Rightarrow> bytes \<Rightarrow> nat \<Rightarrow> bool" where
  "is_conn sl ip i \<equiv> same_conn ip (cs_hdr (tstate sl ! i))"

lemma ringD:
  assumes "ring sl (us @ [l])"
  shows "last_cs sl = l" "nxt sl l = hd (us @ [l])" "distinct (us @ [l])" "path (nxt sl) (us @ [l])"
    "set (us @ [l]) = {..<length (tstate sl)}" "length us < length (tstate sl)"
proof -
  have "last (us @ [l]) = last_cs sl"
    using assms unfolding ring_def by blast
  then show "last_cs sl = l" by simp
  show d: "distinct (us @ [l])" and r: "set (us @ [l]) = {..<length (tstate sl)}"
    using assms unfolding ring_def by blast+
  have "path (nxt sl) ((us @ [l]) @ [hd (us @ [l])])"
    using assms unfolding ring_def by blast
  then have "path (nxt sl) (us @ [l]) \<and> path (nxt sl) (l # [hd (us @ [l])])"
    using path_append [of "nxt sl" us l "[hd (us @ [l])]"] by simp
  then show "nxt sl l = hd (us @ [l])" "path (nxt sl) (us @ [l])"
    by simp_all
  show "length us < length (tstate sl)"
    using distinct_card [OF d] unfolding r by simp
qed

lemma ring_rotate: "ring sl (us @ [l]) \<Longrightarrow> us \<noteq> [] \<Longrightarrow> ring (sl\<lparr>last_cs := last us\<rparr>) (l # us)"
  using ringD [of sl us l] by (auto simp: ring_def path_Cons nxt_def [abs_def])

lemma locate_single: "ring sl [l] \<Longrightarrow> locate ip sl = Some (sl, l, is_conn sl ip l)"
  using ringD [of sl "[]" l] by (cases "length (tstate sl)") (auto simp: locate_def Let_def nxt_def)

lemma locate_many:
  assumes ring: "ring sl (h # xs @ [l])"
  shows "\<exists>pre c post sl'. h # xs @ [l] = pre @ c # post \<and> locate ip sl = Some (sl', c, is_conn sl ip c) \<and>
     (\<forall>a\<in>set pre. \<not> is_conn sl ip a) \<and> (\<not> is_conn sl ip c \<longrightarrow> post = []) \<and> ring sl' (c # pre @ post) \<and> same_states sl sl'"
proof (cases "is_conn sl ip h")
  case True
  then show ?thesis
    using ring ringD [of sl "h # xs" l]
    by (intro exI [of _ "[]"] exI [of _ h] exI [of _ "xs @ [l]"] exI [of _ sl])
      (simp_all add: locate_def Let_def nxt_def)
next
  case False
  have l: "last_cs sl = l" "nxt sl l = h" and d: "distinct (h # xs @ [l])" and p: "path (nxt sl) (h # xs @ [l])"
    and n: "length xs < length (tstate sl)"
    using ringD [of sl "h # xs" l] ring by simp_all
  obtain as c bs where c: "xs @ [l] = as @ c # bs" "\<forall>a\<in>set as. \<not> is_conn sl ip a"
    "search (length (tstate sl)) (tstate sl) l ip h = Some (last (h # as), c, is_conn sl ip c)" "\<not> is_conn sl ip c \<longrightarrow> bs = []"
    using search_path [of "tstate sl" h xs l "length (tstate sl)" ip] p n d unfolding nxt_def [abs_def] by auto
  obtain us q where q: "h # as = us @ [q]" "last (h # as) = q"
    by (metis append_butlast_last_id list.distinct(1))
  show ?thesis
  proof (cases "bs = []")
    case True
    then have cl: "c = l" "xs = as" using c(1) by simp_all
    have "locate ip sl = Some (sl\<lparr>last_cs := last (h # as)\<rparr>, l, is_conn sl ip l)"
      using c(3) l False cl by (cases "is_conn sl ip l") (simp_all add: locate_def Let_def nxt_def del: last.simps)
    moreover have "ring (sl\<lparr>last_cs := last (h # as)\<rparr>) (l # h # as)"
      using ring_rotate [of sl "h # xs" l] ring cl by simp
    ultimately show ?thesis
      using c(2) cl False
      by - (rule exI [of _ "h # as"], rule exI [of _ l], rule exI [of _ "[]"], rule exI [of _ "sl\<lparr>last_cs := last (h # as)\<rparr>"],
        simp del: last.simps)
  next
    case bs: False
    then obtain vs y where "bs = vs @ [y]" by (meson rev_exhaust)
    then have vs: "bs = vs @ [l]" using arg_cong [OF c(1), of last] by simp
    let ?sl = "set_next l c (set_next c h (set_next q (hd bs) sl))"
    have conn: "is_conn sl ip c" using bs c(4) by blast
    have eq: "h # xs @ [l] = us @ q # c # vs @ [l]"
      using q(1) c(1) vs by (metis append.assoc append_Cons append_Nil)
    have r: "ring sl (us @ q # c # vs @ [l])" using ring unfolding eq .
    have h: "h = hd (us @ [q])" using arg_cong [OF eq, of hd] by (simp add: hd_append)
    have d: "distinct (us @ q # c # vs @ [l])" and pth: "path (nxt sl) ((us @ [q]) @ c # vs @ [l])"
      using ringD [of sl "us @ q # c # vs" l] r by simp_all
    then have neq: "c \<noteq> l" "q \<noteq> l" and nc: "nxt sl c = hd bs"
      using path_append [of "nxt sl" "us @ [q]" c "vs @ [l]"] vs by (simp_all add: path_Cons)
    have "locate ip sl = Some (?sl, c, True)"
      using False conn c(3) l neq nc unfolding q(2)
      by (simp add: locate_def Let_def nxt_def set_next_def del: last.simps)
    moreover have "ring ?sl (c # (h # as) @ bs)"
      using ring_move [OF r refl] unfolding h [symmetric] vs [symmetric] q(1) by simp
    moreover have "same_states sl ?sl"
      by (intro same_states_set_next same_states_refl)
    ultimately show ?thesis
      using conn c(1,2) False by (intro exI [of _ "h # as"]) fastforce
  qed
qed

lemma locate_ring:
  assumes "ring sl ord"
  shows "\<exists>pre c post sl'. ord = pre @ c # post \<and> locate ip sl = Some (sl', c, is_conn sl ip c) \<and>
     (\<forall>a\<in>set pre. \<not> is_conn sl ip a) \<and> (\<not> is_conn sl ip c \<longrightarrow> post = []) \<and> ring sl' (c # pre @ post) \<and> same_states sl sl'"
proof (cases "\<exists>l. ord = [l]")
  case True
  then show ?thesis
    using assms locate_single [of sl _ ip] by (auto intro!: exI [of _ "[]"])
next
  case False
  have "ord \<noteq> []" using assms by (simp add: ring_def)
  with False obtain h xs l where "ord = h # xs @ [l]"
    by (metis append_butlast_last_id append_Nil list.exhaust)
  then show ?thesis
    using locate_many assms by simp
qed

section \<open>Headers in part restored\<close>

lemma rd_put_at:
  "p + length bs \<le> length h \<Longrightarrow> rd (put_at p bs h) i = (if p \<le> i \<and> i < p + length bs then bs ! (i - p) else rd h i)"
  by (auto simp: rd_def put_at_def nth_append min_def)

lemma gs_eqD: "gs a p = gs b q \<Longrightarrow> rd a p = rd b q \<and> rd a (p + 1) = rd b (q + 1)"
  unfolding gs_def by (metis be_short_get_put list.inject)

lemma gl_eqD:
  assumes "gl a p = gl b q"
  shows "\<forall>j<4. rd a (p + j) = rd b (q + j)"
proof -
  have "[rd a p, rd a (p + 1), rd a (p + 2), rd a (p + 3)] = [rd b q, rd b (q + 1), rd b (q + 2), rd b (q + 3)]"
    using assms unfolding gl_def by (metis be_long_get_put)
  then show ?thesis by (auto simp: less_Suc_eq eval_nat_numeral)
qed

text \<open>
  In the first \<open>n\<close> bytes, except at \<open>X\<close>, the header \<open>h\<close> has the bytes of the packet \<open>ip\<close> at \<open>D\<close> and
  those of the old header \<open>g\<close> elsewhere.
\<close>

definition mix :: "nat \<Rightarrow> nat set \<Rightarrow> nat set \<Rightarrow> bytes \<Rightarrow> bytes \<Rightarrow> bytes \<Rightarrow> bool" where
  "mix n X D ip g h \<longleftrightarrow> n \<le> length h \<and> (\<forall>i<n. i \<notin> X \<longrightarrow> rd h i = (if i \<in> D then rd ip i else rd g i))"

lemma mix_put:
  assumes "mix n X D ip g h" "p + length bs \<le> n" "\<forall>j<length bs. bs ! j = rd ip (p + j)"
  shows "mix n (X - {p..<p + length bs}) (D \<union> {p..<p + length bs}) ip g (put_at p bs h)"
  using assms by (auto simp: mix_def rd_put_at length_put_at)

lemma mix_hide:
  "mix n X D ip g h \<Longrightarrow> p + length bs \<le> n \<Longrightarrow> mix n (X \<union> {p..<p + length bs}) D ip g (put_at p bs h)"
  by (auto simp: mix_def rd_put_at length_put_at)

lemma mix_rd: "mix n X D ip g h \<Longrightarrow> p < n \<Longrightarrow> p \<notin> X \<union> D \<Longrightarrow> rd h p = rd g p"
  by (simp add: mix_def)

lemma mix_gs: "mix n X D ip g h \<Longrightarrow> p + 2 \<le> n \<Longrightarrow> {p..<p + 2} \<inter> (X \<union> D) = {} \<Longrightarrow> gs h p = gs g p"
  unfolding gs_def by (simp add: mix_rd disjoint_iff)

lemma mix_gl: "mix n X D ip g h \<Longrightarrow> p + 4 \<le> n \<Longrightarrow> {p..<p + 4} \<inter> (X \<union> D) = {} \<Longrightarrow> gl h p = gl g p"
  unfolding gl_def by (simp add: mix_rd disjoint_iff)

lemma mix_extend: "mix n X D ip g h \<Longrightarrow> \<forall>i\<in>F. rd ip i = rd g i \<Longrightarrow> mix n X (D \<union> F) ip g h"
  by (auto simp: mix_def)

lemma mix_put2: "mix n X D ip g h \<Longrightarrow> p + 2 \<le> n \<Longrightarrow>
    mix n (X - {p..<p + 2}) (D \<union> {p..<p + 2}) ip g (put_at p (be_putshort (gs ip p)) h)"
  using mix_put [of n X D ip g h p "be_putshort (gs ip p)"]
  by (auto simp: gs_def be_short_get_put less_Suc_eq eval_nat_numeral)

lemma mix_put4: "mix n X D ip g h \<Longrightarrow> p + 4 \<le> n \<Longrightarrow>
    mix n (X - {p..<p + 4}) (D \<union> {p..<p + 4}) ip g (put_at p (be_putlong (gl ip p)) h)"
  using mix_put [of n X D ip g h p "be_putlong (gl ip p)"]
  by (auto simp: gl_def be_long_get_put less_Suc_eq eval_nat_numeral)

lemma mix_same2: "mix n X D ip g h \<Longrightarrow> gs ip p = gs g p \<Longrightarrow> mix n X (D \<union> {p..<p + 2}) ip g h"
  by (rule mix_extend) (auto dest!: gs_eqD simp: atLeastLessThan_def less_Suc_eq le_eq_less_or_eq)

lemma mix_same4: "mix n X D ip g h \<Longrightarrow> gl ip p = gl g p \<Longrightarrow> mix n X (D \<union> {p..<p + 4}) ip g h"
  by (rule mix_extend) (auto dest!: gl_eqD, metis add_less_cancel_left le_iff_add)

section \<open>Decoding what was encoded\<close>

lemma vj_codecD:
  assumes "vj_ok V"
  shows "0 < n \<Longrightarrow> n \<le> 0xffff \<Longrightarrow> DECODEL V (ENCODE V n @ r) f = (f + n, length (ENCODE V n))"
    "0 < n \<Longrightarrow> n \<le> 0xffff \<Longrightarrow> DECODES V (ENCODE V n @ r) k = (k + ucast n, length (ENCODE V n))"
    "DECODES V (ENCODEZ V n @ r) k = (k + ucast n, length (ENCODEZ V n))"
    "DECODEU V (ENCODEZ V n @ r) = (ucast n, length (ENCODEZ V n))"
    "length (ENCODE V n) \<le> 3" "length (ENCODEZ V n) \<le> 3" "length (sts V w) = 2"
  using assms unfolding vj_ok_def vj_codec_def by blast+

lemma ucast_16_32: "(ucast (d :: u16) :: u32) \<le> 0xffff" "d \<noteq> 0 \<Longrightarrow> 0 < (ucast d :: u32)" "ucast (ucast d :: u32) = d"
proof -
  have "unat d < 65536" using unsigned_less [of d] by simp
  then show "(ucast d :: u32) \<le> 0xffff"
    by (simp add: word_le_nat_alt unsigned_ucast_eq take_bit_eq_mod [where 'a = nat])
  show "ucast (ucast d :: u32) = d"
    by (rule bit_word_eqI) (auto simp: bit_simps)
  then show "d \<noteq> 0 \<Longrightarrow> 0 < (ucast d :: u32)"
    by (metis unsigned_0 word_gt_0)
qed

lemma ucast_diff: "ucast ((ucast (a :: u16) :: u32) - ucast b) = a - b"
proof -
  have "ucast (x - y) = (ucast x - ucast y :: u16)" for x y :: u32
  proof transfer
    fix x y :: int
    show "take_bit LENGTH(16) (take_bit LENGTH(32) (x - y)) =
        take_bit LENGTH(16) (take_bit LENGTH(32) x - take_bit LENGTH(32) y)"
      using take_bit_diff [of 16 x y] take_bit_diff [of 16 "take_bit 32 x" "take_bit 32 y"] by simp
  qed
  then show ?thesis by (simp add: ucast_16_32)
qed

lemma mix_fresh2: "mix n X D ip g h \<Longrightarrow> p + 2 \<le> n \<Longrightarrow> {p..<p + 2} \<inter> (X \<union> D) = {} \<Longrightarrow>
    mix n X (D \<union> {p..<p + 2}) ip g (put_at p (be_putshort (gs ip p)) h)"
  using mix_put2 [of n X D ip g h p] by (metis Diff_triv Int_commute Int_Un_distrib Un_empty)

lemma mix_fresh4: "mix n X D ip g h \<Longrightarrow> p + 4 \<le> n \<Longrightarrow> {p..<p + 4} \<inter> (X \<union> D) = {} \<Longrightarrow>
    mix n X (D \<union> {p..<p + 4}) ip g (put_at p (be_putlong (gl ip p)) h)"
  using mix_put4 [of n X D ip g h p] by (metis Diff_triv Int_commute Int_Un_distrib Un_empty)

lemma in_s_ok:
  assumes V: "vj_ok V" and m: "mix n X D ip g h" "p + 2 \<le> n" "{p..<p + 2} \<inter> (X \<union> D) = {}"
    and on: "on \<longleftrightarrow> gs ip p \<noteq> gs g p" "b = (if on then ENCODE V (ucast (gs ip p - gs g p)) else [])" and d: "drop cp buf = b @ r"
  shows "\<exists>h'. in_s V buf on p (h, cp) = (h', cp + length b) \<and> mix n X (D \<union> {p..<p + 2}) ip g h'"
proof (cases on)
  case True
  then have "gs ip p - gs g p \<noteq> 0" using on by simp
  then show ?thesis
    using True on(2) d mix_fresh2 [OF m] mix_gs [OF m] by (simp add: in_s_def vj_codecD(2) [OF V] ucast_16_32)
next
  case False
  then show ?thesis
    using on m mix_same2 [OF m(1), of p] by (simp add: in_s_def)
qed

lemma in_l_ok:
  assumes V: "vj_ok V" and m: "mix n X D ip g h" "p + 4 \<le> n" "{p..<p + 4} \<inter> (X \<union> D) = {}"
    and on: "send_delta V k (gl ip p - gl g p) = Some (k', b)" "on \<longleftrightarrow> gl ip p \<noteq> gl g p" and d: "drop cp buf = b @ r"
  shows "\<exists>h'. in_l V buf on p (h, cp) = (h', cp + length b) \<and> mix n X (D \<union> {p..<p + 4}) ip g h'"
proof (cases on)
  case True
  then have "gl ip p - gl g p \<noteq> 0" using on by simp
  moreover from this have "b = ENCODE V (gl ip p - gl g p)" "gl ip p - gl g p \<le> 0xffff"
    using on(1) by (auto simp: send_delta_def not_less split: if_splits)
  ultimately show ?thesis
    using True d mix_fresh4 [OF m] mix_gl [OF m] by (simp add: in_l_def vj_codecD(1) [OF V] word_gt_0)
next
  case False
  then show ?thesis
    using on m mix_same4 [OF m(1), of p] by (simp add: in_l_def send_delta_def)
qed

lemma in_id_ok:
  assumes V: "vj_ok V" and m: "mix n X D ip g h" "6 \<le> n" "{4..<6} \<inter> (X \<union> D) = {}"
    and b: "b = (if on then ENCODEZ V (ucast (gs ip 4) - ucast (gs g 4)) else [])" and d: "drop cp buf = b @ r"
    and on: "on \<longleftrightarrow> (ucast (gs ip 4) :: u32) - ucast (gs g 4) \<noteq> 1" "on \<longleftrightarrow> changes AND NEW_I V \<noteq> 0"
  shows "\<exists>h'. in_id V buf changes (h, cp) = (h', cp + length b) \<and> mix n X (D \<union> {4..<6}) ip g h'"
proof -
  have g: "gs h 4 = gs g 4" and f: "mix n X (D \<union> {4..<6}) ip g (put_at 4 (be_putshort (gs ip 4)) h)"
    using mix_gs [OF m(1), of 4] mix_fresh2 [OF m(1), of 4] m(2,3) by simp_all
  have one: "gs g 4 + 1 = gs ip 4" if "\<not> on"
    using that on(1) ucast_diff [of "gs ip 4" "gs g 4"] by (simp add: algebra_simps)
  show ?thesis
    using on(2) b d g f one by (cases on) (simp_all add: in_id_def in_s_def vj_codecD(3) [OF V] ucast_diff)
qed

section \<open>The flags\<close>

text \<open>The acknowledgement is there, no other control bit, and the reserved bits are 0.\<close>

abbreviation plain_flags :: "u8 \<Rightarrow> bool" where
  "plain_flags f \<equiv> f AND 0xD7 = 0x10"

lemma plain_flags_cases:
  assumes "plain_flags f"
  shows "f = 0x10 \<or> f = 0x18 \<or> f = 0x30 \<or> f = 0x38"
proof -
  have "list_all (\<lambda>n. plain_flags (word_of_nat n) \<longrightarrow> n = 0x10 \<or> n = 0x18 \<or> n = 0x30 \<or> n = 0x38) [0..<256]"
    by code_simp
  moreover have "unat f < 256" using unsigned_less [of f] by simp
  ultimately have "unat f = 0x10 \<or> unat f = 0x18 \<or> unat f = 0x30 \<or> unat f = 0x38"
    using assms by (simp add: list_all_iff)
  then show ?thesis by (simp add: word_unat_eq_iff)
qed

definition push_flag :: "u8 \<Rightarrow> u8 \<Rightarrow> u8" where
  "push_flag f g = (if f AND 8 \<noteq> 0 then g OR 8 else g AND NOT 8)"

lemma push_flag:
  assumes "plain_flags f" "plain_flags g"
  shows "f AND 32 \<noteq> 0 \<Longrightarrow> push_flag f g OR 32 = f" "f AND 32 = 0 \<Longrightarrow> push_flag f g AND NOT 32 = f"
    "f AND 32 = 0 \<Longrightarrow> g AND 32 = 0 \<Longrightarrow> push_flag f g = f"
  using plain_flags_cases [OF assms(1)] plain_flags_cases [OF assms(2)] by (auto simp: push_flag_def)

lemma vj_masksD:
  assumes "vj_ok V"
  shows "NEW_C V = 0x40" "NEW_I V = 0x20" "TCP_PUSH_BIT V = 0x10" "NEW_S V = 8" "NEW_A V = 4" "NEW_W V = 2" "NEW_U V = 1"
    "SPECIAL_I V = 0xb" "SPECIAL_D V = 0xf" "SPECIALS_MASK V = 0xf" "TH_FIN V = 1" "TH_SYN V = 2" "TH_RST V = 4"
    "TH_PUSH V = 8" "TH_ACK V = 16" "TH_URG V = 32" "IPPROTO_TCP V = 6" "0 < MAX_STATES V" "MAX_STATES V \<le> 255" "120 \<le> MAX_HDR V"
  using assms by (simp_all add: vj_ok_def vj_masks_def)

lemma in_u_ok:
  assumes V: "vj_ok V" and m: "mix n (X \<union> {t + 13..<t + 14}) D ip g h" "t + 20 \<le> n"
    "{t + 18..<t + 20} \<inter> (X \<union> D) = {}" "t + 13 \<notin> X"
    and f: "plain_flags (rd ip (t + 13))" "plain_flags (rd g (t + 13))" "rd h (t + 13) = push_flag (rd ip (t + 13)) (rd g (t + 13))"
    and u: "send_urp V ip g t = Some (mu, bu)" "changes AND NEW_U V \<noteq> 0 \<longleftrightarrow> mu \<noteq> 0" and d: "drop cp buf = bu @ r"
  shows "\<exists>h'. in_u V buf changes t (h, cp) = (h', cp + length bu) \<and>
     mix n X (D \<union> {t + 13..<t + 14} \<union> {t + 18..<t + 20}) ip g h'"
proof -
  have "{t + 13..<t + 14} = {t + 13}" by auto
  then have X: "X \<union> {t + 13..<t + 14} - {t + 13..<t + 14} = X" using m(4) by auto
  have flag: "mix n X (D \<union> {t + 13..<t + 14}) ip g (put_at (t + 13) [rd ip (t + 13)] h)"
    using mix_put [OF m(1), of "t + 13" "[rd ip (t + 13)]"] m(2) X by (simp add: add.commute)
  note V = vj_masksD [OF V] vj_codecD [OF V]
  have iv: "{t + 18..<t + 18 + 2} = {t + 18..<t + 20}" by auto
  have "{t + 18..<t + 20} \<inter> {t + 13..<t + 14} = {}" by auto
  then have fresh: "{t + 18..<t + 18 + 2} \<inter> (X \<union> (D \<union> {t + 13..<t + 14})) = {}"
    unfolding iv using m(3) by blast
  show ?thesis
  proof (cases "rd ip (t + 13) AND 32 = 0")
    case True
    then have "mu = 0" "bu = []" "gs ip (t + 18) = gs g (t + 18)"
      using u(1) by (auto simp: send_urp_def V split: if_splits)
    then show ?thesis
      using u(2) f push_flag(2) [OF f(1,2) True] mix_same2 [OF flag, of "t + 18"] unfolding iv
      by (simp add: in_u_def V)
  next
    case False
    then have "mu = 1" "bu = ENCODEZ V (ucast (gs ip (t + 18)))"
      using u(1) by (auto simp: send_urp_def V split: if_splits)
    then show ?thesis
      using u(2) f(3) d push_flag(1) [OF f(1,2) False] mix_fresh2 [OF flag, of "t + 18"] m(2) fresh unfolding iv
      by (simp add: in_u_def V ucast_16_32)
  qed
qed

section \<open>All changes\<close>

lemma drop_next: "drop cp buf = b @ r \<Longrightarrow> drop (cp + length b) buf = r"
  by (metis add.commute append_eq_conv_conj drop_drop)

text \<open>The positions of the TCP header that a set of changes restores.\<close>

abbreviation restored :: "nat \<Rightarrow> nat set" where
  "restored t \<equiv> {t + 4..<t + 12} \<union> {t + 13..<t + 16} \<union> {t + 18..<t + 20}"

lemma in_fields_ok:
  assumes V: "vj_ok V" and n: "20 \<le> t" "t + 20 \<le> n" and m: "mix n ({10..<12} \<union> {t + 13..<t + 14}) {t + 16..<t + 18} ip g h"
    and f: "plain_flags (rd ip (t + 13))" "plain_flags (rd g (t + 13))" "rd h (t + 13) = push_flag (rd ip (t + 13)) (rd g (t + 13))"
    and u: "send_urp V ip g t = Some (mu, bu)" and w: "send_win V ip g t = (mw, bw)"
    and a: "send_delta V (NEW_A V) (gl ip (t + 8) - gl g (t + 8)) = Some (ma, ba)"
    and s: "send_delta V (NEW_S V) (gl ip (t + 4) - gl g (t + 4)) = Some (ms, bs)"
    and c: "changes AND 0xf = mu OR mw OR ma OR ms" and d: "drop cp buf = (bu @ bw @ ba @ bs) @ r"
  shows "\<exists>h'. in_l V buf (changes AND NEW_S V \<noteq> 0) (t + 4) (in_l V buf (changes AND NEW_A V \<noteq> 0) (t + 8)
      (in_s V buf (changes AND NEW_W V \<noteq> 0) (t + 14) (in_u V buf changes t (h, cp)))) = (h', cp + length (bu @ bw @ ba @ bs)) \<and>
    mix n {10..<12} ({t + 16..<t + 18} \<union> restored t) ip g h'"
proof -
  note V' = vj_masksD [OF V]
  have mu: "mu = (if rd ip (t + 13) AND 32 \<noteq> 0 then 1 else 0)" using u by (auto simp: send_urp_def V' split: if_splits)
  have mw: "mw = (if gs ip (t + 14) \<noteq> gs g (t + 14) then 2 else 0)"
    "bw = (if gs ip (t + 14) \<noteq> gs g (t + 14) then ENCODE V (ucast (gs ip (t + 14) - gs g (t + 14))) else [])"
    using w by (auto simp: send_win_def V' Let_def split: if_splits)
  have ma: "ma = (if gl ip (t + 8) \<noteq> gl g (t + 8) then 4 else 0)" using a by (auto simp: send_delta_def V' split: if_splits)
  have ms: "ms = (if gl ip (t + 4) \<noteq> gl g (t + 4) then 8 else 0)" using s by (auto simp: send_delta_def V' split: if_splits)
  have part: "changes AND k = (changes AND 0xf) AND k" if "0xf AND k = k" for k
    using that by (simp add: and.assoc)
  have on: "(changes AND 1 \<noteq> 0) = (mu \<noteq> 0)" "(changes AND 2 \<noteq> 0) = (gs ip (t + 14) \<noteq> gs g (t + 14))"
    "(changes AND 4 \<noteq> 0) = (gl ip (t + 8) \<noteq> gl g (t + 8))" "(changes AND 8 \<noteq> 0) = (gl ip (t + 4) \<noteq> gl g (t + 4))"
    using part [of 1] part [of 2] part [of 4] part [of 8] unfolding c mu mw ma ms by auto
  let ?D = "{t + 16..<t + 18}" and ?X = "{10..<12} :: nat set"
  have dis: "{t + 18..<t + 20} \<inter> (?X \<union> ?D) = {}"
    "{t + 14..<t + 14 + 2} \<inter> (?X \<union> (?D \<union> {t + 13..<t + 14} \<union> {t + 18..<t + 20})) = {}"
    "{t + 8..<t + 8 + 4} \<inter> (?X \<union> (?D \<union> {t + 13..<t + 14} \<union> {t + 18..<t + 20} \<union> {t + 14..<t + 14 + 2})) = {}"
    "{t + 4..<t + 4 + 4} \<inter> (?X \<union> (?D \<union> {t + 13..<t + 14} \<union> {t + 18..<t + 20} \<union> {t + 14..<t + 14 + 2} \<union> {t + 8..<t + 8 + 4})) = {}"
    using n by auto
  have d1: "drop cp buf = bu @ bw @ ba @ bs @ r" using d by simp
  obtain h1 where h1: "in_u V buf changes t (h, cp) = (h1, cp + length bu)"
    "mix n ?X (?D \<union> {t + 13..<t + 14} \<union> {t + 18..<t + 20}) ip g h1"
    using in_u_ok [OF V m n(2) dis(1) _ f u _ d1, of changes] on(1) n(1) by (auto simp: V')
  note d2 = drop_next [OF d1]
  obtain h2 where h2: "in_s V buf (changes AND 2 \<noteq> 0) (t + 14) (h1, cp + length bu) = (h2, cp + length bu + length bw)"
    "mix n ?X (?D \<union> {t + 13..<t + 14} \<union> {t + 18..<t + 20} \<union> {t + 14..<t + 14 + 2}) ip g h2"
    using in_s_ok [OF V h1(2) _ dis(2) on(2) _ d2] mw(2) on(2) n by auto
  note d3 = drop_next [OF d2]
  obtain h3 where h3: "in_l V buf (changes AND 4 \<noteq> 0) (t + 8) (h2, cp + length bu + length bw) = (h3, cp + length bu + length bw + length ba)"
    "mix n ?X (?D \<union> {t + 13..<t + 14} \<union> {t + 18..<t + 20} \<union> {t + 14..<t + 14 + 2} \<union> {t + 8..<t + 8 + 4}) ip g h3"
    using in_l_ok [OF V h2(2) _ dis(3) a on(3) d3] n by auto
  note d4 = drop_next [OF d3]
  obtain h4 where h4: "in_l V buf (changes AND 8 \<noteq> 0) (t + 4) (h3, cp + length bu + length bw + length ba) =
      (h4, cp + length bu + length bw + length ba + length bs)"
    "mix n ?X (?D \<union> {t + 13..<t + 14} \<union> {t + 18..<t + 20} \<union> {t + 14..<t + 14 + 2} \<union> {t + 8..<t + 8 + 4} \<union> {t + 4..<t + 4 + 4}) ip g h4"
    using in_l_ok [OF V h3(2) _ dis(4) s on(4) d4] n by auto
  have "?D \<union> {t + 13..<t + 14} \<union> {t + 18..<t + 20} \<union> {t + 14..<t + 14 + 2} \<union> {t + 8..<t + 8 + 4} \<union> {t + 4..<t + 4 + 4} = ?D \<union> restored t"
    by auto
  then show ?thesis
    using h4 unfolding V' h1(1) h2(1) h3(1) by (simp add: add.assoc)
qed

text \<open>The outcomes of the switch: the changes as they are, or one of the two special cases.\<close>

lemma special_cases:
  assumes V: "vj_ok V" and sp: "special V ip g n m b dS dA = Some (c, bs)"
    and i: "m = 12 \<Longrightarrow> dS = dA \<Longrightarrow> dS = ucast (gs g 2) - word_of_nat n \<Longrightarrow> c = 0xb \<Longrightarrow> bs = [] \<Longrightarrow> P"
    and d: "m = 8 \<Longrightarrow> dS = ucast (gs g 2) - word_of_nat n \<Longrightarrow> c = 0xf \<Longrightarrow> bs = [] \<Longrightarrow> P"
    and as_is: "c = m \<Longrightarrow> bs = b \<Longrightarrow> m \<noteq> 0xb \<Longrightarrow> m \<noteq> 0xf \<Longrightarrow> P"
  shows P
  using sp i d as_is by (simp add: special_def vj_masksD [OF V] Let_def split: if_splits)

lemma in_changes_ok:
  assumes V: "vj_ok V" and t: "t = 4 * ip_hl ip" and n: "20 \<le> t" "t + 20 \<le> n"
    and m: "mix n ({10..<12} \<union> {t + 13..<t + 14}) {t + 16..<t + 18} ip g h"
    and f: "plain_flags (rd ip (t + 13))" "plain_flags (rd g (t + 13))" "rd h (t + 13) = push_flag (rd ip (t + 13)) (rd g (t + 13))"
    and urg: "rd ip (t + 13) AND 32 \<noteq> 0 \<longleftrightarrow> gs ip (t + 18) \<noteq> 0" "rd g (t + 13) AND 32 \<noteq> 0 \<longleftrightarrow> gs g (t + 18) \<noteq> 0"
    and all: "all_changes V ip g n = Some (c, bs)" "changes AND 0xf = c" and d: "drop cp buf = bs @ r"
  shows "\<exists>h'. in_changes V buf changes t (ucast (gs g 2) - word_of_nat n) (h, cp) = (h', cp + length bs) \<and>
    mix n {10..<12} ({t + 16..<t + 18} \<union> restored t) ip g h'"
proof -
  let ?S = "gl ip (t + 4) - gl g (t + 4)" and ?A = "gl ip (t + 8) - gl g (t + 8)" and ?D = "{t + 16..<t + 18}"
  note V' = vj_masksD [OF V]
  obtain mu bu mw bw ma ba ms bs' where u: "send_urp V ip g t = Some (mu, bu)" and w: "send_win V ip g t = (mw, bw)"
    and a: "send_delta V (NEW_A V) ?A = Some (ma, ba)" and s: "send_delta V (NEW_S V) ?S = Some (ms, bs')"
    and sp: "special V ip g n (mu OR mw OR ma OR ms) (bu @ bw @ ba @ bs') ?S ?A = Some (c, bs)"
    using all(1) by (auto simp: all_changes_def t Let_def split: option.splits prod.splits)
  have mu: "mu = (if rd ip (t + 13) AND 32 \<noteq> 0 then 1 else 0)" using u by (auto simp: send_urp_def V' split: if_splits)
  have mw: "mw = (if gs ip (t + 14) \<noteq> gs g (t + 14) then 2 else 0)"
    using w by (auto simp: send_win_def V' Let_def split: if_splits)
  have ma: "ma = (if ?A \<noteq> 0 then 4 else 0)" using a by (auto simp: send_delta_def V' split: if_splits)
  have ms: "ms = (if ?S \<noteq> 0 then 8 else 0)" using s by (auto simp: send_delta_def V' split: if_splits)
  have calm: "mix n {10..<12} (?D \<union> {t + 13..<t + 14} \<union> {t + 18..<t + 20} \<union> {t + 14..<t + 14 + 2}) ip g h"
    if "mu = 0" "mw = 0"
  proof -
    have *: "rd ip (t + 13) AND 32 = 0" "gs ip (t + 18) = gs g (t + 18)" "gs ip (t + 14) = gs g (t + 14)"
      using that mu mw u by (auto simp: send_urp_def V' split: if_splits)
    then have "push_flag (rd ip (t + 13)) (rd g (t + 13)) = rd ip (t + 13)"
      using push_flag(3) [OF f(1,2)] urg by auto
    moreover have "{t + 13..<t + 14} = {t + 13}" by auto
    ultimately have "mix n {10..<12} (?D \<union> {t + 13..<t + 14}) ip g h"
      using m f(3) by (auto simp: mix_def)
    then have "mix n {10..<12} (?D \<union> {t + 13..<t + 14} \<union> {t + 18..<t + 18 + 2} \<union> {t + 14..<t + 14 + 2}) ip g h"
      using * by (intro mix_same2)
    then show ?thesis by (simp add: add.commute)
  qed
  let ?C = "?D \<union> {t + 13..<t + 14} \<union> {t + 18..<t + 20} \<union> {t + 14..<t + 14 + 2}"
  have dis: "{t + 8..<t + 8 + 4} \<inter> ({10..<12} \<union> ?C) = {}" "{t + 4..<t + 4 + 4} \<inter> ({10..<12} \<union> (?C \<union> {t + 8..<t + 8 + 4})) = {}"
    and all_pos: "?C \<union> {t + 8..<t + 8 + 4} \<union> {t + 4..<t + 4 + 4} = ?D \<union> restored t"
    using n by auto
  have add: "mix n {10..<12} (E \<union> {p..<p + 4}) ip g (add_l p (gl ip p - gl g p) k)"
    if "mix n {10..<12} E ip g k" "p + 4 \<le> n" "{p..<p + 4} \<inter> ({10..<12} \<union> E) = {}" for E p k
    using mix_fresh4 [OF that] mix_gl [OF that] by (simp add: add_l_def)
  show ?thesis
    using V sp
  proof (rule special_cases)
    assume c: "mu OR mw OR ma OR ms = 12" and S: "?S = ?A" "?S = ucast (gs g 2) - word_of_nat n" and "c = 0xb" "bs = []"
    have "mu = 0" "mw = 0" using c unfolding mu mw ma ms by (auto split: if_splits)
    then have "mix n {10..<12} (?C \<union> {t + 8..<t + 8 + 4} \<union> {t + 4..<t + 4 + 4}) ip g (add_l (t + 4) ?S (add_l (t + 8) ?A h))"
      using n by (intro add calm dis) simp_all
    then show ?thesis
      using all(2) \<open>c = 0xb\<close> \<open>bs = []\<close> S unfolding all_pos by (simp add: in_changes_def V')
  next
    assume c: "mu OR mw OR ma OR ms = 8" and S: "?S = ucast (gs g 2) - word_of_nat n" and "c = 0xf" "bs = []"
    have m: "mu = 0" "mw = 0" "?A = 0" using c unfolding mu mw ma ms by (auto split: if_splits)
    have "mix n {10..<12} (?C \<union> {t + 8..<t + 8 + 4} \<union> {t + 4..<t + 4 + 4}) ip g (add_l (t + 4) ?S h)"
      using n m by (intro add dis mix_same4 calm) simp_all
    then show ?thesis
      using all(2) \<open>c = 0xf\<close> \<open>bs = []\<close> S unfolding all_pos by (simp add: in_changes_def V')
  next
    assume c: "c = mu OR mw OR ma OR ms" and bs: "bs = bu @ bw @ ba @ bs'" and "mu OR mw OR ma OR ms \<noteq> 0xb" "mu OR mw OR ma OR ms \<noteq> 0xf"
    moreover have "drop cp buf = (bu @ bw @ ba @ bs') @ r" using d bs by simp
    ultimately show ?thesis
      using in_fields_ok [OF V n m f u w a s, of changes cp buf r] all(2) by (simp add: in_changes_def V')
  qed
qed

section \<open>A compressed packet\<close>

definition hlen_of :: "bytes \<Rightarrow> nat" where
  "hlen_of b = 4 * (ip_hl b + th_off b (4 * ip_hl b))"

text \<open>
  A TCP/IP header without the freedoms compression does not transmit: the reserved bits are 0, and
  the urgent pointer is 0 exactly when there is no urgent data.
\<close>

definition plain_hdr :: "bytes \<Rightarrow> bool" where
  "plain_hdr b \<longleftrightarrow> (let t = 4 * ip_hl b in
     5 \<le> ip_hl b \<and> 5 \<le> th_off b t \<and> rd b 9 = 6 \<and> rd b (t + 12) AND 0xf = 0 \<and> rd b (t + 13) AND 0xc0 = 0 \<and>
     (rd b (t + 13) AND 32 \<noteq> 0 \<longleftrightarrow> gs b (t + 18) \<noteq> 0))"

text \<open>A packet with such a header, the right length and the right checksum.\<close>

definition tcp_packet :: "vj_hdr \<Rightarrow> bytes \<Rightarrow> bool" where
  "tcp_packet V ip \<longleftrightarrow> plain_hdr ip \<and> hlen_of ip \<le> length ip \<and> unat (gs ip 2) = length ip \<and>
     [rd ip 10, rd ip 11] = sts V (hdr_cksum V (take (4 * ip_hl ip) (put_at 10 [0, 0] ip)))"

lemma hl_le: "ip_hl b \<le> 15" "th_off b i \<le> 15"
proof -
  have "rd b 0 AND 0xf \<le> 0xf" by (rule word_and_le1)
  then show "ip_hl b \<le> 15" by (simp add: ip_hl_def word_le_nat_alt)
  have "unat (rd b (i + 12)) < 256" using unsigned_less [of "rd b (i + 12)"] by simp
  then show "th_off b i \<le> 15"
    by (simp add: th_off_def unsigned_drop_bit_eq drop_bit_eq_div [where 'a = nat] take_bit_eq_mod [where 'a = nat])
qed

lemma hlen_le: "hlen_of b \<le> 120"
proof -
  have "4 * (x + y) \<le> 120" if "x \<le> 15" "y \<le> 15" for x y :: nat using that by simp
  from this [OF hl_le] show ?thesis unfolding hlen_of_def .
qed

lemma nibbles: "x = push_bit 4 (drop_bit 4 x) OR (x AND 0xf)" for x :: u8
proof -
  have "x AND 0xf = take_bit 4 x" by (simp add: take_bit_eq_mask mask_numeral)
  then show ?thesis using bits_ident [of 4 x] by (simp add: disjunctive_add bit_simps)
qed

lemma th_off_nibble:
  assumes "th_off a i = th_off b i" "rd a (i + 12) AND 0xf = 0" "rd b (i + 12) AND 0xf = 0"
  shows "rd a (i + 12) = rd b (i + 12)"
proof -
  have "drop_bit 4 (rd a (i + 12)) = drop_bit 4 (rd b (i + 12))"
    using assms(1) by (simp add: th_off_def word_unat_eq_iff)
  then show ?thesis
    using nibbles [of "rd a (i + 12)"] nibbles [of "rd b (i + 12)"] assms(2,3) by simp
qed


text \<open>What is not restored is the same in both headers.\<close>

lemma rd_take_drop:
  assumes "take k (drop p a) = take k (drop p b)" "p + k \<le> length a" "p + k \<le> length b" "p \<le> i" "i < p + k"
  shows "rd a i = rd b i"
proof -
  have "take k (drop p a) ! (i - p) = take k (drop p b) ! (i - p)" using assms(1) by simp
  then show ?thesis using assms(2-5) by (simp add: rd_def)
qed

lemma expected_rest:
  assumes e: "expected ip g" "same_conn ip g" and p: "plain_hdr ip" "plain_hdr g"
    and len: "hlen_of ip \<le> length ip" "hlen_of ip \<le> length g" and i: "i < hlen_of ip"
    and t: "t = 4 * ip_hl ip" and no: "i \<notin> {2..<6} \<union> {10..<12} \<union> {t + 16..<t + 18} \<union> restored t"
  shows "rd ip i = rd g i"
proof -
  let ?d = "th_off ip t"
  have hl: "ip_hl g = ip_hl ip" using gs_eqD [of ip 0 g 0] e(1) by (simp add: expected_def ip_hl_def Let_def)
  have b: "5 \<le> ip_hl ip" "5 \<le> ?d" and n: "hlen_of ip = t + 4 * ?d"
    using p(1) by (simp_all add: plain_hdr_def hlen_of_def t Let_def)
  have top: "rd ip j = rd g j" if "j \<in> {0, 1, 6, 7, 8, 9}" for j
    using that e(1) gs_eqD [of ip 0 g 0] gs_eqD [of ip 6 g 6] gs_eqD [of ip 8 g 8] by (auto simp: expected_def Let_def)
  have addr: "rd ip j = rd g j" if "12 \<le> j" "j < 20" for j
  proof (cases "j < 16")
    case True
    then show ?thesis using that e(2) gl_eqD [of ip 12 g 12] by (auto simp: same_conn_def le_iff_add)
  next
    case False
    then have "16 \<le> j" by simp
    then show ?thesis using that(2) e(2) gl_eqD [of ip 16 g 16] by (auto simp: same_conn_def le_iff_add)
  qed
  have port: "rd ip j = rd g j" if "t \<le> j" "j < t + 4" for j
    using that e(2) gl_eqD [of ip t g t] by (auto simp: same_conn_def hl t le_iff_add)
  have opt: "rd ip j = rd g j" if "20 \<le> j" "j < t" for j
    using that e(1) b len n t
    by (intro rd_take_drop [of "4 * (ip_hl ip - 5)" 20]) (auto simp: expected_def Let_def)
  have topt: "rd ip j = rd g j" if "t + 20 \<le> j" "j < t + 4 * ?d" for j
    using that e(1) b len n t
    by (intro rd_take_drop [of "4 * (?d - 5)" "t + 20"]) (auto simp: expected_def Let_def)
  have nib: "rd ip (t + 12) = rd g (t + 12)"
    using e(1) p hl by (intro th_off_nibble) (simp_all add: expected_def plain_hdr_def t Let_def)
  consider "i \<in> {0, 1, 6, 7, 8, 9}" | "12 \<le> i" "i < 20" | "20 \<le> i" "i < t" | "t \<le> i" "i < t + 4" | "i = t + 12" | "t + 20 \<le> i"
    using no b t by fastforce
  then show ?thesis
    using top addr opt port nib topt i n by cases auto
qed

text \<open>
  The saved header of the receiver: the header of the sender, with the checksum cleared.
\<close>

definition saved :: "nat \<Rightarrow> bytes \<Rightarrow> bytes \<Rightarrow> bool" where
  "saved n g h \<longleftrightarrow> mix n {10..<12} {} g g h \<and> rd h 10 = 0 \<and> rd h 11 = 0"

lemma saved_nth:
  assumes "saved n g h" "i < n" "n \<le> length g" "12 \<le> n"
  shows "h ! i = put_at 10 [0, 0] g ! i"
proof -
  consider "i < 10 \<or> 12 \<le> i" | "i = 10" | "i = 11" by linarith
  then have "rd h i = rd (put_at 10 [0, 0] g) i"
    using assms by cases (auto simp: saved_def mix_def rd_put_at)
  then show ?thesis using assms by (simp add: saved_def mix_def rd_def)
qed

lemma saved_top:
  assumes "saved n ip h" "n \<le> length ip" "12 \<le> n"
  shows "take n h = take n (put_at 10 [0, 0] ip)"
  using assms saved_nth [OF assms(1)] by (intro nth_equalityI) (auto simp: saved_def mix_def)

lemma put_at_undo:
  assumes "length bs = 2" "p + 2 \<le> length h"
  shows "put_at p [rd h p, rd h (p + 1)] (put_at p bs h) = h"
proof -
  have "drop p h = [rd h p, rd h (p + 1)] @ drop (p + 2) h"
    using assms(2) by (simp add: rd_def Cons_nth_drop_Suc)
  then have "h = take p h @ [rd h p, rd h (p + 1)] @ drop (p + 2) h"
    by (metis append_take_drop_id)
  moreover have "put_at p [rd h p, rd h (p + 1)] (put_at p bs h) = take p h @ [rd h p, rd h (p + 1)] @ drop (p + 2) h"
    using assms by (simp add: put_at_def)
  ultimately show ?thesis by simp
qed

text \<open>The checksum is put back.\<close>

lemma with_checksum:
  assumes "tcp_packet V ip" "saved (hlen_of ip) ip h"
  shows "put_at 10 (sts V (hdr_cksum V (take (4 * ip_hl ip) (take (hlen_of ip) h)))) (take (hlen_of ip) h @ drop (hlen_of ip) ip) = ip"
proof -
  let ?n = "hlen_of ip"
  have n: "12 \<le> ?n" "4 * ip_hl ip \<le> ?n" "?n \<le> length ip"
    using assms(1) by (simp_all add: tcp_packet_def plain_hdr_def hlen_of_def Let_def)
  have top: "take ?n h = take ?n (put_at 10 [0, 0] ip)"
    by (rule saved_top [OF assms(2) n(3,1)])
  have drop: "drop ?n ip = drop ?n (put_at 10 [0, 0] ip)"
    using n by (simp add: drop_put_at)
  have "put_at 10 [rd ip 10, rd ip 11] (put_at 10 [0, 0] ip) = ip"
    using n put_at_undo [of "[0, 0]" 10 ip] by simp
  moreover have "sts V (hdr_cksum V (take (4 * ip_hl ip) (put_at 10 [0, 0] ip))) = [rd ip 10, rd ip 11]"
    using assms(1) by (simp add: tcp_packet_def)
  ultimately show ?thesis
    using n(2) unfolding top drop append_take_drop_id by (simp add: min_def)
qed

lemma change_bits:
  fixes c :: u8
  assumes c: "c AND 0xf = c" and ch: "ch = c OR (if i then 0x20 else 0) OR (if p then 0x10 else 0)"
    and changes: "changes = ch \<or> changes = ch OR 0x40"
  shows "changes AND 0xf = c" "changes AND 0x20 \<noteq> 0 \<longleftrightarrow> i" "changes AND 0x10 \<noteq> 0 \<longleftrightarrow> p" "ch AND 0x40 = 0"
proof -
  have "c AND 0x20 = (c AND 0xf) AND 0x20" "c AND 0x10 = (c AND 0xf) AND 0x10" "c AND 0x40 = (c AND 0xf) AND 0x40"
    unfolding c by (rule refl)+
  then have z: "c AND 0x20 = 0" "c AND 0x10 = 0" "c AND 0x40 = 0"
    unfolding and.assoc by simp_all
  then show "ch AND 0x40 = 0"
    unfolding ch by (auto simp: bit.conj_disj_distrib2)
  show "changes AND 0xf = c" "changes AND 0x20 \<noteq> 0 \<longleftrightarrow> i" "changes AND 0x10 \<noteq> 0 \<longleftrightarrow> p"
    using changes unfolding ch by (cases i; cases p; auto simp: bit.conj_disj_distrib2 c z)+
qed

lemma all_changes_mask:
  assumes V: "vj_ok V" and "all_changes V ip g n = Some (c, bs)"
  shows "c AND 0xf = c"
proof -
  obtain mu bu mw bw ma ba ms bs' dS dA b where "send_urp V ip g (4 * ip_hl ip) = Some (mu, bu)"
    "send_win V ip g (4 * ip_hl ip) = (mw, bw)" "send_delta V (NEW_A V) dA = Some (ma, ba)" "send_delta V (NEW_S V) dS = Some (ms, bs')"
    and sp: "special V ip g n (mu OR mw OR ma OR ms) b dS dA = Some (c, bs)"
    using assms(2) by (auto simp: all_changes_def Let_def split: option.splits prod.splits)
  then have m: "mu \<in> {0, 1}" "mw \<in> {0, 2}" "ma \<in> {0, 4}" "ms \<in> {0, 8}"
    by (auto simp: send_urp_def send_win_def send_delta_def vj_masksD [OF V] Let_def split: if_splits)
  show ?thesis
    using V sp by (rule special_cases) (use m in auto)
qed

text \<open>Nothing is written before the TCP header but the identification and the length.\<close>

definition below :: "nat \<Rightarrow> bytes \<Rightarrow> bytes \<Rightarrow> bool" where
  "below t h h' \<longleftrightarrow> length h' = length h \<and> (\<forall>i<t. rd h' i = rd h i)"

lemma below_put: "below t h h' \<Longrightarrow> t \<le> p \<Longrightarrow> p + length bs \<le> length h \<Longrightarrow> below t h (put_at p bs h')"
  by (simp add: below_def rd_put_at)

lemma below_in:
  assumes "t + 20 \<le> length h" "below t h (fst hc)"
  shows "t \<le> p \<Longrightarrow> p + 2 \<le> length h \<Longrightarrow> below t h (fst (in_s V buf on p hc))"
    "t \<le> p \<Longrightarrow> p + 4 \<le> length h \<Longrightarrow> below t h (fst (in_l V buf on p hc))"
    "below t h (fst (in_u V buf c t hc))"
    "t \<le> p \<Longrightarrow> p + 4 \<le> length h \<Longrightarrow> below t h (add_l p d (fst hc))"
  using assms
  by (auto simp: in_s_def in_l_def in_u_def add_l_def length_be_putshort be_putlong_def Let_def split: prod.split intro!: below_put)

lemma below_in_changes:
  assumes "t + 20 \<le> length h"
  shows "below t h (fst (in_changes V buf c t ld (h, cp)))"
proof -
  have "below t h (fst (h, cp))" by (simp add: below_def)
  then show ?thesis
    using assms below_in(4) [OF assms, of "(add_l (t + 8) ld h, cp)" "t + 4" ld] below_in(4) [OF assms, of "(h, cp)" "t + 8" ld]
      below_in(4) [OF assms, of "(h, cp)" "t + 4" ld]
    by (auto simp: in_changes_def Let_def intro!: below_in)
qed

lemma in_id_form: "\<exists>x k. in_id V buf c (h, cp) = (put_at 4 (be_putshort x) h, cp + k)"
  by (auto simp: in_id_def in_s_def split: prod.split)

text \<open>The checksum and the flags, which come first.\<close>

lemma open_header:
  assumes m0: "mix n {10..<12} {} ip g r" and tn: "20 \<le> t" "t + 20 \<le> n"
    and h1: "h1 = put_at (t + 16) (be_putshort (gs ip (t + 16))) r" and h2: "h2 = put_at (t + 13) [v] h1"
  shows "mix n ({10..<12} \<union> {t + 13..<t + 14}) {t + 16..<t + 18} ip g h2" "rd h2 (t + 13) = v" "rd h1 (t + 13) = rd g (t + 13)"
    "length h2 = length r" "below 12 r h2" "gs h2 2 = gs g 2"
proof -
  have nr: "n \<le> length r" using m0 by (simp add: mix_def)
  have dis: "{t + 16..<t + 16 + 2} \<inter> ({10..<12} \<union> {}) = {}" "{2..<4} \<inter> ({10..<12} \<union> {t + 13..<t + 14} \<union> {t + 16..<t + 18}) = {}"
    using tn by auto
  have m1: "mix n {10..<12} {t + 16..<t + 18} ip g h1" and b1: "length h1 = length r" "below 12 r h1"
    using mix_fresh2 [OF m0 _ dis(1)] tn nr by (simp_all add: h1 length_be_putshort below_def rd_put_at add.commute)
  show m2: "mix n ({10..<12} \<union> {t + 13..<t + 14}) {t + 16..<t + 18} ip g h2"
    using mix_hide [OF m1, of "t + 13" "[v]"] tn by (simp add: h2 add.commute)
  show "rd h2 (t + 13) = v" "rd h1 (t + 13) = rd g (t + 13)" "length h2 = length r" "below 12 r h2"
    using b1 tn nr mix_rd [OF m1, of "t + 13"] by (simp_all add: h2 rd_put_at below_def)
  show "gs h2 2 = gs g 2" using mix_gs [OF m2, of 2] dis(2) tn by simp
qed

text \<open>A header with everything restored is the header of the packet.\<close>

lemma close_header:
  assumes m: "mix (hlen_of ip) {10..<12} ({t + 16..<t + 18} \<union> restored t \<union> {4..<6} \<union> {2..<4}) ip g h"
    and e: "expected ip g" "same_conn ip g" and ip: "tcp_packet V ip" and g: "plain_hdr g" "hlen_of ip \<le> length g"
    and t: "t = 4 * ip_hl ip" and z: "rd h 10 = 0" "rd h 11 = 0"
  shows "saved (hlen_of ip) ip h"
proof -
  have "rd h i = rd ip i" if i: "i < hlen_of ip" "i \<notin> {10..<12}" for i
  proof (cases "i \<in> {t + 16..<t + 18} \<union> restored t \<union> {4..<6} \<union> {2..<4}")
    case True
    then show ?thesis using m i by (simp add: mix_def)
  next
    case False
    moreover have "rd ip i = rd g i"
      using expected_rest [OF e _ g(1) _ g(2) i(1) t] ip i False by (auto simp: tcp_packet_def)
    ultimately show ?thesis using m i by (simp add: mix_def)
  qed
  then show ?thesis using m z by (auto simp: saved_def mix_def)
qed

lemma restore_ok:
  assumes V: "vj_ok V" and ip: "tcp_packet V ip" "plain_flags (rd ip (4 * ip_hl ip + 13))"
    and g: "plain_hdr g" "plain_flags (rd g (4 * ip_hl g + 13))" "hlen_of ip \<le> length g"
    and e: "expected ip g" "same_conn ip g"
    and cb: "all_changes V ip g (hlen_of ip) = Some cb" "with_id V ip g cb = (ch, new_seq)" "changes = ch \<or> changes = ch OR 0x40"
    and buf: "drop cp buf = be_putshort (gs ip (4 * ip_hl ip + 16)) @ new_seq @ drop (hlen_of ip) ip"
    and k: "k = unat (last_recv sl)" "cs = rstate sl ! k" "cs_hlen cs = hlen_of ip" "saved (hlen_of ip) g (cs_hdr cs)"
  shows "\<exists>h. restore V buf changes cp sl = (Some ip, sl\<lparr>rstate := (rstate sl)[k := cs\<lparr>cs_hdr := h\<rparr>]\<rparr>) \<and>
     saved (hlen_of ip) ip h \<and> length h = length (cs_hdr cs)"
proof -
  define t n r where "t = 4 * ip_hl ip" and "n = hlen_of ip" and "r = cs_hdr cs"
  note V' = vj_masksD [OF V]
  have b0: "rd ip 0 = rd g 0" using e(1) gs_eqD [of ip 0 g 0] by (simp add: expected_def Let_def)
  have m0: "mix n {10..<12} {} ip g r" and z: "rd r 10 = 0" "rd r 11 = 0" and nr: "n \<le> length r"
    using k(4) by (simp_all add: saved_def mix_def n_def r_def)
  have tn: "20 \<le> t" "t + 20 \<le> n" "n \<le> length ip" and F: "rd ip (t + 13) AND 32 \<noteq> 0 \<longleftrightarrow> gs ip (t + 18) \<noteq> 0"
    using ip(1) by (simp_all add: tcp_packet_def plain_hdr_def t_def n_def hlen_of_def Let_def)
  have hl: "ip_hl r = ip_hl ip" "ip_hl g = ip_hl ip"
    using b0 mix_rd [OF m0, of 0] tn by (simp_all add: ip_hl_def)
  obtain c bs where c: "cb = (c, bs)" by (cases cb)
  let ?id = "(ucast (gs ip 4) :: u32) - ucast (gs g 4)"
  define on where "on \<longleftrightarrow> ?id \<noteq> 1"
  define bi where "bi = (if on then ENCODEZ V ?id else [])"
  have w: "new_seq = bs @ bi" "ch = c OR (if on then 0x20 else 0) OR (if rd ip (t + 13) AND 8 \<noteq> 0 then 0x10 else 0)"
    using cb(2) by (auto simp: with_id_def c on_def bi_def V' t_def Let_def or.assoc split: if_splits)
  have bits: "changes AND 0xf = c" "changes AND 0x20 \<noteq> 0 \<longleftrightarrow> on" "changes AND 0x10 \<noteq> 0 \<longleftrightarrow> rd ip (t + 13) AND 8 \<noteq> 0"
    using change_bits [OF _ w(2) cb(3)] all_changes_mask [OF V] cb(1) c by blast+
  let ?X = "{10..<12} :: nat set" and ?D = "{t + 16..<t + 18}"
  have dis: "{4..<6} \<inter> (?X \<union> (?D \<union> restored t)) = {}" "{2..<4} \<inter> (?X \<union> (?D \<union> restored t \<union> {4..<6})) = {}"
    using tn by auto
  define h1 where "h1 = put_at (t + 16) (be_putshort (gs ip (t + 16))) r"
  define h2 where "h2 = put_at (t + 13) [push_flag (rd ip (t + 13)) (rd g (t + 13))] h1"
  note f2 = open_header [OF m0 tn(1,2) h1_def h2_def]
  have G: "rd g (t + 13) AND 32 \<noteq> 0 \<longleftrightarrow> gs g (t + 18) \<noteq> 0" "plain_flags (rd g (t + 13))" "plain_flags (rd ip (t + 13))"
    using g(1,2) ip(2) by (simp_all add: plain_hdr_def hl t_def Let_def)
  have d2: "drop (cp + 2) buf = bs @ bi @ drop n ip"
    using drop_next [OF buf] by (simp add: w n_def length_be_putshort)
  obtain h3 where h3: "in_changes V buf changes t (ucast (gs g 2) - word_of_nat n) (h2, cp + 2) = (h3, cp + 2 + length bs)"
    "mix n ?X (?D \<union> restored t) ip g h3"
    using in_changes_ok [OF V t_def tn(1,2) f2(1) G(3,2) f2(2) F G(1) _ bits(1) d2] cb(1) c n_def by auto
  have b3: "below 12 r h3" "length h3 = length r"
    using below_in_changes [of t h2 V buf changes "ucast (gs g 2) - word_of_nat n" "cp + 2"] h3(1) f2 tn nr
    by (simp_all add: below_def)
  obtain h4 where h4: "in_id V buf changes (h3, cp + 2 + length bs) = (h4, cp + 2 + length bs + length bi)"
    "mix n ?X (?D \<union> restored t \<union> {4..<6}) ip g h4"
    using in_id_ok [OF V h3(2) _ dis(1) bi_def drop_next [OF d2] on_def] bits(2) tn by (auto simp: V')
  have b4: "length h4 = length r" "rd h4 10 = 0" "rd h4 11 = 0"
    using in_id_form [of V buf changes h3 "cp + 2 + length bs"] h4(1) b3 z tn nr
    by (auto simp: below_def length_be_putshort rd_put_at)
  define cp1 where "cp1 = cp + 2 + length bs + length bi"
  have rest: "drop cp1 buf = drop n ip"
    using drop_next [OF drop_next [OF d2]] by (simp add: cp1_def)
  have len: "length buf = cp1 + (length ip - n)"
    using arg_cong [OF buf, of length] by (simp add: w cp1_def n_def length_be_putshort)
  define h5 where "h5 = put_at 2 (be_putshort (gs ip 2)) h4"
  have "mix n ?X (?D \<union> restored t \<union> {4..<6} \<union> {2..<4}) ip g h5"
    using mix_fresh2 [OF h4(2), of 2] dis(2) tn by (simp add: h5_def)
  then have s5: "saved n ip h5" "length h5 = length r"
    using close_header [OF _ e ip(1) g(1,3) t_def] b4 tn nr
    by (simp_all add: n_def [symmetric] h5_def length_be_putshort rd_put_at)
  have glen: "word_of_nat (n + (length buf - cp1)) = gs ip 2"
  proof -
    have "n + (length buf - cp1) = unat (gs ip 2)" using ip(1) tn(3) by (simp add: len tcp_packet_def)
    then show ?thesis by simp
  qed
  have "rd (drop cp buf) 0 = rd ip (t + 16)" "rd (drop cp buf) 1 = rd ip (t + 17)"
    unfolding buf t_def [symmetric] by (simp_all add: gs_def be_short_get_put add.commute)
  then have bufs: "[rd buf cp, rd buf (cp + 1)] = be_putshort (gs ip (t + 16))"
    using len by (simp add: gs_def be_short_get_put rd_drop cp1_def add.commute)
  have flag: "[if changes AND TCP_PUSH_BIT V \<noteq> 0 then rd h1 (t + 13) OR TH_PUSH V else rd h1 (t + 13) AND NOT (TH_PUSH V)] =
      [push_flag (rd ip (t + 13)) (rd g (t + 13))]"
    using bits(3) by (simp add: push_flag_def V' f2(3))
  have "restore V buf changes cp sl = (Some (put_at 10 (sts V (hdr_cksum V (take t (take n h5)))) (take n h5 @ drop cp1 buf)),
      sl\<lparr>rstate := (rstate sl)[k := cs\<lparr>cs_hdr := h5\<rparr>]\<rparr>)"
    unfolding restore_def Let_def k(1) [symmetric] k(2) [symmetric] r_def [symmetric] hl(1) t_def [symmetric] bufs h1_def [symmetric]
      flag h2_def [symmetric] f2(6) k(3) n_def [symmetric] h3(1) h4(1) prod.case cp1_def [symmetric] glen h5_def [symmetric]
    by (simp add: len)
  then show ?thesis
    using with_checksum [OF ip(1), of h5] s5 rest by (auto simp: n_def t_def r_def)
qed

end
