(* ===== verification/Vj_Link.thy ===== *)
theory Vj_Link
  imports Vj_Spec
begin

text \<open>
  Compressor and decompressor together: the relation that keeps them in step, one packet, and a
  stream of packets over the line.
\<close>

section \<open>Sender and receiver in step\<close>













section \<open>A stream of packets\<close>




text \<open>
  Packets go through the compressor, over the line with their type, and through the decompressor;
  each comes with the length \<open>m_len\<close> of the buffer it is in.
\<close>

definition deliver :: "vj_hdr \<Rightarrow> vj_type \<Rightarrow> bytes \<Rightarrow> slcompress \<Rightarrow> bytes option \<times> slcompress" where
  "deliver V ty p b = (if ty = TYPE_IP then (Some p, b) else sl_uncompress_tcp V p ty b)"

primrec vj_link :: "vj_hdr \<Rightarrow> bool \<Rightarrow> slcompress \<Rightarrow> slcompress \<Rightarrow> (nat \<times> bytes) list \<Rightarrow> bytes list option" where
  "vj_link V cid a b [] = Some []"
| "vj_link V cid a b (x # xs) =
     (case sl_compress_tcp V (fst x) (snd x) a cid of
        None \<Rightarrow> None
      | Some (ty, p, a2) \<Rightarrow> (case deliver V ty p b of
          (None, _) \<Rightarrow> None
        | (Some q, b2) \<Rightarrow> map_option (Cons q) (vj_link V cid a2 b2 xs)))"



definition sample_segment :: "u8 \<Rightarrow> u8 \<Rightarrow> u8 \<Rightarrow> u8 \<Rightarrow> bytes" where
  "sample_segment ident cksum sq flags =
     [0x45, 0, 0, 44, 0, ident, 0, 0, 64, 6, 0x66, cksum, 10, 0, 0, 1, 10, 0, 0, 2,
      4, 0, 0, 80, 0, 0, 0, sq, 0, 0, 0, 1, 0x50, flags, 0x10, 0, 0xab, 0xcd, 0, 0, 1, 2, 3, 4]"


text \<open>
  An urgent segment whose urgent pointer is 0, followed by a plain one that continues it: the
  second is sent as special case (data transfer), for which the decompressor does not touch the urgent
  bit, so it comes out urgent.
\<close>

theorem vj_stale_urgent:
  "vj_link std_vj True (sl_compress_init std_vj) (sl_compress_init std_vj)
     [(48, sample_segment 1 0xc9 0 0x30), (48, sample_segment 2 0xc8 4 0x10)] =
   Some [sample_segment 1 0xc9 0 0x30, sample_segment 2 0xc8 4 0x30]"
  by code_simp

end
