(* ===== verification/Ppp_Framing.thy ===== *)
theory Ppp_Framing
  imports If_Ppp Vj_Link
begin

text \<open>
  What the driver promises: the frame check sequence is the CRC of RFC 1662, the escape map always
  covers the flag and the escape, the receiver stays inside its buffers on every input, and a packet
  that is framed on one side is rebuilt on the other.
\<close>

section \<open>The documented constants\<close>

definition rfc1662 :: "drv_hdr \<Rightarrow> bool" where
  "rfc1662 H \<longleftrightarrow> PPP_FLAG H = 0x7e \<and> PPP_ESCAPE H = 0x7d \<and> PPP_TRANS H = 0x20 \<and> PPP_ALLSTATIONS H = 0xff \<and> PPP_UI H = 3 \<and>
     PPP_INITFCS H = 0xffff \<and> PPP_GOODFCS H = 0xf0b8 \<and> PPP_HDRLEN H = 4 \<and> PPP_FCSLEN H = 2 \<and>
     PPP_IP H = 0x21 \<and> PPP_VJC_COMP H = 0x2d \<and> PPP_VJC_UNCOMP H = 0x2f \<and> PPP_LCP H = 0xc021 \<and>
     (\<forall>f c. PPP_FCS H f c = drop_bit 8 f XOR fcstab ! unat ((f XOR ucast c) AND 0xff))"

text \<open>The flags of the interface are different bits.\<close>

definition flags_apart :: "drv_hdr \<Rightarrow> bool" where
  "flags_apart H \<longleftrightarrow> SC_FLUSH H \<noteq> 0 \<and> SC_ESCAPED H \<noteq> 0 \<and> SC_FLUSH H AND SC_ESCAPED H = 0 \<and>
     (\<forall>m\<in>{SC_RCV_B7_0 H, SC_RCV_B7_1 H, SC_RCV_EVNP H, SC_RCV_ODDP H}. \<forall>k\<in>{SC_FLUSH H, SC_ESCAPED H, SC_REJ_COMP_AC H,
        SC_REJ_COMP_TCP H, SC_ENABLE_IP H}. m AND k = 0) \<and>
     (\<forall>m\<in>{SC_REJ_COMP_AC H, SC_REJ_COMP_TCP H, SC_ENABLE_IP H}. m AND SC_FLUSH H = 0 \<and> m AND SC_ESCAPED H = 0)"

text \<open>A driver with the usual constants, a line that takes every write and a pool that is never empty.\<close>

definition std_drv :: drv_hdr where
  "std_drv = \<lparr>PPP_FLAG = 0x7e, PPP_ESCAPE = 0x7d, PPP_TRANS = 0x20, PPP_ALLSTATIONS = 0xff, PPP_UI = 3,
     PPP_FCS = (\<lambda>f c. drop_bit 8 f XOR fcstab ! unat ((f XOR ucast c) AND 0xff)), PPP_INITFCS = 0xffff, PPP_GOODFCS = 0xf0b8,
     PPP_HDRLEN = 4, PPP_FCSLEN = 2, PPP_IP = 0x21, PPP_VJC_COMP = 0x2d, PPP_VJC_UNCOMP = 0x2f, PPP_LCP = 0xc021,
     PPP_MTU = 1500, DRV_MRU = 1500, PPP_MAXMRU = 65000, SC_MASK = 0x0fffffff, SC_ENABLE_IP = 0x100, SC_COMP_AC = 2,
     SC_COMP_PROT = 1, SC_COMP_TCP = 4, SC_NO_TCP_CCID = 8, SC_REJ_COMP_AC = 0x10, SC_REJ_COMP_TCP = 0x20,
     SC_FLUSH = 0x40000000, SC_ESCAPED = 0x80000000, SC_DISCARD_PKT = 0x20000000, SC_RCV_B7_0 = 0x01000000,
     SC_RCV_B7_1 = 0x02000000, SC_RCV_EVNP = 0x04000000, SC_RCV_ODDP = 0x08000000, IFF_UP = 1, IFF_RUNNING = 0x40,
     IFF_POINTOPOINT = 0x10, IFF_MULTICAST = 0x8000, IFQ_MAXLEN = 50, EMSGSIZE = 40, ENOBUFS = 55, ENETDOWN = 50,
     EAFNOSUPPORT = 47, ENOTSUP = 35, EINVAL = 22\<rparr>"

definition std_dev :: dev where
  "std_dev = \<lparr>dh = std_drv, dv = std_vj, d_write = (\<lambda>k n. int n), d_nwrite = (\<lambda>k. 0), d_getm = (\<lambda>k n. Some 2048),
     in_hook = None, out_hook = None\<rparr>"

lemma std_rfc1662: "rfc1662 std_drv"
  by (simp add: rfc1662_def std_drv_def)

lemma std_flags_apart: "flags_apart std_drv"
  by (simp add: flags_apart_def std_drv_def)

section \<open>The frame check sequence\<close>

text \<open>The CRC bit by bit, as RFC 1662 defines it.\<close>

definition crc_bit :: "u16 \<Rightarrow> u16" where
  "crc_bit f = (if bit f 0 then drop_bit 1 f XOR 0x8408 else drop_bit 1 f)"

definition crc_byte :: "u16 \<Rightarrow> u8 \<Rightarrow> u16" where
  "crc_byte f c = (crc_bit ^^ 8) (f XOR ucast c)"

lemma crc_bit_xor: "crc_bit (a XOR b) = crc_bit a XOR crc_bit b"
  by (auto simp: crc_bit_def drop_bit_xor bit_xor_iff xor.assoc xor.left_commute xor.commute)

lemma crc_bits_xor: "(crc_bit ^^ n) (a XOR b) = (crc_bit ^^ n) a XOR (crc_bit ^^ n) b"
  by (induction n) (simp_all add: crc_bit_xor)

lemma crc_bits_zero: "take_bit n x = 0 \<Longrightarrow> (crc_bit ^^ n) x = drop_bit n x"
proof (induction n)
  case (Suc n)
  have "take_bit n x = take_bit n (take_bit (Suc n) x)" by simp
  then have 0: "take_bit n x = 0" using Suc.prems by simp
  have "bit (drop_bit n x) 0 = bit (take_bit (Suc n) x) n" by (simp add: bit_simps)
  then have "\<not> bit (drop_bit n x) 0" using Suc.prems by simp
  then show ?case
    using Suc.IH [OF 0] by (simp add: crc_bit_def drop_bit_drop_bit)
qed simp

text \<open>The table is spanned by its entries at the powers of two.\<close>

primrec span :: "u16 list \<Rightarrow> u16 list" where
  "span [] = [0]"
| "span (b # bs) = (let l = span bs in l @ map (\<lambda>x. x XOR b) l)"

primrec basis :: "u16 list \<Rightarrow> bool" where
  "basis [] \<longleftrightarrow> True"
| "basis (b # bs) \<longleftrightarrow> b = (crc_bit ^^ 8) (push_bit (length bs) 1) \<and> basis bs"

definition fcs_basis :: "u16 list" where
  "fcs_basis = [0x8408, 0x4204, 0x2102, 0x1081, 0x8c48, 0x4624, 0x2312, 0x1189]"

lemma fcstab_span: "fcstab = span fcs_basis"
  by (simp add: fcstab_def fcs_basis_def)

lemma basis_fcs: "basis fcs_basis"
  by code_simp

lemma length_span: "length (span bs) = 2 ^ length bs"
  by (induction bs) (simp_all add: Let_def)

lemma split_bit:
  assumes "n < 2 ^ k"
  shows "word_of_nat (2 ^ k + n) = push_bit k 1 XOR (word_of_nat n :: u16)"
proof -
  have n: "\<not> bit n j" if "k \<le> j" for j
    using assms that by (metis bit_take_bit_iff not_less take_bit_nat_eq_self)
  have "(push_bit k 1 :: u16) + word_of_nat n = push_bit k 1 OR word_of_nat n"
    by (rule disjunctive_add) (auto simp: bit_simps n)
  also have "\<dots> = push_bit k 1 XOR word_of_nat n"
    by (rule bit_word_eqI) (auto simp: bit_simps n)
  finally show ?thesis by (simp add: push_bit_eq_mult)
qed

lemma span_crc: "basis bs \<Longrightarrow> n < 2 ^ length bs \<Longrightarrow> span bs ! n = (crc_bit ^^ 8) (word_of_nat n)"
proof (induction bs arbitrary: n)
  case Nil
  have "(crc_bit ^^ 8) 0 = 0" using crc_bits_zero [of 8 0] by simp
  then show ?case using Nil by simp
next
  case (Cons b bs)
  show ?case
  proof (cases "n < 2 ^ length bs")
    case True
    then show ?thesis using Cons by (simp add: nth_append length_span Let_def)
  next
    case False
    then obtain k where k: "n = 2 ^ length bs + k" "k < 2 ^ length bs"
      using Cons.prems(2) by (auto simp: not_less le_iff_add)
    then have "span (b # bs) ! n = span bs ! k XOR b"
      by (simp add: nth_append length_span Let_def)
    then show ?thesis
      using Cons.IH [OF _ k(2)] Cons.prems(1) k split_bit [OF k(2)] by (simp add: crc_bits_xor xor.commute)
  qed
qed

lemma low_byte: "unat (take_bit 8 (x :: u16)) < 256"
  by (simp add: unsigned_take_bit_eq take_bit_eq_mod [where 'a = nat])

lemma fcs_crc_byte:
  assumes "rfc1662 H"
  shows "PPP_FCS H f c = crc_byte f c"
proof -
  let ?x = "f XOR ucast c"
  have m: "?x AND 0xff = take_bit 8 ?x" by (simp add: take_bit_eq_mask mask_numeral)
  have "unat (take_bit 8 ?x) < 2 ^ length fcs_basis"
    using low_byte [of ?x] by (simp add: fcs_basis_def del: take_bit_xor)
  then have tab: "fcstab ! unat (take_bit 8 ?x) = (crc_bit ^^ 8) (take_bit 8 ?x)"
    using span_crc [OF basis_fcs] by (simp add: fcstab_span)
  have split: "?x = take_bit 8 ?x XOR push_bit 8 (drop_bit 8 ?x)"
    by (rule bit_word_eqI) (auto simp: bit_simps)
  have high: "(crc_bit ^^ 8) (push_bit 8 (drop_bit 8 ?x)) = drop_bit 8 (push_bit 8 (drop_bit 8 ?x))"
    by (rule crc_bits_zero) (rule bit_word_eqI, simp add: bit_simps)
  have "drop_bit 8 (push_bit 8 (drop_bit 8 ?x)) = drop_bit 8 f"
    by (rule bit_word_eqI) (auto simp: bit_simps dest: bit_imp_le_length)
  then have "(crc_bit ^^ 8) ?x = (crc_bit ^^ 8) (take_bit 8 ?x) XOR drop_bit 8 f"
    using crc_bits_xor [of 8 "take_bit 8 ?x" "push_bit 8 (drop_bit 8 ?x)"] high
    unfolding split [symmetric] by (simp only:)
  moreover have "PPP_FCS H f c = drop_bit 8 f XOR fcstab ! unat (?x AND 0xff)"
    using assms by (simp add: rfc1662_def)
  ultimately show ?thesis
    unfolding m tab crc_byte_def by (simp only: xor.commute)
qed

text \<open>
  C10. The frame check sequence the driver computes with its table is the CRC of RFC 1662, bit by bit,
  over all bytes given to \<open>pppfcs\<close>.
\<close>

theorem pppfcs_crc:
  assumes "rfc1662 H"
  shows "pppfcs H fcs bs = foldl crc_byte fcs bs"
  by (simp add: pppfcs_def fcs_crc_byte [OF assms] cong: foldl_cong)

theorem pppfcs_crc_witness: "pppfcs std_drv 0xffff [0xff, 3, 0xc0, 0x21] = foldl crc_byte 0xffff [0xff, 3, 0xc0, 0x21]"
  using pppfcs_crc [OF std_rfc1662] .

end
