(* ===== verification/Ppp_Input.thy ===== *)
theory Ppp_Input
  imports Ppp_Framing
begin

text \<open>
  The receiver of \<open>if_ppp.c\<close>. It never writes outside its mbufs, whatever arrives on the line; and
  with a pool that always has an mbuf, \<open>pppinput\<close> refines a small deframer that knows neither mbufs
  nor flag bits.
\<close>

section \<open>Flag bits\<close>

lemma has_or: "m AND k = 0 \<Longrightarrow> has (set_flag m sc) k = has sc k" for k :: u32
  by (simp add: set_flag_def and.commute [of _ k] bit.conj_disj_distrib)

lemma has_set: "m \<noteq> 0 \<Longrightarrow> has (set_flag m sc) m"
proof -
  have "(sc_flags sc OR m) AND m = m" by (rule bit_word_eqI) (auto simp: bit_simps)
  then show "m \<noteq> 0 \<Longrightarrow> has (set_flag m sc) m" by (simp add: set_flag_def)
qed

lemma has_clear_other: "m AND k = 0 \<Longrightarrow> has (clear_flag m sc) k = has sc k" for k :: u32
proof -
  assume "m AND k = 0"
  then have "\<not> (bit m n \<and> bit k n)" for n by (metis bit_0_eq bit_and_iff bot_apply bot_bool_def)
  then have "(sc_flags sc AND NOT m) AND k = sc_flags sc AND k"
    by (intro bit_word_eqI) (auto simp: bit_simps)
  then show ?thesis by (simp add: clear_flag_def)
qed

lemma has_clear_part: "m AND k = k \<Longrightarrow> \<not> has (clear_flag m sc) k" for k :: u32
proof -
  assume "m AND k = k"
  then have "bit k n \<Longrightarrow> bit m n" for n by (metis bit_and_iff)
  then have "(sc_flags sc AND NOT m) AND k = 0"
    by (intro bit_word_eqI) (auto simp: bit_simps)
  then show ?thesis by (simp add: clear_flag_def)
qed

lemma has_either: "has sc (m OR k) \<longleftrightarrow> has sc m \<or> has sc k" for m k :: u32
  by (simp add: bit.conj_disj_distrib or_eq_0_iff)

section \<open>The chain that is being filled\<close>

definition fits :: "mbuf \<Rightarrow> bool" where
  "fits m \<longleftrightarrow> m_off m + length (m_dat m) \<le> m_extSize m"

definition pool_sizes :: "dev \<Rightarrow> bool" where
  "pool_sizes E \<longleftrightarrow> (\<forall>n len k. d_getm E n len = Some k \<longrightarrow> 4 \<le> k)"

definition pool_ok :: "dev \<Rightarrow> bool" where
  "pool_ok E \<longleftrightarrow> (\<forall>n len. \<exists>k. d_getm E n len = Some k \<and> 4 \<le> k)"

lemma pool_ok_sizes: "pool_ok E \<Longrightarrow> pool_sizes E"
  unfolding pool_ok_def pool_sizes_def by (metis option.inject)

definition bufs_ok :: "chain \<Rightarrow> bool" where
  "bufs_ok ms \<longleftrightarrow> (\<forall>m\<in>set ms. fits m \<and> 4 \<le> m_extSize m)"

text \<open>The bytes of a frame so far: some full mbufs, and the one at \<open>sc_mc\<close>.\<close>

definition filling :: "dev \<Rightarrow> chain \<Rightarrow> mbuf \<Rightarrow> chain \<Rightarrow> softc \<Rightarrow> bool" where
  "filling E full cur rest sc \<longleftrightarrow>
     sc_m sc = full @ cur # rest \<and> sc_mc sc = length full \<and> bufs_ok (sc_m sc) \<and>
     (\<forall>m\<in>set full. M_TRAILINGSPACE m = 0 \<and> m_dat m \<noteq> []) \<and>
     sum_list (map m_off (full @ [cur])) \<le> HDROFF E \<and> m_off (hd (full @ [cur])) + 4 \<le> m_extSize (hd (full @ [cur]))"

definition holding :: "dev \<Rightarrow> softc \<Rightarrow> bytes \<Rightarrow> bool" where
  "holding E sc p \<longleftrightarrow> (\<exists>full cur rest. filling E full cur rest sc \<and>
     (m_dat cur = [] \<longrightarrow> full = []) \<and> contents (full @ [cur]) = p)"

lemma contents_append: "contents (a @ b) = contents a @ contents b"
  by (simp add: contents_def)

lemma contents_Cons: "contents (m # ms) = m_dat m @ contents ms"
  by (simp add: contents_def)

lemma contents_Nil: "contents [] = []"
  by (simp add: contents_def)

lemmas contents_simps = contents_append contents_Cons contents_Nil

lemma holding_contents: "holding E sc p \<Longrightarrow> contents (take (sc_mc sc + 1) (sc_m sc)) = p"
  by (auto simp: holding_def filling_def)

lemma holding_cong:
  "sc_m sc' = sc_m sc \<Longrightarrow> sc_mc sc' = sc_mc sc \<Longrightarrow> holding E sc' p = holding E sc p"
  by (simp add: holding_def filling_def)

text \<open>In the first four bytes there is always room.\<close>

lemma first_room:
  assumes "filling E full cur rest sc" "length (contents (full @ [cur])) < 4"
  shows "full = []" "int (length (m_dat cur)) + M_TRAILINGSPACE cur \<ge> 4"
proof -
  show 1: "full = []"
  proof (cases full)
    case (Cons m ms)
    then have "M_TRAILINGSPACE m = 0" "m_off m + 4 \<le> m_extSize m"
      using assms(1) by (auto simp: filling_def)
    then have "4 \<le> length (m_dat m)" by (simp add: M_TRAILINGSPACE_def)
    then show ?thesis using assms(2) Cons by (simp add: contents_simps)
  qed
  show "int (length (m_dat cur)) + M_TRAILINGSPACE cur \<ge> 4"
    using assms(1) 1 by (simp add: filling_def M_TRAILINGSPACE_def)
qed

lemma store_filling:
  assumes "filling E full cur rest sc" "int (length bs) \<le> M_TRAILINGSPACE cur" "bs \<noteq> []"
  shows "filling E full (cur\<lparr>m_dat := m_dat cur @ bs\<rparr>) rest (store bs sc)"
proof -
  have "fits (cur\<lparr>m_dat := m_dat cur @ bs\<rparr>)"
    using assms(2) by (simp add: fits_def M_TRAILINGSPACE_def)
  moreover have "m_off (hd (full @ [cur\<lparr>m_dat := m_dat cur @ bs\<rparr>])) = m_off (hd (full @ [cur]))"
    "m_extSize (hd (full @ [cur\<lparr>m_dat := m_dat cur @ bs\<rparr>])) = m_extSize (hd (full @ [cur]))"
    by (cases full; simp)+
  ultimately show ?thesis
    using assms by (auto simp: filling_def store_def bufs_ok_def)
qed

lemma store_holding:
  assumes "holding E sc p" "length p + length bs \<le> 4" "bs \<noteq> []"
  shows "holding E (store bs sc) (p @ bs)"
proof -
  obtain full cur rest where f: "filling E full cur rest sc" "contents (full @ [cur]) = p"
    using assms(1) by (auto simp: holding_def)
  have l: "length (contents (full @ [cur])) < 4" using assms(2,3) f by (cases bs) auto
  note r = first_room [OF f(1) l]
  have "int (length bs) \<le> M_TRAILINGSPACE cur"
    using r assms(2) f(2) by (simp add: contents_simps)
  from store_filling [OF f(1) this assms(3)] show ?thesis
    unfolding holding_def using f(2) assms(3)
    by - (rule exI [of _ full], rule exI [of _ "cur\<lparr>m_dat := m_dat cur @ bs\<rparr>"], rule exI [of _ rest], auto simp: contents_simps)
qed

section \<open>The buffer pool\<close>

text \<open>\<open>pppgetm\<close> only adds empty mbufs at the end of the chain.\<close>

definition grows :: "softc \<Rightarrow> softc \<Rightarrow> bool" where
  "grows sc sc' \<longleftrightarrow> (\<exists>n ks. (\<forall>k\<in>set ks. 4 \<le> k) \<and>
     sc' = sc\<lparr>calls := n, sc_m := sc_m sc @ map (\<lambda>k. \<lparr>m_extSize = k, m_off = 0, m_dat = []\<rparr>) ks\<rparr>)"

lemma getm_more_grows: "pool_sizes E \<Longrightarrow> grows sc (pppgetm_more E len sc)"
proof (induction E len sc rule: pppgetm_more.induct)
  case (1 E len sc)
  show ?case
  proof (cases "len = 0 \<or> pppgetm_step E len sc = None")
    case True
    then have "pppgetm_more E len sc = sc \<or> pppgetm_more E len sc = sc\<lparr>calls := calls sc + 1\<rparr>" by auto
    then show ?thesis
      unfolding grows_def by (elim disjE) (rule exI [of _ "calls sc"], rule exI [of _ "[]"], simp,
        rule exI [of _ "calls sc + 1"], rule exI [of _ "[]"], simp)
  next
    case False
    then obtain k where k: "d_getm E (calls sc) len = Some k" and
      s: "pppgetm_step E len sc = Some (k, sc\<lparr>calls := calls sc + 1, sc_m := sc_m sc @ [\<lparr>m_extSize = k, m_off = 0, m_dat = []\<rparr>]\<rparr>)"
      by (auto simp: pppgetm_step_def split: option.splits)
    have "4 \<le> k" using k \<open>pool_sizes E\<close> by (auto simp: pool_sizes_def)
    then have "grows (sc\<lparr>calls := calls sc + 1, sc_m := sc_m sc @ [\<lparr>m_extSize = k, m_off = 0, m_dat = []\<rparr>]\<rparr>) (pppgetm_more E len sc)"
      using 1 False s by (simp add: pppgetm_more.simps [of E len sc])
    then obtain n ks where "\<forall>k\<in>set ks. 4 \<le> k"
      "pppgetm_more E len sc = sc\<lparr>calls := n, sc_m := sc_m sc @ map (\<lambda>k. \<lparr>m_extSize = k, m_off = 0, m_dat = []\<rparr>) (k # ks)\<rparr>"
      by (auto simp: grows_def)
    then show ?thesis
      unfolding grows_def by - (rule exI [of _ n], rule exI [of _ "k # ks"], use \<open>4 \<le> k\<close> in simp)
  qed
qed

lemma getm_grows: "pool_sizes E \<Longrightarrow> grows sc (pppgetm E sc)"
  by (simp add: pppgetm_def getm_more_grows del: pppgetm_more.simps)

declare pppgetm_more.simps [simp del]

lemma grows_refl: "grows sc sc"
  unfolding grows_def by (rule exI [of _ "calls sc"], rule exI [of _ "[]"]) simp

lemma grows_bufs: "grows sc sc' \<Longrightarrow> bufs_ok (sc_m sc) \<Longrightarrow> bufs_ok (sc_m sc')"
  by (auto simp: grows_def bufs_ok_def fits_def)

lemma grows_filling: "grows sc sc' \<Longrightarrow> filling E full cur rest sc \<Longrightarrow> \<exists>rest'. filling E full cur rest' sc'"
  using grows_bufs [of sc sc'] by (auto simp: filling_def grows_def)

text \<open>A pool that never fails gives all the bytes that are asked for.\<close>

abbreviation space :: "chain \<Rightarrow> nat" where
  "space ms \<equiv> sum_list (map m_extSize ms)"

lemma getm_more_space: "pool_ok E \<Longrightarrow> space (sc_m sc) + len \<le> space (sc_m (pppgetm_more E len sc))"
proof (induction E len sc rule: pppgetm_more.induct)
  case (1 E len sc)
  obtain k where k: "d_getm E (calls sc) len = Some k" "4 \<le> k"
    using 1(2) by (auto simp: pool_ok_def)
  then have s: "pppgetm_step E len sc = Some (k, sc\<lparr>calls := calls sc + 1, sc_m := sc_m sc @ [\<lparr>m_extSize = k, m_off = 0, m_dat = []\<rparr>]\<rparr>)"
    by (simp add: pppgetm_step_def)
  show ?case
    using 1(1) [OF _ s refl] 1(2) k by (cases "len = 0") (simp_all add: pppgetm_more.simps [of E 0 sc] pppgetm_more.simps [of E len sc] s)
qed

lemma getm_space:
  "pool_ok E \<Longrightarrow> int (HDROFF E) + sc_mru sc + int (PPP_HDRLEN (dh E)) + int (PPP_FCSLEN (dh E)) \<le> int (space (sc_m (pppgetm E sc)))"
  using getm_more_space [of E sc "nat (int (HDROFF E) + sc_mru sc + int (PPP_HDRLEN (dh E)) + int (PPP_FCSLEN (dh E)))
    - space (sc_m sc)"] by (simp add: pppgetm_def)

section \<open>Storing one byte\<close>

definition rx_only :: "softc \<Rightarrow> softc \<Rightarrow> bool" where
  "rx_only sc sc' \<longleftrightarrow> sc'\<lparr>sc_m := [], sc_mc := 0, calls := 0, sc_ilen := 0, sc_fcs := 0\<rparr>
     = sc\<lparr>sc_m := [], sc_mc := 0, calls := 0, sc_ilen := 0, sc_fcs := 0\<rparr>"

lemma rx_only_trans: "rx_only a b \<Longrightarrow> rx_only b c \<Longrightarrow> rx_only a c"
  by (simp add: rx_only_def)

lemma rx_only_refl: "rx_only sc sc"
  by (simp add: rx_only_def)

lemma rx_only_grows: "grows sc sc' \<Longrightarrow> rx_only sc sc'"
  by (auto simp: grows_def rx_only_def)

lemma rx_only_store: "rx_only sc (store bs sc)"
  by (simp add: store_def rx_only_def)

lemma rx_only_fields:
  assumes "rx_only sc sc'"
  shows "sc_flags sc' = sc_flags sc" "sc_mru sc' = sc_mru sc" "sc_rasyncmap sc' = sc_rasyncmap sc"
    "sc_asyncmap sc' = sc_asyncmap sc" "sc_inq sc' = sc_inq sc" "ipintrq sc' = ipintrq sc" "sc_comp sc' = sc_comp sc"
    "if_flags sc' = if_flags sc" "sc_outm sc' = sc_outm sc" "sc_bytessent sc' = sc_bytessent sc"
  using assms unfolding rx_only_def by (cases sc; cases sc'; simp)+

lemma full_space:
  "\<forall>m\<in>set ms. M_TRAILINGSPACE m = 0 \<Longrightarrow> space ms = sum_list (map m_off ms) + length (contents ms)"
  by (induction ms) (auto simp: M_TRAILINGSPACE_def contents_simps)

lemma filling_space: "filling E full cur rest sc \<Longrightarrow> 0 \<le> M_TRAILINGSPACE cur"
  by (auto simp: filling_def bufs_ok_def fits_def M_TRAILINGSPACE_def)

lemma filling_nonempty:
  assumes "filling E full cur rest sc" "m_dat cur = [] \<longrightarrow> full = []" "M_TRAILINGSPACE cur = 0"
  shows "m_dat cur \<noteq> []"
  using assms by (auto simp: filling_def M_TRAILINGSPACE_def)

text \<open>After \<open>next_mbuf\<close> there is room for one byte.\<close>

lemma next_mbuf_filling:
  assumes "pool_sizes E" "holding E sc p"
  shows "rx_only sc (fst (next_mbuf E sc)) \<and> sc_ilen (fst (next_mbuf E sc)) = sc_ilen sc \<and> sc_fcs (fst (next_mbuf E sc)) = sc_fcs sc \<and>
    bufs_ok (sc_m (fst (next_mbuf E sc))) \<and>
    (snd (next_mbuf E sc) \<longrightarrow> (\<exists>full cur rest. filling E full cur rest (fst (next_mbuf E sc)) \<and>
      0 < M_TRAILINGSPACE cur \<and> contents (full @ [cur]) = p))"
proof -
  obtain full cur rest where f: "filling E full cur rest sc" "m_dat cur = [] \<longrightarrow> full = []" and c: "contents (full @ [cur]) = p"
    using assms(2) by (auto simp: holding_def)
  have m: "sc_m sc ! sc_mc sc = cur" "bufs_ok (sc_m sc)" using f(1) by (auto simp: filling_def)
  show ?thesis
  proof (cases "M_TRAILINGSPACE cur > 0")
    case True
    then show ?thesis using f c m by (auto simp: next_mbuf_def rx_only_refl)
  next
    case False
    then have full: "M_TRAILINGSPACE cur = 0" using filling_space [OF f(1)] by simp
    define sc1 where "sc1 = (if sc_mc sc + 1 < length (sc_m sc) then sc else pppgetm E sc)"
    have g: "grows sc sc1"
      using getm_grows [OF assms(1), of sc] grows_refl by (simp add: sc1_def)
    then obtain rest' where f1: "filling E full cur rest' sc1" using grows_filling f(1) by blast
    have k: "sc_ilen sc1 = sc_ilen sc" "sc_fcs sc1 = sc_fcs sc" using g by (auto simp: grows_def)
    have n: "next_mbuf E sc = (if sc_mc sc1 + 1 < length (sc_m sc1)
        then (sc1\<lparr>sc_mc := sc_mc sc1 + 1, sc_m := (sc_m sc1)[sc_mc sc1 + 1 :=
          \<lparr>m_extSize = m_extSize (sc_m sc1 ! (sc_mc sc1 + 1)), m_off = 0, m_dat = []\<rparr>]\<rparr>, True) else (sc1, False))"
      using False m by (simp add: next_mbuf_def Let_def sc1_def)
    show ?thesis
    proof (cases rest')
      case Nil
      then show ?thesis using n f1 rx_only_grows [OF g] k by (clarsimp simp: filling_def)
    next
      case (Cons nx more)
      let ?nx = "\<lparr>m_extSize = m_extSize nx, m_off = 0, m_dat = []\<rparr>"
      have "sc_m sc1 = (full @ [cur]) @ nx # more" "sc_mc sc1 = length full"
        using f1 Cons by (auto simp: filling_def)
      then have n': "next_mbuf E sc = (sc1\<lparr>sc_mc := length (full @ [cur]), sc_m := (full @ [cur]) @ ?nx # more\<rparr>, True)"
        using n by (simp add: nth_append list_update_append)
      have b: "bufs_ok ((full @ [cur]) @ ?nx # more)"
        using f1 Cons by (auto simp: filling_def bufs_ok_def fits_def)
      have "filling E (full @ [cur]) ?nx more (fst (next_mbuf E sc))"
        using f1 b full filling_nonempty [OF f full] unfolding n' filling_def by (cases full) auto
      moreover have "0 < M_TRAILINGSPACE ?nx" using b by (simp add: bufs_ok_def M_TRAILINGSPACE_def)
      moreover have "rx_only sc1 (fst (next_mbuf E sc))"
        unfolding n' by (simp add: rx_only_def)
      ultimately show ?thesis
        using rx_only_trans [OF rx_only_grows [OF g]] k c b n' by (fastforce simp: contents_simps)
    qed
  qed
qed

lemma next_mbuf_room:
  assumes "pool_ok E" "holding E sc p" "int (length p) < sc_mru sc + int (PPP_HDRLEN (dh E)) + int (PPP_FCSLEN (dh E))"
  shows "snd (next_mbuf E sc)"
proof (rule ccontr)
  assume n: "\<not> snd (next_mbuf E sc)"
  obtain full cur rest where f: "filling E full cur rest sc" "m_dat cur = [] \<longrightarrow> full = []" and c: "contents (full @ [cur]) = p"
    using assms(2) by (auto simp: holding_def)
  have t: "M_TRAILINGSPACE cur = 0" and l: "\<not> sc_mc sc + 1 < length (sc_m sc)"
    and l': "\<not> sc_mc (pppgetm E sc) + 1 < length (sc_m (pppgetm E sc))"
    using n f(1) filling_space [OF f(1)] by (auto simp: next_mbuf_def filling_def Let_def split: if_splits)
  have g: "grows sc (pppgetm E sc)" using getm_grows pool_ok_sizes [OF assms(1)] by blast
  have s: "sc_m sc = full @ [cur]" using f(1) l by (auto simp: filling_def)
  then have "sc_m (pppgetm E sc) = full @ [cur]"
    using g l' f(1) by (auto simp: grows_def filling_def)
  moreover have "space (full @ [cur]) = sum_list (map m_off (full @ [cur])) + length p"
    unfolding c [symmetric] using f(1) t by (intro full_space) (auto simp: filling_def)
  moreover have "sum_list (map m_off (full @ [cur])) \<le> HDROFF E"
    using f(1) by (simp add: filling_def)
  ultimately show False using getm_space [OF assms(1), of sc] assms(3) by simp
qed

section \<open>The deframer\<close>

text \<open>
  What a byte of a frame adds to the packet: a compressed address and control field and the first
  byte of a compressed protocol are put back.
\<close>

definition accept :: "drv_hdr \<Rightarrow> bool \<Rightarrow> bytes \<Rightarrow> u8 \<Rightarrow> bytes option" where
  "accept H rej p c =
     (let ac = (p = [] \<and> c \<noteq> PPP_ALLSTATIONS H); p1 = (if ac then [PPP_ALLSTATIONS H, PPP_UI H] else p);
          p2 = (if length p1 = 2 \<and> c AND 1 = 1 then p1 @ [0] else p1)
      in if ac \<and> rej \<or> length p1 = 1 \<and> c \<noteq> PPP_UI H \<or> length p2 = 3 \<and> c AND 1 = 0 then None else Some (p2 @ [c]))"

datatype rx = Flushing | Frame bool bytes u16

fun rx_step :: "drv_hdr \<Rightarrow> softc \<Rightarrow> rx \<Rightarrow> u8 \<Rightarrow> rx \<times> bytes option" where
  "rx_step H cfg Flushing c = (if c = PPP_FLAG H then Frame False [] (PPP_INITFCS H) else Flushing, None)"
| "rx_step H cfg (Frame e p f) c =
     (if c = PPP_FLAG H then
        (Frame False [] (PPP_INITFCS H), if \<not> e \<and> f = PPP_GOODFCS H \<and> 6 \<le> length p then Some (take (length p - 2) p) else None)
      else if c < 0x20 \<and> sc_rasyncmap cfg AND push_bit (unat c) 1 \<noteq> 0 then (Frame e p f, None)
      else if \<not> e \<and> c = PPP_ESCAPE H then (Frame True p f, None)
      else let d = (if e then c XOR PPP_TRANS H else c) in
        (case accept H (has cfg (SC_REJ_COMP_AC H)) p d of
           None \<Rightarrow> Flushing
         | Some p' \<Rightarrow> if int (length p') > sc_mru cfg + 6 then Flushing else Frame False p' (PPP_FCS H f d), None))"

text \<open>The abstraction: what the driver holds.\<close>

definition rx_abs :: "dev \<Rightarrow> softc \<Rightarrow> rx" where
  "rx_abs E sc =
     (if has sc (SC_FLUSH (dh E)) then Flushing
      else Frame (has sc (SC_ESCAPED (dh E)))
        (if sc_ilen sc = 0 then [] else contents (take (sc_mc sc + 1) (sc_m sc)))
        (if sc_ilen sc = 0 then PPP_INITFCS (dh E) else sc_fcs sc))"

definition have_bytes :: "dev \<Rightarrow> softc \<Rightarrow> bytes \<Rightarrow> bool" where
  "have_bytes E sc p \<longleftrightarrow> bufs_ok (sc_m sc) \<and> sc_ilen sc = int (length p) \<and> (p \<noteq> [] \<longrightarrow> holding E sc p)"

definition rx_inv :: "dev \<Rightarrow> softc \<Rightarrow> bool" where
  "rx_inv E sc \<longleftrightarrow> bufs_ok (sc_m sc) \<and> 0 \<le> sc_mru sc \<and> sc_mru sc \<le> PPP_MAXMRU (dh E) \<and>
     (has sc (SC_FLUSH (dh E)) \<or> (\<exists>p. have_bytes E sc p \<and> int (length p) \<le> PPP_MAXMRU (dh E) + 6))"

lemma holding_bufs: "holding E sc p \<Longrightarrow> bufs_ok (sc_m sc)"
  by (auto simp: holding_def filling_def)

text \<open>The start of a frame.\<close>

lemma fresh_holding:
  assumes "bufs_ok (m # ms)" "PPP_HDRLEN (dh E) = 4" "sc_mc sc = 0"
    "sc_m sc = \<lparr>m_extSize = m_extSize m,
       m_off = (if m_extSize m \<ge> HDROFF E + PPP_HDRLEN (dh E) then HDROFF E else 0), m_dat = []\<rparr> # ms"
  shows "holding E sc []"
  unfolding holding_def filling_def
  by - (rule exI [of _ "[]"], rule exI [of _ "hd (sc_m sc)"], rule exI [of _ ms],
    use assms in \<open>auto simp: bufs_ok_def fits_def contents_simps\<close>)

lemma first_octet_fresh:
  fixes c :: u8
  assumes "rfc1662 (dh E)" "pool_sizes E" "sc_ilen sc = 0" "bufs_ok (sc_m sc)"
  defines "ac \<equiv> c \<noteq> PPP_ALLSTATIONS (dh E)"
  shows "\<exists>sc1 go. first_octet E c sc = (sc1, go) \<and> rx_only sc sc1 \<and> bufs_ok (sc_m sc1) \<and>
    (go \<longrightarrow> holding E sc1 (if ac then [0xff, 3] else []) \<and> sc_ilen sc1 = (if ac then 2 else 0) \<and> sc_fcs sc1 = PPP_INITFCS (dh E)) \<and>
    (go \<longrightarrow> \<not> (ac \<and> has sc (SC_REJ_COMP_AC (dh E)))) \<and>
    (\<not> go \<and> pool_ok E \<and> 0 \<le> sc_mru sc \<longrightarrow> ac \<and> has sc (SC_REJ_COMP_AC (dh E)))"
proof -
  define sc1 where "sc1 = (if sc_m sc = [] then pppgetm E sc else sc)"
  have H: "PPP_HDRLEN (dh E) = 4" "PPP_ALLSTATIONS (dh E) = 0xff" "PPP_UI (dh E) = 3" "PPP_FCSLEN (dh E) = 2"
    using assms(1) by (auto simp: rfc1662_def)
  have g: "grows sc sc1" using getm_grows [OF assms(2), of sc] grows_refl by (simp add: sc1_def)
  have b: "bufs_ok (sc_m sc1)" using grows_bufs [OF g] assms(4) .
  have ne: "sc_m sc1 \<noteq> []" if "pool_ok E" "0 \<le> sc_mru sc"
    using getm_space [OF that(1), of sc] that(2) H by (auto simp: sc1_def)
  note r = rx_only_grows [OF g]
  have l: "sc_ilen sc1 = 0" using g assms(3) by (auto simp: grows_def)
  show ?thesis
  proof (cases "sc_m sc1")
    case Nil
    have "first_octet E c sc = (sc1, False)"
      unfolding first_octet_def Let_def sc1_def [symmetric] using assms(3) Nil by simp
    then show ?thesis using r b ne Nil by auto
  next
    case (Cons m ms)
    define sc2 where "sc2 = sc1\<lparr>sc_m := \<lparr>m_extSize = m_extSize m,
       m_off = (if m_extSize m \<ge> HDROFF E + PPP_HDRLEN (dh E) then HDROFF E else 0), m_dat = []\<rparr> # ms,
       sc_mc := 0, sc_fcs := PPP_INITFCS (dh E)\<rparr>"
    have f: "first_octet E c sc = (if ac then if has sc2 (SC_REJ_COMP_AC (dh E)) then (sc2, False)
        else (store [0xff, 3] sc2, True) else (sc2, True))"
      unfolding first_octet_def Let_def sc1_def [symmetric] ac_def sc2_def using assms(3) Cons H by simp
    have r2: "rx_only sc sc2" using r by (rule rx_only_trans) (simp add: sc2_def rx_only_def)
    have h: "holding E sc2 []"
      by (rule fresh_holding [of m ms]) (use b Cons H in \<open>simp_all add: sc2_def\<close>)
    have h2: "holding E (store [0xff, 3] sc2) [0xff, 3]" using store_holding [OF h, of "[0xff, 3]"] by simp
    have k: "sc_ilen (store [0xff, 3] sc2) = 2" "sc_fcs (store [0xff, 3] sc2) = PPP_INITFCS (dh E)"
      "sc_ilen sc2 = 0" "sc_fcs sc2 = PPP_INITFCS (dh E)" using l by (simp_all add: store_def sc2_def)
    show ?thesis
      unfolding f using r2 h h2 holding_bufs [OF h] holding_bufs [OF h2] rx_only_trans [OF r2 rx_only_store] rx_only_fields(1) [OF r2] k
      by auto
  qed
qed

text \<open>The rest of the data path, once the bytes \<open>p1\<close> are in the chain.\<close>

definition rest_octet :: "dev \<Rightarrow> u8 \<Rightarrow> softc \<Rightarrow> softc" where
  "rest_octet E c sc2 =
     (let sc3 = sc2\<lparr>sc_ilen := sc_ilen sc2 + 1\<rparr>; (sc4, room) = next_mbuf E sc3 in
      if sc_ilen sc3 > sc_mru sc3 + 6 then flush E sc3 else if \<not> room then flush E sc4
      else (store [c] sc4)\<lparr>sc_ilen := sc_ilen sc4, sc_fcs := PPP_FCS (dh E) (sc_fcs sc4) c\<rparr>)"

lemma rest_octet:
  assumes "rfc1662 (dh E)" "pool_sizes E" "holding E sc2 p" "sc_ilen sc2 = int (length p)"
  shows "\<exists>sc'. rx_only sc2 sc' \<and> bufs_ok (sc_m sc') \<and>
    (rest_octet E c sc2 = flush E sc' \<and> (pool_ok E \<longrightarrow> int (length p) + 1 > sc_mru sc2 + 6) \<or>
     rest_octet E c sc2 = sc' \<and> int (length p) + 1 \<le> sc_mru sc2 + 6 \<and> have_bytes E sc' (p @ [c]) \<and>
     sc_fcs sc' = PPP_FCS (dh E) (sc_fcs sc2) c)"
proof -
  have H: "PPP_HDRLEN (dh E) = 4" "PPP_FCSLEN (dh E) = 2" using assms(1) by (auto simp: rfc1662_def)
  define sc3 where "sc3 = sc2\<lparr>sc_ilen := sc_ilen sc2 + 1\<rparr>"
  obtain sc4 room where n: "next_mbuf E sc3 = (sc4, room)" by fastforce
  have h3: "holding E sc3 p" using assms(3) by (simp add: sc3_def holding_def filling_def)
  have r3: "rx_only sc2 sc3" by (simp add: sc3_def rx_only_def)
  have m3: "sc_mru sc3 = sc_mru sc2" by (simp add: sc3_def)
  have k: "rx_only sc3 sc4" "sc_ilen sc4 = sc_ilen sc3" "sc_fcs sc4 = sc_fcs sc3" "bufs_ok (sc_m sc4)"
    and full: "room \<Longrightarrow> \<exists>full cur rest. filling E full cur rest sc4 \<and> 0 < M_TRAILINGSPACE cur \<and> contents (full @ [cur]) = p"
    using next_mbuf_filling [OF assms(2) h3] n by auto
  have r4: "rx_only sc2 sc4" using r3 k(1) by (rule rx_only_trans)
  have e: "rest_octet E c sc2 = (if sc_ilen sc3 > sc_mru sc3 + 6 then flush E sc3 else if \<not> room then flush E sc4
      else (store [c] sc4)\<lparr>sc_ilen := sc_ilen sc4, sc_fcs := PPP_FCS (dh E) (sc_fcs sc4) c\<rparr>)"
    using n by (simp add: rest_octet_def sc3_def)
  have l: "sc_ilen sc3 = int (length p) + 1" using assms(4) by (simp add: sc3_def)
  consider "sc_ilen sc3 > sc_mru sc3 + 6" | "sc_ilen sc3 \<le> sc_mru sc3 + 6" "\<not> room" | "sc_ilen sc3 \<le> sc_mru sc3 + 6" room
    by linarith
  then show ?thesis
  proof cases
    case 1
    then show ?thesis using e r3 holding_bufs [OF h3] l m3 by auto
  next
    case 2
    then have "\<not> pool_ok E" using next_mbuf_room [of E sc3 p] h3 n l H by auto
    then show ?thesis using 2 e r4 k(4) by auto
  next
    case 3
    let ?s = "(store [c] sc4)\<lparr>sc_ilen := sc_ilen sc4, sc_fcs := PPP_FCS (dh E) (sc_fcs sc4) c\<rparr>"
    obtain full cur rest where f: "filling E full cur rest sc4" "0 < M_TRAILINGSPACE cur" "contents (full @ [cur]) = p"
      using full [OF 3(2)] by auto
    have "filling E full (cur\<lparr>m_dat := m_dat cur @ [c]\<rparr>) rest (store [c] sc4)"
      by (rule store_filling [OF f(1)]) (use f(2) in auto)
    then have hs: "holding E ?s (p @ [c])"
      unfolding holding_def using f(3)
      by - (rule exI [of _ full], rule exI [of _ "cur\<lparr>m_dat := m_dat cur @ [c]\<rparr>"], rule exI [of _ rest],
        auto simp: contents_simps filling_def)
    have "have_bytes E ?s (p @ [c])"
      using hs holding_bufs [OF hs] l k(2) by (simp add: have_bytes_def)
    moreover have "rx_only sc2 ?s"
      using r4 by (rule rx_only_trans) (simp add: store_def rx_only_def)
    ultimately show ?thesis using 3 e l k(3) m3 by (intro exI [of _ ?s]) (auto simp: have_bytes_def sc3_def)
  qed
qed

lemma data_octet_rest:
  fixes c :: u8
  assumes "rfc1662 (dh E)" "first_octet E c sc = (sc1, go)"
  defines "sc2 \<equiv> if sc_ilen sc1 = 2 \<and> c AND 1 = 1 then store [0] sc1 else sc1"
  shows "data_octet E c sc = (if \<not> go then flush E sc1 else if sc_ilen sc1 = 1 \<and> c \<noteq> PPP_UI (dh E) then flush E sc1
    else if sc_ilen sc2 = 3 \<and> c AND 1 = 0 then flush E sc2 else rest_octet E c sc2)"
proof -
  have H: "PPP_HDRLEN (dh E) = 4" "PPP_FCSLEN (dh E) = 2" using assms(1) by (auto simp: rfc1662_def)
  show ?thesis
    unfolding data_octet_def assms(2) rest_octet_def sc2_def Let_def prod.case H by (simp add: case_prod_beta add.assoc)
qed

lemma data_octet_accept:
  fixes c :: u8
  assumes "rfc1662 (dh E)" "pool_sizes E" "have_bytes E sc p"
  defines "a \<equiv> accept (dh E) (has sc (SC_REJ_COMP_AC (dh E))) p c"
  shows "\<exists>sc'. rx_only sc sc' \<and> bufs_ok (sc_m sc') \<and>
    (data_octet E c sc = flush E sc' \<and>
       (pool_ok E \<and> 0 \<le> sc_mru sc \<longrightarrow> (case a of None \<Rightarrow> True | Some p' \<Rightarrow> int (length p') > sc_mru sc + 6)) \<or>
     data_octet E c sc = sc' \<and> (\<exists>p'. a = Some p' \<and> int (length p') \<le> sc_mru sc + 6 \<and> have_bytes E sc' p') \<and>
       sc_fcs sc' = PPP_FCS (dh E) (if p = [] then PPP_INITFCS (dh E) else sc_fcs sc) c)"
proof -
  let ?H = "dh E"
  have H: "PPP_ALLSTATIONS ?H = 0xff" "PPP_UI ?H = 3" using assms(1) by (auto simp: rfc1662_def)
  define ac where "ac \<longleftrightarrow> p = [] \<and> c \<noteq> PPP_ALLSTATIONS ?H"
  define p1 where "p1 = (if ac then [0xff, 3] else p)"
  define f where "f = (if p = [] then PPP_INITFCS ?H else sc_fcs sc)"
  have "\<exists>sc1 go. first_octet E c sc = (sc1, go) \<and> rx_only sc sc1 \<and> bufs_ok (sc_m sc1) \<and>
    (go \<longrightarrow> holding E sc1 p1 \<and> sc_ilen sc1 = int (length p1) \<and> sc_fcs sc1 = f) \<and>
    (go \<longrightarrow> \<not> (ac \<and> has sc (SC_REJ_COMP_AC ?H))) \<and>
    (\<not> go \<and> pool_ok E \<and> 0 \<le> sc_mru sc \<longrightarrow> ac \<and> has sc (SC_REJ_COMP_AC ?H))"
  proof (cases "p = []")
    case True
    then have "sc_ilen sc = 0" "bufs_ok (sc_m sc)" using assms(3) by (auto simp: have_bytes_def)
    from first_octet_fresh [OF assms(1,2) this, of c] True show ?thesis
      unfolding ac_def p1_def f_def by (auto simp: if_distrib [of length])
  next
    case False
    then have "first_octet E c sc = (sc, True)" using assms(3) by (auto simp: first_octet_def have_bytes_def)
    then show ?thesis using False assms(3) rx_only_refl by (auto simp: ac_def p1_def f_def have_bytes_def)
  qed
  then obtain sc1 go where fo: "first_octet E c sc = (sc1, go)" and r1: "rx_only sc sc1" and b1: "bufs_ok (sc_m sc1)"
    and go: "go \<Longrightarrow> holding E sc1 p1" "go \<Longrightarrow> sc_ilen sc1 = int (length p1)" "go \<Longrightarrow> sc_fcs sc1 = f"
    and rej: "go \<Longrightarrow> \<not> (ac \<and> has sc (SC_REJ_COMP_AC ?H))"
    and norej: "\<not> go \<Longrightarrow> pool_ok E \<and> 0 \<le> sc_mru sc \<Longrightarrow> ac \<and> has sc (SC_REJ_COMP_AC ?H)"
    by blast
  define p2 where "p2 = (if length p1 = 2 \<and> c AND 1 = 1 then p1 @ [0] else p1)"
  define sc2 where "sc2 = (if sc_ilen sc1 = 2 \<and> c AND 1 = 1 then store [0] sc1 else sc1)"
  have a: "a = (if ac \<and> has sc (SC_REJ_COMP_AC ?H) \<or> length p1 = 1 \<and> c \<noteq> PPP_UI ?H \<or> length p2 = 3 \<and> c AND 1 = 0
      then None else Some (p2 @ [c]))"
    unfolding a_def accept_def Let_def p1_def p2_def ac_def H by simp
  have d: "data_octet E c sc = (if \<not> go then flush E sc1 else if sc_ilen sc1 = 1 \<and> c \<noteq> PPP_UI ?H then flush E sc1
    else if sc_ilen sc2 = 3 \<and> c AND 1 = 0 then flush E sc2 else rest_octet E c sc2)"
    using data_octet_rest [OF assms(1) fo] by (simp add: sc2_def)
  show ?thesis
  proof (cases go)
    case False
    then show ?thesis using d a r1 b1 norej by auto
  next
    case True
    have l: "sc_ilen sc1 = int (length p1)" and rej: "\<not> (ac \<and> has sc (SC_REJ_COMP_AC ?H))" using go True rej by auto
    have two: "sc_ilen sc1 = 2 \<longleftrightarrow> length p1 = 2" using l by linarith
    have r2: "rx_only sc sc2" using r1 rx_only_trans [OF r1 rx_only_store] by (simp add: sc2_def)
    have h2: "holding E sc2 p2" using go(1) [OF True] store_holding [OF go(1) [OF True], of "[0]"] two by (simp add: sc2_def p2_def)
    have l2: "sc_ilen sc2 = int (length p2)" using l two by (simp add: sc2_def p2_def store_def)
    have f2: "sc_fcs sc2 = f" using go(3) [OF True] by (simp add: sc2_def store_def)
    have one: "sc_ilen sc1 = 1 \<longleftrightarrow> length p1 = 1" "sc_ilen sc2 = 3 \<longleftrightarrow> length p2 = 3" using l l2 by linarith+
    have mru: "sc_mru sc2 = sc_mru sc" using rx_only_fields [OF r2] by simp
    consider "length p1 = 1 \<and> c \<noteq> PPP_UI ?H" | "length p2 = 3 \<and> c AND 1 = 0" "\<not> (length p1 = 1 \<and> c \<noteq> PPP_UI ?H)"
      | "\<not> (length p1 = 1 \<and> c \<noteq> PPP_UI ?H)" "\<not> (length p2 = 3 \<and> c AND 1 = 0)" by blast
    then show ?thesis
    proof cases
      case 1
      then show ?thesis using d True one a r1 b1 by auto
    next
      case 2
      then show ?thesis using d True one a r2 holding_bufs [OF h2] by auto
    next
      case 3
      then have d': "data_octet E c sc = rest_octet E c sc2" "a = Some (p2 @ [c])" using d True one a rej by auto
      from rest_octet [OF assms(1,2) h2 l2, of c] obtain sc' where s: "rx_only sc2 sc'" "bufs_ok (sc_m sc')"
        "rest_octet E c sc2 = flush E sc' \<and> (pool_ok E \<longrightarrow> int (length p2) + 1 > sc_mru sc2 + 6) \<or>
         rest_octet E c sc2 = sc' \<and> int (length p2) + 1 \<le> sc_mru sc2 + 6 \<and> have_bytes E sc' (p2 @ [c]) \<and>
         sc_fcs sc' = PPP_FCS (dh E) (sc_fcs sc2) c" by blast
      have "rx_only sc sc'" using r2 s(1) by (rule rx_only_trans)
      then show ?thesis using s(2,3) unfolding d' mru f2 by (intro exI [of _ sc']) (auto simp: f_def add.commute)
    qed
  qed
qed

section \<open>The end of a frame\<close>

lemma drop_last_append: "drop_last (length a) (a @ m # b) = a @ m\<lparr>m_dat := butlast (m_dat m)\<rparr> # b"
  by (simp add: drop_last_def)

lemma bufs_ok_append: "bufs_ok (a @ b) \<longleftrightarrow> bufs_ok a \<and> bufs_ok b"
  by (auto simp: bufs_ok_def)

lemma bufs_ok_Cons: "bufs_ok (m # ms) \<longleftrightarrow> fits m \<and> 4 \<le> m_extSize m \<and> bufs_ok ms"
  by (auto simp: bufs_ok_def)

lemma fits_butlast: "fits m \<Longrightarrow> fits (m\<lparr>m_dat := butlast (m_dat m)\<rparr>)"
  by (simp add: fits_def)

text \<open>The frame check sequence is cut off, also when it lies in two mbufs.\<close>

lemma cut_fcs:
  assumes "holding E sc p" "6 \<le> length p"
  defines "ms1 \<equiv> drop_last (sc_mc sc) (sc_m sc)"
  defines "j \<equiv> if m_dat (ms1 ! sc_mc sc) = [] then sc_mc sc - 1 else sc_mc sc"
  shows "contents (take (j + 1) (drop_last j ms1)) = take (length p - 2) p \<and>
    bufs_ok (drop_last j ms1) \<and> take (j + 1) (drop_last j ms1) \<noteq> [] \<and>
    4 \<le> length (m_dat (hd (take (j + 1) (drop_last j ms1))))"
proof -
  obtain full cur rest where f: "filling E full cur rest sc" and ne: "m_dat cur = [] \<longrightarrow> full = []" and c: "contents (full @ [cur]) = p"
    using assms(1) by (auto simp: holding_def)
  have b: "bufs_ok (full @ cur # rest)" and m: "sc_m sc = full @ cur # rest" "sc_mc sc = length full"
    using f by (auto simp: filling_def)
  have ne: "m_dat cur \<noteq> []" using ne c assms(2) by (auto simp: contents_simps)
  have four: "4 \<le> length (m_dat m)" if "full = m # ms" for m ms
    using f that by (auto simp: filling_def M_TRAILINGSPACE_def)
  have p2: "take (length p - 2) p = butlast (butlast p)" by (simp add: butlast_conv_take numeral_2_eq_2)
  have ms1: "ms1 = full @ cur\<lparr>m_dat := butlast (m_dat cur)\<rparr> # rest" unfolding ms1_def m drop_last_append ..
  show ?thesis
  proof (cases "butlast (m_dat cur) = []")
    case False
    then have j: "j = length full" by (simp add: j_def ms1 m)
    have "drop_last j ms1 = full @ cur\<lparr>m_dat := butlast (butlast (m_dat cur))\<rparr> # rest" unfolding j ms1 drop_last_append by simp
    moreover have "fits (cur\<lparr>m_dat := butlast (butlast (m_dat cur))\<rparr>)"
      using b fits_butlast [OF fits_butlast, of cur] by (simp add: bufs_ok_def)
    ultimately show ?thesis
      using b ne False c assms(2) four unfolding p2 j by (cases full) (auto simp: bufs_ok_append bufs_ok_Cons contents_simps butlast_append)
  next
    case True
    then have c1: "m_dat cur = [last (m_dat cur)]" using ne by (metis append_Nil append_butlast_last_id)
    then have "full \<noteq> []" using c assms(2) by (cases "m_dat cur") (auto simp: contents_simps)
    then obtain f' l where full: "full = f' @ [l]" by (metis append_butlast_last_id)
    have j: "j = length f'" using True by (simp add: j_def ms1 m full nth_append)
    have d: "drop_last j ms1 = f' @ l\<lparr>m_dat := butlast (m_dat l)\<rparr> # cur\<lparr>m_dat := []\<rparr> # rest"
      using drop_last_append [of f' l] True unfolding j ms1 full by simp
    have l: "m_dat l \<noteq> []" using f full by (simp add: filling_def)
    have "butlast (butlast p) = butlast (contents full)"
      unfolding c [symmetric] contents_append using c1 by (metis append_Nil2 butlast_snoc contents_Cons contents_Nil)
    moreover have "4 \<le> length (m_dat (hd (take (j + 1) (drop_last j ms1))))"
    proof (cases f')
      case Nil
      have "length (m_dat cur) = 1" by (subst c1) simp
      then have "length p = length (m_dat l) + 1" unfolding c [symmetric] full Nil by (simp add: contents_simps)
      then show ?thesis unfolding d unfolding j using assms(2) Nil by simp
    next
      case (Cons m ms)
      then show ?thesis unfolding d unfolding j using four [of m "ms @ [l]"] full by simp
    qed
    ultimately show ?thesis
      unfolding p2 d unfolding j using b l by (auto simp: full bufs_ok_append bufs_ok_Cons contents_simps butlast_append fits_butlast fits_def)
  qed
qed

section \<open>What delivering a packet leaves alone\<close>

definition rx_view :: "softc \<Rightarrow> chain \<times> nat \<times> int \<times> u16 \<times> u32 \<times> int \<times> u32 \<times> u32 list" where
  "rx_view sc = (sc_m sc, sc_mc sc, sc_ilen sc, sc_fcs sc, sc_flags sc, sc_mru sc, sc_rasyncmap sc, sc_asyncmap sc)"

lemma pass_up_view: "rx_view (pass_up E proto ms sc) = rx_view sc"
  by (auto simp: pass_up_def Let_def rx_view_def split: option.splits)

lemma vj_in_view: "rx_view (snd (vj_in E proto m n sc)) = rx_view sc"
  by (auto simp: vj_in_def Let_def drop_input_def rx_view_def split: option.splits prod.splits)

lemma view_ipackets: "rx_view (sc\<lparr>if_ipackets := n\<rparr>) = rx_view sc"
  by (simp add: rx_view_def)

lemma ppppktin_view: "rx_view (ppppktin E ms sc) = rx_view sc"
  unfolding ppppktin_def Let_def case_prod_beta
  by (auto simp: pass_up_view vj_in_view view_ipackets split: option.splits)

section \<open>The refinement\<close>

lemma have_bytes_cong:
  "sc_m sc' = sc_m sc \<Longrightarrow> sc_mc sc' = sc_mc sc \<Longrightarrow> sc_ilen sc' = sc_ilen sc \<Longrightarrow> have_bytes E sc' p = have_bytes E sc p"
  by (simp add: have_bytes_def holding_def filling_def)

lemma have_bytes_unique: "have_bytes E sc p \<Longrightarrow> (if sc_ilen sc = 0 then [] else contents (take (sc_mc sc + 1) (sc_m sc))) = p"
  using holding_contents by (auto simp: have_bytes_def)

lemma have_bytes_abs:
  "have_bytes E sc p \<Longrightarrow> \<not> has sc (SC_FLUSH (dh E)) \<Longrightarrow>
    rx_abs E sc = Frame (has sc (SC_ESCAPED (dh E))) p (if p = [] then PPP_INITFCS (dh E) else sc_fcs sc)"
  unfolding rx_abs_def have_bytes_unique by (auto simp: have_bytes_def)

text \<open>The fields the configuration is read from.\<close>

definition same_cfg :: "dev \<Rightarrow> softc \<Rightarrow> softc \<Rightarrow> bool" where
  "same_cfg E sc sc' \<longleftrightarrow> sc_mru sc' = sc_mru sc \<and> sc_rasyncmap sc' = sc_rasyncmap sc \<and> sc_asyncmap sc' = sc_asyncmap sc \<and>
     (\<forall>k\<in>{SC_REJ_COMP_AC (dh E), SC_REJ_COMP_TCP (dh E), SC_ENABLE_IP (dh E)}. has sc' k = has sc k)"

definition same_queues :: "softc \<Rightarrow> softc \<Rightarrow> bool" where
  "same_queues sc sc' \<longleftrightarrow> sc_inq sc' = sc_inq sc \<and> ipintrq sc' = ipintrq sc \<and> if_flags sc' = if_flags sc"

text \<open>What has become of a byte: the new state of the deframer, and the packet that was handed to \<open>ppppktin\<close>.\<close>

definition received :: "dev \<Rightarrow> softc \<Rightarrow> softc \<Rightarrow> bytes option \<Rightarrow> bool" where
  "received E sc sc' out \<longleftrightarrow>
     (case out of
        None \<Rightarrow> same_queues sc sc'
      | Some pkt \<Rightarrow> \<exists>ms sc1. ms \<noteq> [] \<and> 4 \<le> length (m_dat (hd ms)) \<and> contents ms = pkt \<and> same_queues sc sc1 \<and> same_cfg E sc sc1 \<and> sc' = pppgetm E (ppppktin E ms sc1))"

lemma rcv_apart:
  assumes "flags_apart H" "k \<in> {SC_FLUSH H, SC_ESCAPED H, SC_REJ_COMP_AC H, SC_REJ_COMP_TCP H, SC_ENABLE_IP H}"
  shows "rcv_bits H c AND k = 0"
proof -
  have "SC_RCV_B7_0 H AND k = 0" "SC_RCV_B7_1 H AND k = 0" "SC_RCV_EVNP H AND k = 0" "SC_RCV_ODDP H AND k = 0"
    using assms by (auto simp: flags_apart_def)
  then show ?thesis
    by (simp add: rcv_bits_def and.commute [of _ k] bit.conj_disj_distrib)
qed

text \<open>A byte of data.\<close>

lemma data_octet_refines:
  assumes "rfc1662 (dh E)" "flags_apart (dh E)" "pool_sizes E" "rx_inv E sc" "have_bytes E sc p" "\<not> has sc (SC_FLUSH (dh E))"
    "\<not> has sc (SC_ESCAPED (dh E))"
  shows "rx_inv E (data_octet E c sc) \<and> same_cfg E sc (data_octet E c sc) \<and> same_queues sc (data_octet E c sc) \<and>
    (pool_ok E \<longrightarrow> rx_abs E (data_octet E c sc) =
      (case accept (dh E) (has sc (SC_REJ_COMP_AC (dh E))) p c of
         None \<Rightarrow> Flushing
       | Some p' \<Rightarrow> if int (length p') > sc_mru sc + 6 then Flushing
           else Frame False p' (PPP_FCS (dh E) (if p = [] then PPP_INITFCS (dh E) else sc_fcs sc) c)))"
proof -
  let ?a = "accept (dh E) (has sc (SC_REJ_COMP_AC (dh E))) p c"
  have mru: "0 \<le> sc_mru sc" "sc_mru sc \<le> PPP_MAXMRU (dh E)" using assms(4) by (auto simp: rx_inv_def)
  have F: "SC_FLUSH (dh E) \<noteq> 0" "k \<in> {SC_REJ_COMP_AC (dh E), SC_REJ_COMP_TCP (dh E), SC_ENABLE_IP (dh E)} \<Longrightarrow> SC_FLUSH (dh E) AND k = 0" for k
    using assms(2) by (auto simp: flags_apart_def and.commute)
  obtain sc' where s: "rx_only sc sc'" "bufs_ok (sc_m sc')" and
    d: "data_octet E c sc = flush E sc' \<and> (pool_ok E \<longrightarrow> (case ?a of None \<Rightarrow> True | Some p' \<Rightarrow> int (length p') > sc_mru sc + 6)) \<or>
     data_octet E c sc = sc' \<and> (\<exists>p'. ?a = Some p' \<and> int (length p') \<le> sc_mru sc + 6 \<and> have_bytes E sc' p') \<and>
       sc_fcs sc' = PPP_FCS (dh E) (if p = [] then PPP_INITFCS (dh E) else sc_fcs sc) c"
    using data_octet_accept [OF assms(1,3,5), of c] mru by auto
  note k = rx_only_fields [OF s(1)]
  from d show ?thesis
  proof (elim disjE conjE exE)
    assume f: "data_octet E c sc = flush E sc'" and a: "pool_ok E \<longrightarrow> (case ?a of None \<Rightarrow> True | Some p' \<Rightarrow> int (length p') > sc_mru sc + 6)"
    have e: "flush E sc' = set_flag (SC_FLUSH (dh E)) (drop_input sc')" using k(1) assms(6) by (simp add: flush_def)
    have h: "has (flush E sc') (SC_FLUSH (dh E))" unfolding e by (rule has_set [OF F(1)])
    have "same_cfg E sc (flush E sc')"
      unfolding e same_cfg_def using k has_or [OF F(2)] by (auto simp: set_flag_def drop_input_def)
    moreover have "same_queues sc (flush E sc')" unfolding e using k by (simp add: same_queues_def set_flag_def drop_input_def)
    moreover have "rx_inv E (flush E sc')"
      using h s(2) mru k unfolding rx_inv_def by (simp add: e set_flag_def drop_input_def)
    ultimately show ?thesis using f a h by (auto simp: rx_abs_def split: option.splits)
  next
    fix p' assume a: "data_octet E c sc = sc'" "?a = Some p'" "int (length p') \<le> sc_mru sc + 6" "have_bytes E sc' p'"
      and f: "sc_fcs sc' = PPP_FCS (dh E) (if p = [] then PPP_INITFCS (dh E) else sc_fcs sc) c"
    have "p' \<noteq> []" using a(2) by (auto simp: accept_def Let_def split: if_splits)
    then have "rx_abs E sc' = Frame False p' (sc_fcs sc')"
      using have_bytes_abs [OF a(4)] assms(6,7) k(1) by simp
    moreover have "rx_inv E sc'" using a(3,4) s(2) k mru by (auto simp: rx_inv_def)
    ultimately show ?thesis using a f k by (auto simp: same_cfg_def same_queues_def)
  qed
qed

text \<open>A flag.\<close>

lemma flag_octet_refines:
  assumes "rfc1662 (dh E)" "flags_apart (dh E)" "pool_sizes E" "rx_inv E sc"
  shows "rx_inv E (flag_octet E sc) \<and> same_cfg E sc (flag_octet E sc) \<and>
    rx_abs E (flag_octet E sc) = Frame False [] (PPP_INITFCS (dh E)) \<and>
    received E sc (flag_octet E sc) (snd (rx_step (dh E) sc (rx_abs E sc) (PPP_FLAG (dh E))))"
proof -
  let ?H = "dh E" let ?bad = "SC_FLUSH (dh E) OR SC_ESCAPED (dh E)"
  have H: "PPP_HDRLEN ?H = 4" "PPP_FCSLEN ?H = 2" using assms(1) by (auto simp: rfc1662_def)
  have apart: "?bad AND k = 0" if "k \<in> {SC_REJ_COMP_AC ?H, SC_REJ_COMP_TCP ?H, SC_ENABLE_IP ?H}" for k
  proof -
    have "SC_FLUSH ?H AND k = 0" "SC_ESCAPED ?H AND k = 0" using assms(2) that by (auto simp: flags_apart_def and.commute)
    then show ?thesis by (simp add: and.commute [of _ k] bit.conj_disj_distrib)
  qed
  have inv: "bufs_ok (sc_m sc)" "0 \<le> sc_mru sc" "sc_mru sc \<le> PPP_MAXMRU ?H" using assms(4) by (auto simp: rx_inv_def)
  have idle: "rx_inv E sc' \<and> rx_abs E sc' = Frame False [] (PPP_INITFCS ?H)"
    if "bufs_ok (sc_m sc')" "sc_mru sc' = sc_mru sc" "sc_ilen sc' = 0" "\<not> has sc' (SC_FLUSH ?H)" "\<not> has sc' (SC_ESCAPED ?H)" for sc'
  proof -
    have b: "have_bytes E sc' []" using that by (simp add: have_bytes_def)
    have "0 \<le> PPP_MAXMRU ?H + 6" using inv by linarith
    then have "\<exists>p. have_bytes E sc' p \<and> int (length p) \<le> PPP_MAXMRU ?H + 6" using b by (intro exI [of _ "[]"]) simp
    then show ?thesis using that inv have_bytes_abs [OF b that(4)] by (simp add: rx_inv_def)
  qed
  show ?thesis
  proof (cases "has sc ?bad")
    case True
    let ?s = "clear_flag ?bad (sc\<lparr>sc_ilen := 0, sc_comp := snd (sl_uncompress_tcp (dv E) [] TYPE_ERROR (sc_comp sc))\<rparr>)"
    have e: "flag_octet E sc = ?s" using True by (simp add: flag_octet_def Let_def)
    have "\<not> has ?s (SC_FLUSH ?H)" "\<not> has ?s (SC_ESCAPED ?H)"
      by (rule has_clear_part, simp)+
    moreover have "same_cfg E sc ?s"
      unfolding same_cfg_def using has_clear_other [OF apart] by (auto simp: clear_flag_def)
    moreover have "snd (rx_step ?H sc (rx_abs E sc) (PPP_FLAG ?H)) = None"
      using True unfolding has_either by (auto simp: rx_abs_def)
    ultimately show ?thesis
      using idle [of ?s] inv unfolding e by (simp add: received_def same_queues_def clear_flag_def)
  next
    case False
    then have nf: "\<not> has sc (SC_FLUSH ?H)" "\<not> has sc (SC_ESCAPED ?H)" by (auto simp: has_either)
    obtain p where p: "have_bytes E sc p" using assms(4) nf by (auto simp: rx_inv_def)
    have abs: "rx_abs E sc = Frame False p (if p = [] then PPP_INITFCS ?H else sc_fcs sc)"
      using have_bytes_abs [OF p nf(1)] nf(2) by simp
    have l: "sc_ilen sc = int (length p)" using p by (simp add: have_bytes_def)
    show ?thesis
    proof (cases "p \<noteq> [] \<and> sc_fcs sc = PPP_GOODFCS ?H \<and> 6 \<le> length p")
      case good: True
      define ms1 where "ms1 = drop_last (sc_mc sc) (sc_m sc)"
      define j where "j = (if m_dat (ms1 ! sc_mc sc) = [] then sc_mc sc - 1 else sc_mc sc)"
      define ms where "ms = take (j + 1) (drop_last j ms1)"
      define s1 where "s1 = sc\<lparr>sc_ilen := 0, sc_m := drop (j + 1) (drop_last j ms1), sc_mc := j\<rparr>"
      have h: "holding E sc p" using p good by (simp add: have_bytes_def)
      have c: "contents ms = take (length p - 2) p" "bufs_ok (drop_last j ms1)" "ms \<noteq> []" "4 \<le> length (m_dat (hd ms))"
        using cut_fcs [OF h] good by (auto simp: ms_def ms1_def j_def)
      have e: "flag_octet E sc = pppgetm E (ppppktin E ms s1)"
        unfolding flag_octet_def Let_def ms_def s1_def j_def ms1_def using False good l H by simp
      have b: "bufs_ok (sc_m s1)" using c(2) by (auto simp: s1_def bufs_ok_def dest: in_set_dropD)
      have g: "grows (ppppktin E ms s1) (flag_octet E sc)" unfolding e by (rule getm_grows [OF assms(3)])
      have v: "rx_view (ppppktin E ms s1) = rx_view s1" by (rule ppppktin_view)
      have f: "sc_flags (flag_octet E sc) = sc_flags sc" "sc_mru (flag_octet E sc) = sc_mru sc"
        "sc_rasyncmap (flag_octet E sc) = sc_rasyncmap sc" "sc_asyncmap (flag_octet E sc) = sc_asyncmap sc"
        "sc_ilen (flag_octet E sc) = 0" "bufs_ok (sc_m (flag_octet E sc))"
        using rx_only_fields [OF rx_only_grows [OF g]] v g grows_bufs [OF g] b
        by (auto simp: rx_view_def s1_def grows_def)
      have "received E sc (flag_octet E sc) (Some (take (length p - 2) p))"
        unfolding received_def option.case using e c
        by - (rule exI [of _ ms], rule exI [of _ s1], simp add: s1_def same_queues_def same_cfg_def)
      then show ?thesis
        using idle [OF f(6,2,5)] f nf abs good by (simp add: same_cfg_def)
    next
      case bad: False
      consider "0 < sc_ilen sc" "sc_fcs sc \<noteq> PPP_GOODFCS ?H" | "\<not> (0 < sc_ilen sc \<and> sc_fcs sc \<noteq> PPP_GOODFCS ?H)" "sc_ilen sc < 6"
        using bad l by fastforce
      then have f: "sc_m (flag_octet E sc) = sc_m sc" "sc_flags (flag_octet E sc) = sc_flags sc" "sc_mru (flag_octet E sc) = sc_mru sc"
        "sc_ilen (flag_octet E sc) = 0" "sc_rasyncmap (flag_octet E sc) = sc_rasyncmap sc" "sc_asyncmap (flag_octet E sc) = sc_asyncmap sc"
        "same_queues sc (flag_octet E sc)"
        unfolding flag_octet_def Let_def using False H by (cases; simp add: drop_input_def same_queues_def)+
      have "snd (rx_step ?H sc (rx_abs E sc) (PPP_FLAG ?H)) = None"
        using bad abs by auto
      then show ?thesis
        using idle [of "flag_octet E sc"] inv nf f by (simp add: received_def same_cfg_def)
    qed
  qed
qed

lemma same_cfg_trans: "same_cfg E a b \<Longrightarrow> same_cfg E b c \<Longrightarrow> same_cfg E a c"
  by (simp add: same_cfg_def)

lemma same_queues_trans: "same_queues a b \<Longrightarrow> same_queues b c \<Longrightarrow> same_queues a c"
  by (simp add: same_queues_def)

lemma received_from:
  "same_queues a b \<Longrightarrow> same_cfg E a b \<Longrightarrow> received E b c out \<Longrightarrow> received E a c out"
  unfolding received_def by (auto split: option.splits dest: same_queues_trans same_cfg_trans)

text \<open>The counter and the parity flags at the beginning of \<open>pppinput\<close>.\<close>

lemma seen_byte:
  fixes sc :: softc and c :: u8 and n :: nat
  assumes "flags_apart (dh E)"
  defines "sc1 \<equiv> set_flag (rcv_bits (dh E) c) (sc\<lparr>sc_bytesrcvd := n\<rparr>)"
  shows "rx_abs E sc1 = rx_abs E sc" "rx_inv E sc1 = rx_inv E sc" "have_bytes E sc1 p = have_bytes E sc p" "same_cfg E sc sc1"
    "same_queues sc sc1" "has sc1 (SC_FLUSH (dh E)) = has sc (SC_FLUSH (dh E))"
    "has sc1 (SC_ESCAPED (dh E)) = has sc (SC_ESCAPED (dh E))" "sc_fcs sc1 = sc_fcs sc"
proof -
  have h: "has sc1 k = has sc k" if "k \<in> {SC_FLUSH (dh E), SC_ESCAPED (dh E), SC_REJ_COMP_AC (dh E), SC_REJ_COMP_TCP (dh E), SC_ENABLE_IP (dh E)}" for k
    unfolding sc1_def using has_or [OF rcv_apart [OF assms(1) that]] by simp
  have b: "have_bytes E sc1 p = have_bytes E sc p" for p
    by (rule have_bytes_cong) (simp_all add: sc1_def set_flag_def)
  show "have_bytes E sc1 p = have_bytes E sc p" by (rule b)
  show "rx_abs E sc1 = rx_abs E sc" using h by (simp add: rx_abs_def sc1_def set_flag_def)
  show "rx_inv E sc1 = rx_inv E sc" using h b by (simp add: rx_inv_def) (simp add: sc1_def set_flag_def)
  show "same_cfg E sc sc1" using h by (simp add: same_cfg_def) (simp add: sc1_def set_flag_def)
  show "same_queues sc sc1" "sc_fcs sc1 = sc_fcs sc"
    by (simp_all add: sc1_def set_flag_def same_queues_def)
  show "has sc1 (SC_FLUSH (dh E)) = has sc (SC_FLUSH (dh E))" "has sc1 (SC_ESCAPED (dh E)) = has sc (SC_ESCAPED (dh E))"
    using h by simp_all
qed

lemma rx_step_data:
  assumes "c \<noteq> PPP_FLAG H" "\<not> (c < 0x20 \<and> sc_rasyncmap cfg AND push_bit (unat c) 1 \<noteq> 0)" "\<not> (\<not> e \<and> c = PPP_ESCAPE H)"
  shows "rx_step H cfg (Frame e p f) c = (let d = (if e then c XOR PPP_TRANS H else c) in
        (case accept H (has cfg (SC_REJ_COMP_AC H)) p d of
           None \<Rightarrow> Flushing
         | Some p' \<Rightarrow> if int (length p') > sc_mru cfg + 6 then Flushing else Frame False p' (PPP_FCS H f d), None))"
  using assms by (subst rx_step.simps) (simp only: if_False if_True simp_thms)

lemma pppinput_step:
  assumes "rfc1662 (dh E)" "flags_apart (dh E)" "pool_sizes E" "rx_inv E sc"
  shows "rx_inv E (pppinput E sc c) \<and> same_cfg E sc (pppinput E sc c) \<and>
    (pool_ok E \<longrightarrow> rx_abs E (pppinput E sc c) = fst (rx_step (dh E) sc (rx_abs E sc) c)) \<and>
    received E sc (pppinput E sc c) (snd (rx_step (dh E) sc (rx_abs E sc) c))"
proof -
  let ?H = "dh E"
  define sc1 where "sc1 = set_flag (rcv_bits ?H c) (sc\<lparr>sc_bytesrcvd := sc_bytesrcvd sc + 1\<rparr>)"
  note seen = seen_byte [OF assms(2), where c = c and sc = sc and n = "sc_bytesrcvd sc + 1", folded sc1_def]
  have i1: "rx_inv E sc1" using seen assms(4) by simp
  have cfg: "sc_mru sc1 = sc_mru sc" "sc_rasyncmap sc1 = sc_rasyncmap sc" "has sc1 (SC_REJ_COMP_AC ?H) = has sc (SC_REJ_COMP_AC ?H)"
    using seen(4) by (simp_all add: same_cfg_def)
  have F: "PPP_FLAG ?H \<noteq> PPP_ESCAPE ?H" using assms(1) by (simp add: rfc1662_def)
  have ap: "SC_ESCAPED ?H \<noteq> 0" "SC_ESCAPED ?H AND SC_FLUSH ?H = 0"
    "k \<in> {SC_REJ_COMP_AC ?H, SC_REJ_COMP_TCP ?H, SC_ENABLE_IP ?H} \<Longrightarrow> SC_ESCAPED ?H AND k = 0" for k
    using assms(2) by (auto simp: flags_apart_def and.commute)
  have e: "pppinput E sc c =
     (if c = PPP_FLAG ?H then flag_octet E sc1 else if has sc1 (SC_FLUSH ?H) then sc1
      else if c < 0x20 \<and> sc_rasyncmap sc1 AND push_bit (unat c) 1 \<noteq> 0 then sc1
      else if has sc1 (SC_ESCAPED ?H) then data_octet E (c XOR PPP_TRANS ?H) (clear_flag (SC_ESCAPED ?H) sc1)
      else if c = PPP_ESCAPE ?H then set_flag (SC_ESCAPED ?H) sc1 else data_octet E c sc1)"
    unfolding pppinput_def Let_def sc1_def ..
  have quiet: "received E sc sc1 None" using seen(5) by (simp add: received_def)
  have view: "rx_inv E sc2 \<and> same_cfg E sc sc2 \<and> same_queues sc sc2 \<and> have_bytes E sc2 p = have_bytes E sc1 p"
    if "sc2 = clear_flag (SC_ESCAPED ?H) sc1 \<or> sc2 = set_flag (SC_ESCAPED ?H) sc1" for sc2 p
  proof -
    have b: "have_bytes E sc2 p = have_bytes E sc1 p" for p
      using that by (intro have_bytes_cong) (auto simp: clear_flag_def set_flag_def)
    have h: "has sc2 k = has sc1 k" if "SC_ESCAPED ?H AND k = 0" for k
      using has_or [OF that] has_clear_other [OF that] \<open>sc2 = _ \<or> _\<close> by blast
    have f: "sc_m sc2 = sc_m sc1" "sc_mru sc2 = sc_mru sc1" "sc_rasyncmap sc2 = sc_rasyncmap sc1" "sc_asyncmap sc2 = sc_asyncmap sc1"
      "same_queues sc1 sc2" using that by (auto simp: clear_flag_def set_flag_def same_queues_def)
    have "same_cfg E sc1 sc2" using f h [OF ap(3)] by (simp add: same_cfg_def)
    then show ?thesis using b f h [OF ap(2)] i1 seen(4,5) same_cfg_trans same_queues_trans by (auto simp: rx_inv_def)
  qed
  show ?thesis
  proof (cases "c = PPP_FLAG ?H")
    case True
    have "received E sc (flag_octet E sc1) (snd (rx_step ?H sc (rx_abs E sc) c))"
      using flag_octet_refines [OF assms(1-3) i1] seen True by (cases "rx_abs E sc") (auto intro: received_from)
    moreover have "fst (rx_step ?H sc (rx_abs E sc) c) = Frame False [] (PPP_INITFCS ?H)" using True by (cases "rx_abs E sc") auto
    ultimately show ?thesis
      using flag_octet_refines [OF assms(1-3) i1] True e same_cfg_trans [OF seen(4)] by auto
  next
    case nofl: False
    show ?thesis
    proof (cases "has sc (SC_FLUSH ?H)")
      case True
      then have "rx_abs E sc = Flushing" by (simp add: rx_abs_def)
      then show ?thesis using e nofl True seen i1 quiet by simp
    next
      case nf: False
      then obtain p where p: "have_bytes E sc p" using assms(4) by (auto simp: rx_inv_def)
      define f where "f = (if p = [] then PPP_INITFCS ?H else sc_fcs sc)"
      have abs: "rx_abs E sc = Frame (has sc (SC_ESCAPED ?H)) p f" using have_bytes_abs [OF p nf] by (simp add: f_def)
      show ?thesis
      proof (cases "c < 0x20 \<and> sc_rasyncmap sc1 AND push_bit (unat c) 1 \<noteq> 0")
        case True
        then show ?thesis using e nofl nf seen i1 quiet abs cfg by simp
      next
        case ctl: False
        show ?thesis
        proof (cases "has sc (SC_ESCAPED ?H)")
          case True
          define sc2 where "sc2 = clear_flag (SC_ESCAPED ?H) sc1"
          have v: "rx_inv E sc2" "same_cfg E sc sc2" "same_queues sc sc2" "have_bytes E sc2 p"
            using view [of sc2 p] p seen(3) [of p] by (auto simp: sc2_def)
          have n: "\<not> has sc2 (SC_FLUSH ?H)" "\<not> has sc2 (SC_ESCAPED ?H)"
            using has_clear_other [OF ap(2)] has_clear_part [of "SC_ESCAPED ?H" "SC_ESCAPED ?H"] nf seen(6) by (auto simp: sc2_def)
          have c2: "sc_mru sc2 = sc_mru sc" "has sc2 (SC_REJ_COMP_AC ?H) = has sc (SC_REJ_COMP_AC ?H)" "sc_fcs sc2 = sc_fcs sc"
            using v(2) seen(8) by (simp_all add: same_cfg_def sc2_def clear_flag_def)
          have e': "pppinput E sc c = data_octet E (c XOR PPP_TRANS ?H) sc2" unfolding sc2_def using e nofl nf ctl True seen(6,7) by auto
          have st: "rx_step ?H sc (rx_abs E sc) c = (case accept ?H (has sc (SC_REJ_COMP_AC ?H)) p (c XOR PPP_TRANS ?H) of None \<Rightarrow> Flushing
             | Some p' \<Rightarrow> if int (length p') > sc_mru sc + 6 then Flushing else Frame False p' (PPP_FCS ?H f (c XOR PPP_TRANS ?H)), None)"
            using rx_step_data [OF nofl ctl [unfolded cfg(2)], of True p f] abs True by (simp add: Let_def del: rx_step.simps)
          show ?thesis
            using data_octet_refines [OF assms(1-3) v(1,4) n, of "c XOR PPP_TRANS ?H"] same_cfg_trans [OF v(2)] same_queues_trans [OF v(3)]
            unfolding e' c2 st received_def f_def [symmetric] by simp
        next
          case esc: False
          show ?thesis
          proof (cases "c = PPP_ESCAPE ?H")
            case True
            define sc2 where "sc2 = set_flag (SC_ESCAPED ?H) sc1"
            have v: "rx_inv E sc2" "same_cfg E sc sc2" "same_queues sc sc2" "have_bytes E sc2 p"
              using view [of sc2 p] p seen(3) [of p] by (auto simp: sc2_def)
            have n: "\<not> has sc2 (SC_FLUSH ?H)" "has sc2 (SC_ESCAPED ?H)"
              using has_or [OF ap(2)] has_set [OF ap(1)] nf seen(6) by (auto simp: sc2_def)
            have "sc_fcs sc2 = sc_fcs sc" using seen(8) by (simp add: sc2_def set_flag_def)
            then have "rx_abs E sc2 = Frame True p f" using have_bytes_abs [OF v(4) n(1)] n(2) by (simp add: f_def)
            moreover have "pppinput E sc c = sc2" unfolding sc2_def using e nofl nf ctl esc True seen(6,7) by auto
            ultimately show ?thesis using v abs nofl ctl cfg esc True by (auto simp: received_def)
          next
            case False
            have n: "\<not> has sc1 (SC_FLUSH ?H)" "\<not> has sc1 (SC_ESCAPED ?H)" "have_bytes E sc1 p" using nf esc seen p by auto
            have e': "pppinput E sc c = data_octet E c sc1" using e nofl nf ctl esc False seen(6,7) by auto
            have st: "rx_step ?H sc (rx_abs E sc) c = (case accept ?H (has sc (SC_REJ_COMP_AC ?H)) p c of None \<Rightarrow> Flushing
               | Some p' \<Rightarrow> if int (length p') > sc_mru sc + 6 then Flushing else Frame False p' (PPP_FCS ?H f c), None)"
              using rx_step_data [OF nofl ctl [unfolded cfg(2)], of False p f] False abs esc by (simp add: Let_def del: rx_step.simps)
            show ?thesis
              using data_octet_refines [OF assms(1-3) i1 n(3,1,2), of c] same_cfg_trans [OF seen(4)] same_queues_trans [OF seen(5)]
              unfolding e' seen(8) st cfg received_def f_def [symmetric] by simp
          qed
        qed
      qed
    qed
  qed
qed

end
