(* ===== verification/Ppp_Wire.thy ===== *)
theory Ppp_Wire
  imports Ppp_Input
begin

text \<open>
  From one driver to the other. A packet that the daemon of one side hands to \<open>pppwrite\<close> is framed by
  the write task, crosses the line and is what \<open>pppread\<close> of the other side returns, whatever
  compression of the header fields is switched on.
\<close>

section \<open>The escape map\<close>

text \<open>
  The flag and the escape are always escaped; the bytes that escaping would turn into a flag or into
  a control character never are.
\<close>

definition esc_map_ok :: "softc \<Rightarrow> bool" where
  "esc_map_ok sc \<longleftrightarrow> length (sc_asyncmap sc) = 8 \<and> sc_asyncmap sc ! 1 = 0 \<and> sc_asyncmap sc ! 2 AND 0x40000000 = 0 \<and>
     sc_asyncmap sc ! 3 AND 0x60000000 = 0x60000000"

lemma mask_bit:
  fixes w :: u32
  assumes "w AND m = m" "bit m n"
  shows "bit w n"
  using assms by (metis bit_and_iff)

lemma and_single: "w AND push_bit n 1 \<noteq> 0 \<longleftrightarrow> bit w n" for w :: u32
  by (auto simp: and_exp_eq_0_iff_not_bit push_bit_eq_mult simp flip: and.commute)

lemma ESCAPE_P_bit: "ESCAPE_P sc c \<longleftrightarrow> bit (sc_asyncmap sc ! unat (drop_bit 5 c)) (unat (c AND 0x1f))"
  unfolding ESCAPE_P_def and_single ..

lemma escaped_flag: "esc_map_ok sc \<Longrightarrow> ESCAPE_P sc 0x7e"
  unfolding ESCAPE_P_bit esc_map_ok_def by (auto intro: mask_bit)

lemma escaped_escape: "esc_map_ok sc \<Longrightarrow> ESCAPE_P sc 0x7d"
  unfolding ESCAPE_P_bit esc_map_ok_def by (auto intro: mask_bit)

lemma plain_5e: "esc_map_ok sc \<Longrightarrow> \<not> ESCAPE_P sc 0x5e"
  by (simp add: ESCAPE_P_def esc_map_ok_def)

lemma plain_row1: "esc_map_ok sc \<Longrightarrow> drop_bit 5 c = 1 \<Longrightarrow> \<not> ESCAPE_P sc c"
  by (simp add: ESCAPE_P_def esc_map_ok_def)

lemma control_octet: "c < 0x20 \<longleftrightarrow> drop_bit 5 c = 0" for c :: u8
proof -
  have u: "unat (drop_bit 5 c) = unat c div 32" 
    using unsigned_less [of c, where 'a = nat] by (simp only: unsigned_drop_bit_eq) (simp add: drop_bit_eq_div take_bit_nat_eq_self)
  have "drop_bit 5 c = 0 \<longleftrightarrow> unat (drop_bit 5 c) = 0" by (metis unsigned_0 unsigned_word_eqI)
  then show ?thesis unfolding u by (auto simp: word_less_nat_alt)
qed

lemma control_low: "c < 0x20 \<Longrightarrow> c AND 0x1f = c" for c :: u8
proof -
  assume "c < 0x20"
  then have "drop_bit 5 c = 0" by (simp add: control_octet)
  moreover have "bit (drop_bit 5 c) n \<longleftrightarrow> bit c (5 + n)" for n by (simp add: bit_simps)
  ultimately have "\<not> bit c (5 + n)" for n by simp
  then have "\<not> bit c n" if "\<not> n < 5" for n using that by (metis le_add_diff_inverse not_less)
  then have "take_bit 5 c = c" by (intro bit_word_eqI) (simp add: bit_simps, blast)
  then show ?thesis by (simp add: take_bit_eq_mask mask_numeral)
qed

lemma escape_control: "c < 0x20 \<Longrightarrow> ESCAPE_P sc c \<longleftrightarrow> bit (sc_asyncmap sc ! 0) (unat c)"
  unfolding ESCAPE_P_bit by (simp add: control_low control_octet [symmetric]) (simp add: control_octet)

section \<open>The receiver on an escaped byte\<close>

text \<open>The receiver discards no byte the sender leaves unescaped.\<close>

definition maps_agree :: "softc \<Rightarrow> softc \<Rightarrow> bool" where
  "maps_agree tx cfg \<longleftrightarrow> sc_rasyncmap cfg AND sc_asyncmap tx ! 0 = sc_rasyncmap cfg"

lemma not_discarded:
  assumes "maps_agree tx cfg" "c < 0x20" "\<not> ESCAPE_P tx c"
  shows "sc_rasyncmap cfg AND push_bit (unat c) 1 = 0"
proof -
  have "\<not> bit (sc_rasyncmap cfg) (unat c)"
    using assms escape_control [OF assms(2), of tx] by (metis bit_and_iff maps_agree_def)
  then show ?thesis using and_single [of "sc_rasyncmap cfg" "unat c"] by simp
qed

lemma rx_esc:
  assumes "rfc1662 (dh E)" "esc_map_ok tx" "maps_agree tx cfg" "accept (dh E) (has cfg (SC_REJ_COMP_AC (dh E))) p c = Some p'"
    "int (length p') \<le> sc_mru cfg + 6"
  shows "esc E tx c = [x] \<Longrightarrow> rx_step (dh E) cfg (Frame False p f) x = (Frame False p' (PPP_FCS (dh E) f c), None)"
    "esc E tx c = [x, y] \<Longrightarrow> rx_step (dh E) cfg (Frame False p f) x = (Frame True p f, None) \<and>
       rx_step (dh E) cfg (Frame True p f) y = (Frame False p' (PPP_FCS (dh E) f c), None)"
proof -
  have H: "PPP_FLAG (dh E) = 0x7e" "PPP_ESCAPE (dh E) = 0x7d" "PPP_TRANS (dh E) = 0x20" using assms(1) by (auto simp: rfc1662_def)
  {
    assume "esc E tx c = [x]"
    then have x: "x = c" "\<not> ESCAPE_P tx c" by (auto simp: esc_def split: if_splits)
    then have "c \<noteq> 0x7e" "c \<noteq> 0x7d" using escaped_flag escaped_escape assms(2) by auto
    then show "rx_step (dh E) cfg (Frame False p f) x = (Frame False p' (PPP_FCS (dh E) f c), None)"
      using rx_step_data [of c "dh E" cfg False p f] not_discarded [OF assms(3)] x assms(4,5) H by (auto simp: Let_def)
  }
  {
    assume "esc E tx c = [x, y]"
    then have x: "x = 0x7d" "y = c XOR 0x20" "ESCAPE_P tx c" using H by (auto simp: esc_def split: if_splits)
    have "c \<noteq> 0x5e" using plain_5e assms(2) x(3) by auto
    moreover have "c = y XOR 0x20" using x(2) by (simp add: xor.assoc)
    ultimately have y: "y \<noteq> 0x7e" by auto
    have "drop_bit 5 c \<noteq> 1" using plain_row1 [OF assms(2)] x(3) by blast
    moreover have "drop_bit 5 c = (drop_bit 5 c XOR 1) XOR 1" by (simp add: xor.assoc)
    ultimately have "drop_bit 5 c XOR 1 \<noteq> 0" by auto
    then have "\<not> y < 0x20" unfolding control_octet x(2) by (simp add: drop_bit_xor)
    then show "rx_step (dh E) cfg (Frame False p f) x = (Frame True p f, None) \<and>
       rx_step (dh E) cfg (Frame True p f) y = (Frame False p' (PPP_FCS (dh E) f c), None)"
      using rx_step_data [of y "dh E" cfg True p f] x y assms(4,5) H by (auto simp: Let_def xor.assoc)
  }
qed

section \<open>Runs of bytes\<close>

primrec rx_run :: "drv_hdr \<Rightarrow> softc \<Rightarrow> rx \<Rightarrow> bytes \<Rightarrow> rx \<times> bytes list" where
  "rx_run H cfg r [] = (r, [])"
| "rx_run H cfg r (c # cs) =
     (let (r1, out) = rx_step H cfg r c; (r2, outs) = rx_run H cfg r1 cs
      in (r2, case out of None \<Rightarrow> outs | Some pkt \<Rightarrow> pkt # outs))"

lemma rx_run_append:
  "rx_run H cfg r (a @ b) = (let (r1, o1) = rx_run H cfg r a; (r2, o2) = rx_run H cfg r1 b in (r2, o1 @ o2))"
  by (induction a arbitrary: r) (auto simp: case_prod_beta Let_def split: option.splits)

primrec accepts :: "drv_hdr \<Rightarrow> bool \<Rightarrow> bytes \<Rightarrow> bytes \<Rightarrow> bytes option" where
  "accepts H rej p [] = Some p"
| "accepts H rej p (c # cs) = (case accept H rej p c of None \<Rightarrow> None | Some p' \<Rightarrow> accepts H rej p' cs)"

lemma accepts_append:
  "accepts H rej p (a @ b) = (case accepts H rej p a of None \<Rightarrow> None | Some p' \<Rightarrow> accepts H rej p' b)"
  by (induction a arbitrary: p) (auto split: option.splits)

lemma accept_length: "accept H rej p c = Some p' \<Longrightarrow> length p < length p'"
  by (auto simp: accept_def Let_def split: if_splits)

lemma accepts_length: "accepts H rej p cs = Some p' \<Longrightarrow> length p \<le> length p'"
  by (induction cs arbitrary: p) (force split: option.splits dest: accept_length)+

lemma accept_body: "4 \<le> length p \<Longrightarrow> accept H rej p c = Some (p @ [c])"
  by (auto simp: accept_def Let_def)

lemma accepts_body: "4 \<le> length p \<Longrightarrow> accepts H rej p cs = Some (p @ cs)"
  by (induction cs arbitrary: p) (simp_all add: accept_body)

abbreviation stuffed :: "dev \<Rightarrow> softc \<Rightarrow> bytes \<Rightarrow> bytes" where
  "stuffed E tx bs \<equiv> concat (map (esc E tx) bs)"

lemma rx_stuffed:
  assumes "rfc1662 (dh E)" "esc_map_ok tx" "maps_agree tx cfg"
    "accepts (dh E) (has cfg (SC_REJ_COMP_AC (dh E))) p bs = Some p'" "int (length p') \<le> sc_mru cfg + 6"
  shows "rx_run (dh E) cfg (Frame False p f) (stuffed E tx bs) = (Frame False p' (pppfcs (dh E) f bs), [])"
  using assms(4)
proof (induction bs arbitrary: p f)
  case Nil
  then show ?case by (simp add: pppfcs_def)
next
  case (Cons c cs)
  then obtain q where q: "accept (dh E) (has cfg (SC_REJ_COMP_AC (dh E))) p c = Some q"
    "accepts (dh E) (has cfg (SC_REJ_COMP_AC (dh E))) q cs = Some p'" by (auto split: option.splits)
  have l: "int (length q) \<le> sc_mru cfg + 6" using accepts_length [OF q(2)] assms(5) by simp
  note r = rx_esc [OF assms(1-3) q(1) l, where f = f]
  obtain x y where "esc E tx c = [x] \<or> esc E tx c = [x, y]" unfolding esc_def by (cases "ESCAPE_P tx c") auto
  then have "rx_run (dh E) cfg (Frame False p f) (esc E tx c) = (Frame False q (PPP_FCS (dh E) f c), [])"
    using r by (auto simp del: rx_step.simps)
  then show ?case using Cons.IH [OF q(2)] by (simp add: rx_run_append pppfcs_def)
qed

text \<open>The frame check sequence of a frame makes the good one.\<close>

lemma fcs_good:
  assumes "rfc1662 H"
  shows "pppfcs H f [ucast (NOT f), ucast (drop_bit 8 (NOT f))] = PPP_GOODFCS H"
proof -
  have fcs: "PPP_FCS H f c = drop_bit 8 f XOR fcstab ! unat ((f XOR ucast c) AND 0xff)" for f c
    using assms by (simp add: rfc1662_def)
  have m: "x AND 0xff = take_bit 8 x" for x :: u16 by (simp add: take_bit_eq_mask mask_numeral)
  have n: "take_bit 8 (ucast (ucast (NOT x) :: u8)) = mask 8 XOR take_bit 8 x" for x :: u16
    by (rule bit_word_eqI) (auto simp: bit_simps)
  have 1: "(f XOR ucast (ucast (NOT f) :: u8)) AND 0xff = 0xff"
    unfolding m take_bit_xor n by (simp add: xor.left_commute xor.commute mask_numeral)
  have nd: "(ucast (drop_bit 8 (NOT f)) :: u8) = ucast (NOT (drop_bit 8 f))"
    by (rule bit_word_eqI) (auto simp: bit_simps)
  have 2: "((drop_bit 8 f XOR 0x0f78) XOR ucast (ucast (drop_bit 8 (NOT f)) :: u8)) AND 0xff = 0x87"
    unfolding m nd take_bit_xor n by (simp add: xor.left_commute xor.commute mask_numeral)
  show ?thesis
    unfolding pppfcs_def using assms by (simp add: fcs 1 2 rfc1662_def fcstab_def)
qed

section \<open>The sender\<close>

text \<open>A device that takes every write.\<close>

definition takes_all :: "dev \<Rightarrow> bool" where
  "takes_all E \<longleftrightarrow> (\<forall>k n. d_write E k n = int n)"

text \<open>Between two states of the sender only the line, the counters and the frame check sequence change.\<close>

definition tx_only :: "softc \<Rightarrow> softc \<Rightarrow> bool" where
  "tx_only sc sc' \<longleftrightarrow> sc'\<lparr>calls := 0, line := [], sc_bytessent := 0, sc_outfcs := 0\<rparr>
     = sc\<lparr>calls := 0, line := [], sc_bytessent := 0, sc_outfcs := 0\<rparr>"

lemma tx_only_trans: "tx_only a b \<Longrightarrow> tx_only b c \<Longrightarrow> tx_only a c"
  by (simp add: tx_only_def)

lemma tx_only_fields:
  assumes "tx_only sc sc'"
  shows "sc_asyncmap sc' = sc_asyncmap sc" "sc_fastq sc' = sc_fastq sc" "if_snd sc' = if_snd sc" "sc_flags sc' = sc_flags sc"
    "sc_outm sc' = sc_outm sc"
  using assms unfolding tx_only_def by (cases sc; cases sc'; simp)+

lemma esc_cong: "sc_asyncmap sc' = sc_asyncmap sc \<Longrightarrow> esc E sc' = esc E sc"
  by (rule ext) (simp add: esc_def ESCAPE_P_def)

lemma dev_write_all: "takes_all E \<Longrightarrow> dev_write E bs sc = (int (length bs), sc\<lparr>calls := calls sc + 1, line := line sc @ bs\<rparr>)"
  by (simp add: dev_write_def takes_all_def Let_def)

lemma write_run_all:
  "takes_all E \<Longrightarrow> bs \<noteq> [] \<Longrightarrow> write_run E bs (length bs) sc = (0, sc\<lparr>calls := calls sc + 1, line := line sc @ bs\<rparr>)"
  by (subst write_run.simps) (simp add: dev_write_all write_run.simps [of E bs 0])

declare write_run.simps [simp del] send_bytes.simps [simp del]

text \<open>One mbuf.\<close>

lemma takeWhile_plain: "stuffed E sc (takeWhile (\<lambda>c. \<not> ESCAPE_P sc c) bs) = takeWhile (\<lambda>c. \<not> ESCAPE_P sc c) bs"
  by (induction bs) (simp_all add: esc_def)

lemma send_bytes_all:
  assumes "takes_all E"
  shows "\<exists>sc'. send_bytes E bs sc = ([], sc') \<and> tx_only sc sc' \<and> line sc' = line sc @ stuffed E sc bs \<and> sc_outfcs sc' = sc_outfcs sc"
proof (induction bs arbitrary: sc rule: length_induct)
  case (1 bs)
  show ?case
  proof (cases "bs = []")
    case True
    then show ?thesis by (simp add: send_bytes.simps [of E "[]"] tx_only_def)
  next
    case False
    define run where "run = takeWhile (\<lambda>c. \<not> ESCAPE_P sc c) bs"
    define sc1 where "sc1 = (if run = [] then sc else sc\<lparr>calls := calls sc + 1, line := line sc @ run\<rparr>)"
    define sc2 where "sc2 = sc1\<lparr>sc_bytessent := sc_bytessent sc1 + length run\<rparr>"
    have w: "(if length run > 0 then write_run E run (length run) sc else (0, sc)) = (0, sc1)"
      using write_run_all [OF assms, of run sc] by (simp add: sc1_def)
    have tp: "stuffed E sc run = run" unfolding run_def by (rule takeWhile_plain)
    have t2: "tx_only sc sc2" "line sc2 = line sc @ run" "sc_outfcs sc2 = sc_outfcs sc" by (auto simp: sc2_def sc1_def tx_only_def)
    have bs: "bs = run @ dropWhile (\<lambda>c. \<not> ESCAPE_P sc c) bs" by (simp add: run_def)
    then have d: "drop (length run) bs = dropWhile (\<lambda>c. \<not> ESCAPE_P sc c) bs" by (metis append_eq_conv_conj)
    have u: "send_bytes E bs sc = (case drop (length run) bs of
                [] \<Rightarrow> ([], sc2)
              | c # rest \<Rightarrow>
                  let (r1, sc3) = dev_write E [PPP_ESCAPE (dh E)] sc2 in
                  if r1 \<noteq> 1 then (drop (length run) bs, sc3)
                  else let (r2, sc4) = dev_write E [c XOR PPP_TRANS (dh E)] sc3 in
                    if r2 \<noteq> 1 then (drop (length run) bs, sc4)
                    else send_bytes E rest (sc4\<lparr>sc_bytessent := sc_bytessent sc4 + 2\<rparr>))"
      using False w by (subst send_bytes.simps) (simp add: Let_def sc2_def split: list.split prod.split flip: run_def)
    show ?thesis
    proof (cases "drop (length run) bs")
      case Nil
      then have "bs = run" using bs unfolding d by (metis append_Nil2)
      then have "stuffed E sc bs = run" using tp by simp
      then show ?thesis using u Nil t2 by simp
    next
      case (Cons c rest)
      define sc4 where "sc4 = sc2\<lparr>calls := calls sc2 + 2, line := line sc2 @ [PPP_ESCAPE (dh E), c XOR PPP_TRANS (dh E)],
        sc_bytessent := sc_bytessent sc2 + 2\<rparr>"
      have s: "send_bytes E bs sc = send_bytes E rest sc4"
        using u Cons by (simp add: dev_write_all [OF assms] sc4_def Let_def)
      have t4: "tx_only sc sc4" using t2(1) by (rule tx_only_trans) (simp add: sc4_def tx_only_def)
      have e: "ESCAPE_P sc c" using Cons d by (metis hd_dropWhile list.distinct(1) list.sel(1))
      have "length rest < length bs" using Cons by (metis length_Cons length_drop lessI less_le_trans diff_le_self)
      then obtain sc' where r: "send_bytes E rest sc4 = ([], sc')" "tx_only sc4 sc'" "line sc' = line sc4 @ stuffed E sc4 rest"
        "sc_outfcs sc' = sc_outfcs sc4" using 1 by blast
      have b: "bs = run @ c # rest" using bs unfolding d [symmetric] Cons .
      have "stuffed E sc bs = run @ [PPP_ESCAPE (dh E), c XOR PPP_TRANS (dh E)] @ stuffed E sc rest"
        unfolding b using tp e by (simp add: esc_def)
      then show ?thesis
        using s r t2 tx_only_trans [OF t4 r(2)] esc_cong [OF tx_only_fields(1) [OF t4]] by (simp add: sc4_def)
    qed
  qed
qed

text \<open>The mbufs of a packet; \<open>sc_outfcs\<close> covers the first one already.\<close>

definition fcs_bytes :: "u16 \<Rightarrow> bytes" where
  "fcs_bytes f = [ucast (NOT f), ucast (drop_bit 8 (NOT f))]"

lemma pppfcs_append: "pppfcs H f (a @ b) = pppfcs H (pppfcs H f a) b"
  by (simp add: pppfcs_def)

lemma endseq_stuffed: "endseq E sc = stuffed E sc (fcs_bytes (sc_outfcs sc)) @ [PPP_FLAG (dh E)]"
  by (simp add: endseq_def fcs_bytes_def)

lemma send_chain_all:
  assumes "takes_all E" "ms \<noteq> []" "sc_outfcs sc = pppfcs (dh E) f (m_dat (hd ms))"
  shows "\<exists>sc'. send_chain E ms sc = sc' \<and> tx_only sc sc' \<and>
    line sc' = line sc @ stuffed E sc (contents ms @ fcs_bytes (pppfcs (dh E) f (contents ms))) @ [PPP_FLAG (dh E)]"
  using assms(2,3)
proof (induction ms arbitrary: sc f)
  case (Cons m ms)
  obtain sc1 where s: "send_bytes E (m_dat m) sc = ([], sc1)" "tx_only sc sc1" "line sc1 = line sc @ stuffed E sc (m_dat m)"
    "sc_outfcs sc1 = sc_outfcs sc" using send_bytes_all [OF assms(1)] by blast
  have e: "esc E sc1 = esc E sc" using esc_cong tx_only_fields(1) [OF s(2)] by blast
  show ?case
  proof (cases "ms = []")
    case True
    then have "send_chain E (m # ms) sc = sc1\<lparr>calls := calls sc1 + 1, line := line sc1 @ endseq E sc1\<rparr>"
      using s by (simp add: dev_write_all [OF assms(1)])
    moreover have "tx_only sc (sc1\<lparr>calls := calls sc1 + 1, line := line sc1 @ endseq E sc1\<rparr>)"
      using s(2) by (rule tx_only_trans) (simp add: tx_only_def)
    ultimately show ?thesis
      using s Cons.prems True by (simp add: endseq_stuffed e contents_simps)
  next
    case False
    define sc2 where "sc2 = sc1\<lparr>sc_outfcs := pppfcs (dh E) (sc_outfcs sc1) (m_dat (hd ms))\<rparr>"
    have c: "send_chain E (m # ms) sc = send_chain E ms sc2" using s False by (simp add: sc2_def)
    have t: "tx_only sc sc2" using s(2) by (rule tx_only_trans) (simp add: sc2_def tx_only_def)
    have "sc_outfcs sc2 = pppfcs (dh E) (pppfcs (dh E) f (m_dat m)) (m_dat (hd ms))" using s(4) Cons.prems by (simp add: sc2_def)
    from Cons.IH [OF False this] obtain sc' where r: "send_chain E ms sc2 = sc'" "tx_only sc2 sc'"
      "line sc' = line sc2 @ stuffed E sc2 (contents ms @ fcs_bytes (pppfcs (dh E) (pppfcs (dh E) f (m_dat m)) (contents ms))) @ [PPP_FLAG (dh E)]"
      by blast
    show ?thesis
      using c r tx_only_trans [OF t r(2)] s(3) esc_cong [OF tx_only_fields(1) [OF t]]
      by (simp add: contents_simps pppfcs_append) (simp add: sc2_def)
  qed
qed simp

text \<open>A packet from the queue: an opening flag if the line was idle, and the frame.\<close>

lemma send_packet_line:
  assumes "takes_all E" "ms \<noteq> []"
  shows "\<exists>sc' flag. send_chain E ms (start_packet E ms sc) = sc' \<and> tx_only sc sc' \<and> (flag = [] \<or> flag = [PPP_FLAG (dh E)]) \<and>
    line sc' = line sc @ flag @ stuffed E sc (contents ms @ fcs_bytes (pppfcs (dh E) (PPP_INITFCS (dh E)) (contents ms))) @ [PPP_FLAG (dh E)]"
proof -
  define flag where "flag = (if d_nwrite E (calls sc) = 0 then [PPP_FLAG (dh E)] else [])"
  have t: "tx_only sc (start_packet E ms sc)" "line (start_packet E ms sc) = line sc @ flag"
    "sc_outfcs (start_packet E ms sc) = pppfcs (dh E) (PPP_INITFCS (dh E)) (m_dat (hd ms))"
    by (auto simp: start_packet_def Let_def dev_write_all [OF assms(1)] tx_only_def flag_def)
  from send_chain_all [OF assms t(3)] obtain sc' where s: "send_chain E ms (start_packet E ms sc) = sc'"
    "tx_only (start_packet E ms sc) sc'" "line sc' = line (start_packet E ms sc) @ stuffed E (start_packet E ms sc)
       (contents ms @ fcs_bytes (pppfcs (dh E) (PPP_INITFCS (dh E)) (contents ms))) @ [PPP_FLAG (dh E)]" by blast
  then show ?thesis
    using t tx_only_trans [OF t(1) s(2)] esc_cong [OF tx_only_fields(1) [OF t(1)]]
    by (intro exI [of _ sc'] exI [of _ flag]) (auto simp: flag_def)
qed

section \<open>The header fields\<close>

lemma small_short:
  assumes "be_getshort hi lo < 0xff"
  shows "hi = 0" "lo \<noteq> 0xff"
proof -
  let ?v = "be_getshort hi lo"
  have p: "hi = ucast (drop_bit 8 ?v)" "lo = ucast ?v"
    using be_short_get_put [of hi lo] by (auto simp: be_putshort_def)
  have lt: "unat ?v < 255" using assms by (simp add: word_less_nat_alt)
  have "unat (drop_bit 8 ?v) = 0"
    using lt unsigned_less [of ?v, where 'a = nat] by (simp only: unsigned_drop_bit_eq) (simp add: drop_bit_eq_div take_bit_nat_eq_self)
  then have "drop_bit 8 ?v = 0" by (metis unsigned_0 unsigned_word_eqI)
  then show "hi = 0" using p(1) by simp
  have "unat lo = unat ?v" using lt by (subst p(2)) (simp add: unsigned_ucast_eq take_bit_nat_eq_self)
  then show "lo \<noteq> 0xff" using lt by auto
qed

text \<open>A packet of the daemon: the standard address and control, and a protocol number in the form of the standard.\<close>

definition packet_form :: "bytes \<Rightarrow> bool" where
  "packet_form pkt \<longleftrightarrow> 4 \<le> length pkt \<and> pkt ! 0 = 0xff \<and> pkt ! 1 = 3 \<and> pkt ! 2 AND 1 = 0 \<and> pkt ! 3 AND 1 = 1"

lemma packet_form_cons:
  assumes "packet_form pkt"
  obtains hi lo body where "pkt = 0xff # 3 # hi # lo # body" "hi AND 1 = 0" "lo AND 1 = 1"
proof -
  obtain a b hi lo body where "pkt = a # b # hi # lo # body"
    using assms by (auto simp: packet_form_def eval_nat_numeral Suc_le_length_iff)
  with that assms show thesis by (auto simp: packet_form_def)
qed

lemma squeeze_accepts:
  assumes "rfc1662 H" "packet_form pkt" "rej \<longrightarrow> \<not> has tx (SC_COMP_AC H)"
  shows "accepts H rej [] (squeeze H tx (gs pkt 2) pkt) = Some pkt"
proof -
  obtain hi lo body where p: "pkt = 0xff # 3 # hi # lo # body" "hi AND 1 = 0" "lo AND 1 = 1"
    using packet_form_cons [OF assms(2)] by metis
  have H: "PPP_ALLSTATIONS H = 0xff" "PPP_UI H = 3" using assms(1) by (auto simp: rfc1662_def)
  have hi: "hi \<noteq> 0xff" using p(2) by auto
  have g: "gs pkt 2 = be_getshort hi lo" by (simp add: gs_def rd_def p(1))
  have small: "hi = 0 \<and> lo \<noteq> 0xff" if "gs pkt 2 < 0xff" using small_short that g by simp
  have "squeeze H tx (gs pkt 2) pkt \<in> {pkt, hi # lo # body} \<or> hi = 0 \<and> lo \<noteq> 0xff \<and> squeeze H tx (gs pkt 2) pkt \<in> {0xff # 3 # lo # body, lo # body}"
    "squeeze H tx (gs pkt 2) pkt \<in> {hi # lo # body, lo # body} \<longrightarrow> has tx (SC_COMP_AC H) \<or> squeeze H tx (gs pkt 2) pkt \<in> {pkt, 0xff # 3 # lo # body}"
    using small unfolding squeeze_def Let_def by (auto simp: p(1) rd_def H)
  then show ?thesis
    using assms(3) p hi by (auto simp: accept_def Let_def H accepts_body)
qed

section \<open>The receiver on a frame\<close>

lemma rx_step_cfg: "same_cfg E a b \<Longrightarrow> rx_step (dh E) a r c = rx_step (dh E) b r c"
proof -
  assume "same_cfg E a b"
  then have e: "sc_mru b = sc_mru a" "sc_rasyncmap b = sc_rasyncmap a" "has b (SC_REJ_COMP_AC (dh E)) = has a (SC_REJ_COMP_AC (dh E))"
    by (auto simp: same_cfg_def)
  show ?thesis by (cases r) (simp_all only: rx_step.simps e)
qed

lemma rx_run_cfg: "same_cfg E a b \<Longrightarrow> rx_run (dh E) a r bs = rx_run (dh E) b r bs"
  by (induction bs arbitrary: r) (simp_all add: rx_step_cfg del: rx_step.simps)

text \<open>A run of bytes that ends no packet.\<close>

lemma pppinput_run:
  assumes "rfc1662 (dh E)" "flags_apart (dh E)" "pool_ok E" "rx_inv E sc" "rx_run (dh E) sc (rx_abs E sc) bs = (r, [])"
  shows "rx_inv E (foldl (pppinput E) sc bs) \<and> same_cfg E sc (foldl (pppinput E) sc bs) \<and>
    same_queues sc (foldl (pppinput E) sc bs) \<and> rx_abs E (foldl (pppinput E) sc bs) = r"
  using assms(4,5)
proof (induction bs arbitrary: sc)
  case Nil
  then show ?case by (simp add: same_cfg_def same_queues_def)
next
  case (Cons c cs)
  let ?s = "pppinput E sc c"
  obtain r1 out where st: "rx_step (dh E) sc (rx_abs E sc) c = (r1, out)" by fastforce
  then have q: "out = None" "rx_run (dh E) sc r1 cs = (r, [])"
    using Cons.prems(2) by (auto simp: case_prod_beta Let_def simp del: rx_step.simps split: option.splits) (metis prod.collapse)
  have p: "rx_inv E ?s" "same_cfg E sc ?s" "rx_abs E ?s = r1" "same_queues sc ?s"
    using pppinput_step [OF assms(1,2) pool_ok_sizes [OF assms(3)] Cons.prems(1), of c] assms(3) st q(1) by (auto simp: received_def)
  have "rx_run (dh E) ?s (rx_abs E ?s) cs = (r, [])" using q(2) p(3) rx_run_cfg [OF p(2)] by simp
  from Cons.IH [OF p(1) this] p(2,4) show ?case by (auto dest: same_cfg_trans same_queues_trans)
qed

text \<open>The bytes of a frame are handed to \<open>ppppktin\<close> as the packet.\<close>

lemma frame_received:
  fixes E E' :: dev
  assumes "rfc1662 (dh E)" "flags_apart (dh E)" "dh E' = dh E" "pool_ok E'" "rx_inv E' rx"
    and idle: "rx_abs E' rx = Frame False [] (PPP_INITFCS (dh E))"
    and "esc_map_ok tx" "maps_agree tx rx" "packet_form pkt" "has rx (SC_REJ_COMP_AC (dh E)) \<longrightarrow> \<not> has tx (SC_COMP_AC (dh E))"
    "int (length pkt) \<le> sc_mru rx + 4" "flag = [] \<or> flag = [PPP_FLAG (dh E)]"
  defines "d \<equiv> squeeze (dh E) tx (gs pkt 2) pkt"
  shows "received E' rx (foldl (pppinput E') rx (flag @ stuffed E tx (d @ fcs_bytes (pppfcs (dh E) (PPP_INITFCS (dh E)) d)) @ [PPP_FLAG (dh E)])) (Some pkt)"
proof -
  let ?H = "dh E" let ?f = "pppfcs ?H (PPP_INITFCS ?H) d" let ?b = "d @ fcs_bytes ?f"
  have four: "4 \<le> length pkt" using assms(9) by (simp add: packet_form_def)
  have a: "accepts ?H (has rx (SC_REJ_COMP_AC ?H)) [] ?b = Some (pkt @ fcs_bytes ?f)"
    using squeeze_accepts [OF assms(1,9), of "has rx (SC_REJ_COMP_AC ?H)" tx] assms(10) four
    by (simp add: accepts_append accepts_body d_def)
  have len: "length (fcs_bytes f) = 2" for f by (simp add: fcs_bytes_def)
  have g: "pppfcs ?H (PPP_INITFCS ?H) ?b = PPP_GOODFCS ?H"
    using fcs_good [OF assms(1)] by (simp add: pppfcs_append fcs_bytes_def)
  have fl: "rx_run ?H rx (rx_abs E' rx) flag = (Frame False [] (PPP_INITFCS ?H), [])" using assms(12) idle by auto
  have st: "rx_run ?H rx (Frame False [] (PPP_INITFCS ?H)) (stuffed E tx ?b) = (Frame False (pkt @ fcs_bytes ?f) (PPP_GOODFCS ?H), [])"
    using rx_stuffed [OF assms(1,7,8) a, of "PPP_INITFCS ?H"] assms(11) g len by simp
  have "rx_run (dh E') rx (rx_abs E' rx) (flag @ stuffed E tx ?b) = (Frame False (pkt @ fcs_bytes ?f) (PPP_GOODFCS ?H), [])"
    unfolding assms(3) rx_run_append fl using st by simp
  from pppinput_run [OF _ _ assms(4,5) this] assms(1-3)
  obtain rx1 where r: "foldl (pppinput E') rx (flag @ stuffed E tx ?b) = rx1" "rx_inv E' rx1" "same_cfg E' rx rx1" "same_queues rx rx1"
    "rx_abs E' rx1 = Frame False (pkt @ fcs_bytes ?f) (PPP_GOODFCS ?H)" by auto
  have "snd (rx_step (dh E') rx1 (rx_abs E' rx1) (PPP_FLAG ?H)) = Some pkt"
    using r(5) assms(3) four len by simp
  then have "received E' rx1 (pppinput E' rx1 (PPP_FLAG ?H)) (Some pkt)"
    using pppinput_step [OF _ _ pool_ok_sizes [OF assms(4)] r(2), of "PPP_FLAG ?H"] assms(1-3) by simp
  then show ?thesis using r(1) received_from [OF r(4,3)] by simp
qed

section \<open>From \<open>pppwrite\<close> to \<open>pppread\<close>\<close>

definition tx_ready :: "dev \<Rightarrow> bytes \<Rightarrow> softc \<Rightarrow> bool" where
  "tx_ready E buf sc \<longleftrightarrow> takes_all E \<and> out_hook E = None \<and> 0 < IFQ_MAXLEN (dh E) \<and> esc_map_ok sc \<and>
     sc_outm sc = None \<and> sc_fastq sc = [] \<and> if_snd sc = [] \<and> int (length buf) \<le> if_mtu sc + 4 \<and>
     (\<exists>k. d_getm E (calls sc) (length buf) = Some k \<and> length buf \<le> k)"

definition rx_ready :: "dev \<Rightarrow> bytes \<Rightarrow> softc \<Rightarrow> bool" where
  "rx_ready E buf sc \<longleftrightarrow> pool_ok E \<and> in_hook E = None \<and> 0 < IFQ_MAXLEN (dh E) \<and> rx_inv E sc \<and>
     rx_abs E sc = Frame False [] (PPP_INITFCS (dh E)) \<and> sc_inq sc = [] \<and> int (length buf) \<le> sc_mru sc + 4"

lemma header_again: "4 \<le> length buf \<Longrightarrow> rd buf 0 # rd buf 1 # be_putshort (gs buf 2) @ drop 4 buf = buf"
  by (auto simp: gs_def be_short_get_put rd_def eval_nat_numeral Suc_le_length_iff)

lemma write_one:
  assumes "d_getm E (calls sc) (length buf) = Some k" "length buf \<le> k" "buf \<noteq> []"
  shows "write_mbufs E buf (length buf) sc = (Some [\<lparr>m_extSize = k, m_off = 0, m_dat = buf\<rparr>], sc\<lparr>calls := calls sc + 1\<rparr>)"
proof -
  have "write_mbufs E buf 0 s = (Some [], s)" for s by (simp add: write_mbufs.simps [of E buf 0])
  moreover have "length buf \<noteq> 0" "k \<noteq> 0" using assms(2,3) by (cases buf; simp)+
  ultimately show ?thesis using assms by (subst write_mbufs.simps) (simp add: Let_def)
qed

declare write_mbufs.simps [simp del]

lemma pppwrite_queued:
  assumes "rfc1662 (dh E)" "tx_ready E buf tx" "4 \<le> length buf"
  obtains tx1 k where "pppwrite E buf tx = (0, tx1)" "if_snd tx1 = [[\<lparr>m_extSize = k, m_off = 0, m_dat = buf\<rparr>]]" "sc_fastq tx1 = []"
    "sc_outm tx1 = None" "sc_asyncmap tx1 = sc_asyncmap tx" "sc_flags tx1 = sc_flags tx" "line tx1 = line tx"
proof -
  obtain k where k: "d_getm E (calls tx) (length buf) = Some k" "length buf \<le> k" using assms(2) by (auto simp: tx_ready_def)
  have H: "PPP_HDRLEN (dh E) = 4" using assms(1) by (simp add: rfc1662_def)
  have t: "out_hook E = None" "0 < IFQ_MAXLEN (dh E)" "if_snd tx = []" "int (length buf) \<le> if_mtu tx + 4" "sc_fastq tx = []" "sc_outm tx = None"
    using assms(2) by (auto simp: tx_ready_def)
  have b: "buf \<noteq> []" using assms(3) by auto
  have "pppwrite E buf tx = (0, pppasyncstart (tx\<lparr>calls := calls tx + 1, if_snd := [[\<lparr>m_extSize = k, m_off = 0, m_dat = buf\<rparr>]]\<rparr>))"
    using t assms(3) H header_again [OF assms(3)]
    by (simp add: pppwrite_def write_one [OF k b] pppoutput_def with_header_def prepend_header_def strip_front_def send_packet_def enqueue_def Let_def)
  then show ?thesis by (rule that) (simp_all add: pppasyncstart_def t)
qed

lemma write_task_sends:
  assumes "takes_all E" "if_snd tx = [[\<lparr>m_extSize = k, m_off = 0, m_dat = buf\<rparr>]]" "sc_fastq tx = []" "sc_outm tx = None"
    "gs buf 2 \<noteq> PPP_IP (dh E)"
  defines "d \<equiv> squeeze (dh E) tx (gs buf 2) buf"
  obtains tx2 flag where "wrt_loop E 2 tx = Some tx2" "flag = [] \<or> flag = [PPP_FLAG (dh E)]"
    "line tx2 = line tx @ flag @ stuffed E tx (d @ fcs_bytes (pppfcs (dh E) (PPP_INITFCS (dh E)) d)) @ [PPP_FLAG (dh E)]"
proof -
  define tx1 where "tx1 = tx\<lparr>if_snd := []\<rparr>"
  define ms where "ms = [\<lparr>m_extSize = k, m_off = length buf - length d, m_dat = d\<rparr>]"
  have "squeeze (dh E) tx1 (gs buf 2) buf = d" by (simp add: d_def squeeze_def tx1_def)
  then have q: "ppp_dequeue E tx = Some (Some (ms, tx1))"
    using assms(2,3,5) by (simp add: ppp_dequeue_def if_dequeue_def ms_def Let_def flip: tx1_def)
  have c: "contents ms = d" "ms \<noteq> []" by (simp_all add: ms_def contents_simps)
  have e: "esc E tx1 = esc E tx" by (rule esc_cong) (simp add: tx1_def)
  obtain sc' flag where s: "send_chain E ms (start_packet E ms tx1) = sc'" "tx_only tx1 sc'" "flag = [] \<or> flag = [PPP_FLAG (dh E)]"
    "line sc' = line tx1 @ flag @ stuffed E tx1 (d @ fcs_bytes (pppfcs (dh E) (PPP_INITFCS (dh E)) d)) @ [PPP_FLAG (dh E)]"
    using send_packet_line [OF assms(1) c(2), of tx1] c(1) by auto
  let ?f = "finish_packet sc'"
  have "ppp_dequeue E ?f = Some None" "sc_outm ?f = None"
    using tx_only_fields [OF s(2)] assms(3) by (simp_all add: ppp_dequeue_def if_dequeue_def finish_packet_def tx1_def)
  then have "wrt_loop E 2 tx = Some ?f" using q s(1) assms(4) by (simp add: numeral_2_eq_2)
  then show ?thesis using s(3,4) e by (intro that [of ?f flag]) (auto simp: finish_packet_def tx1_def)
qed

text \<open>A control packet in the input queue.\<close>

lemma control_delivered:
  assumes "received E rx sc (Some pkt)" "4 \<le> length pkt" "gs pkt 2 \<notin> {PPP_IP (dh E), PPP_VJC_COMP (dh E), PPP_VJC_UNCOMP (dh E)}"
    "in_hook E = None" "0 < IFQ_MAXLEN (dh E)" "sc_inq rx = []" "pool_ok E"
  shows "fst (pppread sc) = Some pkt"
proof -
  obtain ms sc1 where m: "ms \<noteq> []" "4 \<le> length (m_dat (hd ms))" "contents ms = pkt" "same_queues rx sc1"
     "sc = pppgetm E (ppppktin E ms sc1)" using assms(1) by (auto simp: received_def)
  have "gs (m_dat (hd ms)) 2 = gs pkt 2"
    using m(1-3) assms(2) by (cases ms) (auto simp: gs_def rd_def contents_simps nth_append)
  moreover have "sc_inq sc1 = []" using m(4) assms(6) by (simp add: same_queues_def)
  ultimately have "sc_inq (ppppktin E ms sc1) = [ms]"
    using assms(3-5) by (simp add: ppppktin_def pass_up_def Let_def enqueue_def)
  moreover have "sc_inq sc = sc_inq (ppppktin E ms sc1)"
    unfolding m(5) by (rule rx_only_fields(5) [OF rx_only_grows [OF getm_grows [OF pool_ok_sizes [OF assms(7)]]]])
  ultimately show ?thesis using m(3) by (simp add: pppread_def)
qed

text \<open>
  C3. End to end: a control packet that the daemon of one side writes is accepted by \<open>pppwrite\<close>,
  framed by the write task, and rebuilt byte for byte by the driver of the other side, whose
  \<open>pppread\<close> returns it; for every setting of the compression flags and of the escape maps the two
  sides can have negotiated.
\<close>

theorem write_read:
  fixes E E' :: dev
  assumes "rfc1662 (dh E)" "flags_apart (dh E)" "dh E' = dh E" "tx_ready E buf tx" "rx_ready E' buf rx" "maps_agree tx rx"
    "has rx (SC_REJ_COMP_AC (dh E)) \<longrightarrow> \<not> has tx (SC_COMP_AC (dh E))" "packet_form buf"
    "gs buf 2 \<notin> {PPP_IP (dh E), PPP_VJC_COMP (dh E), PPP_VJC_UNCOMP (dh E)}"
  shows "\<exists>tx1 tx2. pppwrite E buf tx = (0, tx1) \<and> wrt_loop E 2 tx1 = Some tx2 \<and>
    fst (pppread (foldl (pppinput E') rx (drop (length (line tx)) (line tx2)))) = Some buf"
proof -
  have four: "4 \<le> length buf" using assms(8) by (simp add: packet_form_def)
  have R: "pool_ok E'" "in_hook E' = None" "0 < IFQ_MAXLEN (dh E')" "rx_inv E' rx" "rx_abs E' rx = Frame False [] (PPP_INITFCS (dh E))"
    "sc_inq rx = []" "int (length buf) \<le> sc_mru rx + 4" using assms(3,5) by (auto simp: rx_ready_def)
  obtain tx1 k where w: "pppwrite E buf tx = (0, tx1)" "if_snd tx1 = [[\<lparr>m_extSize = k, m_off = 0, m_dat = buf\<rparr>]]" "sc_fastq tx1 = []"
    "sc_outm tx1 = None" "sc_asyncmap tx1 = sc_asyncmap tx" "sc_flags tx1 = sc_flags tx" "line tx1 = line tx"
    by (rule pppwrite_queued [OF assms(1,4) four])
  have ok: "takes_all E" "esc_map_ok tx1" "maps_agree tx1 rx" "has rx (SC_REJ_COMP_AC (dh E)) \<longrightarrow> \<not> has tx1 (SC_COMP_AC (dh E))"
    using assms(4,6,7) w by (auto simp: tx_ready_def esc_map_ok_def maps_agree_def)
  have ip: "gs buf 2 \<noteq> PPP_IP (dh E)" using assms(9) by simp
  obtain tx2 flag where s: "wrt_loop E 2 tx1 = Some tx2" "flag = [] \<or> flag = [PPP_FLAG (dh E)]"
    "line tx2 = line tx1 @ flag @ stuffed E tx1 (squeeze (dh E) tx1 (gs buf 2) buf @
       fcs_bytes (pppfcs (dh E) (PPP_INITFCS (dh E)) (squeeze (dh E) tx1 (gs buf 2) buf))) @ [PPP_FLAG (dh E)]"
    by (rule write_task_sends [OF ok(1) w(2-4) ip])
  have "received E' rx (foldl (pppinput E') rx (drop (length (line tx)) (line tx2))) (Some buf)"
    using frame_received [OF assms(1-3) R(1,4,5) ok(2,3) assms(8) ok(4) R(7) s(2)] s(3) w(7) by simp
  from control_delivered [OF this four _ R(2,3,6,1)] w(1) s(1) assms(3,9) show ?thesis by auto
qed

text \<open>The state after \<open>pppopen\<close> of the sample driver.\<close>

definition std_sc :: softc where
  "std_sc = (softc_init std_dev)\<lparr>calls := 1, sc_m := [\<lparr>m_extSize = 2048, m_off = 0, m_dat = []\<rparr>]\<rparr>"

lemma std_opened: "pppopen std_dev = Some std_sc"
  by (simp add: pppopen_def std_sc_def pppgetm_def getm_enough_def softc_init_def HDROFF_def std_dev_def std_drv_def std_vj_def
    pppgetm_more.simps [of _ 1634] pppgetm_more.simps [of _ 0] pppgetm_step_def Let_def)

theorem write_read_witness:
  "\<exists>tx1 tx2. pppwrite std_dev [0xff, 3, 0xc0, 0x21, 1, 1, 0, 4] std_sc = (0, tx1) \<and> wrt_loop std_dev 2 tx1 = Some tx2 \<and>
    fst (pppread (foldl (pppinput std_dev) std_sc (drop (length (line std_sc)) (line tx2)))) = Some [0xff, 3, 0xc0, 0x21, 1, 1, 0, 4]"
proof -
  let ?buf = "[0xff, 3, 0xc0, 0x21, 1, 1, 0, 4]"
  have h: "dh std_dev = std_drv" by (simp add: std_dev_def)
  have tx: "tx_ready std_dev ?buf std_sc"
    by (simp add: tx_ready_def takes_all_def esc_map_ok_def std_sc_def softc_init_def std_dev_def std_drv_def)
  have b: "have_bytes std_dev std_sc []"
    by (simp add: have_bytes_def bufs_ok_def fits_def std_sc_def softc_init_def)
  have "rx_inv std_dev std_sc"
    using b by (auto simp: rx_inv_def bufs_ok_def fits_def std_sc_def softc_init_def std_dev_def std_drv_def)
  moreover have "rx_abs std_dev std_sc = Frame False [] (PPP_INITFCS (dh std_dev))"
    by (simp add: rx_abs_def std_sc_def softc_init_def)
  ultimately have rx: "rx_ready std_dev ?buf std_sc"
    by (simp add: rx_ready_def pool_ok_def) (simp add: std_sc_def softc_init_def std_dev_def std_drv_def)
  show ?thesis
    by (rule write_read [of std_dev std_dev]) (use std_rfc1662 std_flags_apart h tx rx in \<open>simp_all add: maps_agree_def packet_form_def\<close>,
      simp_all add: std_sc_def softc_init_def std_drv_def gs_def rd_def be_getshort_def)
qed

end
