(* ===== verification/Ppp_Driver.thy ===== *)
theory Ppp_Driver
  imports Ppp_Wire
begin

text \<open>
  The driver as a state machine: every state that is reached from \<open>pppopen\<close> by bytes of the line,
  by output, by the write task and by the controls. The receiver stays inside its mbufs, the packets
  that wait for \<open>read\<close> have at most the length that can be negotiated, and the escape map always
  protects the flag and the escape.
\<close>

section \<open>The steps\<close>

text \<open>The flags that a control can set, and the one of \<open>pppintr\<close>, are not those of the receiver.\<close>

definition masks_apart :: "drv_hdr \<Rightarrow> bool" where
  "masks_apart H \<longleftrightarrow> SC_MASK H AND SC_FLUSH H = 0 \<and> SC_DISCARD_PKT H AND SC_FLUSH H = 0"

definition mru_range :: "drv_hdr \<Rightarrow> bool" where
  "mru_range H \<longleftrightarrow> 0 \<le> DRV_MRU H \<and> DRV_MRU H \<le> PPP_MAXMRU H"

text \<open>The extended map is copied as a whole.\<close>

definition ioctl_ok :: "tioctl \<Rightarrow> bool" where
  "ioctl_ok req \<longleftrightarrow> (case req of PPPIOCSXASYNCMAP ws \<Rightarrow> length ws = 8 | _ \<Rightarrow> True)"

inductive driver :: "dev \<Rightarrow> softc \<Rightarrow> bool" for E where
  opened: "pppopen E = Some sc \<Longrightarrow> driver E sc"
| byte: "driver E sc \<Longrightarrow> driver E (pppinput E sc c)"
| intr: "driver E sc \<Longrightarrow> driver E (fst (pppintr E lcp_opened ring_full c sc))"
| tty_read: "driver E sc \<Longrightarrow> driver E (ppp_tty_read E lcp_opened buf n sc)"
| ioctl: "driver E sc \<Longrightarrow> ioctl_ok req \<Longrightarrow> driver E (snd (snd (ppptioctl E req sc)))"
| if_ioctl: "driver E sc \<Longrightarrow> driver E (snd (snd (pppioctl E req2 sc)))"
| up: "driver E sc \<Longrightarrow> driver E (pinit E sc)"
| out: "driver E sc \<Longrightarrow> driver E (snd (pppoutput E m dst sc))"
| wrote: "driver E sc \<Longrightarrow> driver E (snd (pppwrite E buf sc))"
| was_read: "driver E sc \<Longrightarrow> driver E (snd (pppread sc))"
| task: "driver E sc \<Longrightarrow> wrt_loop E k sc = Some sc' \<Longrightarrow> driver E sc'"

section \<open>What output leaves alone\<close>

definition in_view :: "softc \<Rightarrow> (chain \<times> nat \<times> int \<times> u16 \<times> u32 \<times> int \<times> u32 \<times> u32 list) \<times> chain list" where
  "in_view sc = (rx_view sc, sc_inq sc)"

lemma dev_write_in: "in_view (snd (dev_write E bs sc)) = in_view sc"
  by (simp add: dev_write_def Let_def in_view_def rx_view_def)

lemma in_view_bytessent: "in_view (sc\<lparr>sc_bytessent := n\<rparr>) = in_view sc"
  by (simp add: in_view_def rx_view_def)

lemma write_run_in: "in_view (snd (write_run E run n sc)) = in_view sc"
proof (induction E run n sc rule: write_run.induct)
  case (1 E start nleft sc)
  then show ?case
    using dev_write_in [of E start sc] by (subst write_run.simps) (auto simp: Let_def split: prod.split)
qed

lemma send_bytes_in: "in_view (snd (send_bytes E bs sc)) = in_view sc"
proof (induction bs arbitrary: sc rule: length_induct)
  case (1 bs)
  define run where "run = takeWhile (\<lambda>c. \<not> ESCAPE_P sc c) bs"
  obtain nleft sc1 where w: "(if length run > 0 then write_run E run (length run) sc else (0, sc)) = (nleft, sc1)" by fastforce
  have v1: "in_view sc1 = in_view sc" using write_run_in [of E run "length run" sc] w by (auto split: if_splits)
  define sc2 where "sc2 = sc1\<lparr>sc_bytessent := sc_bytessent sc1 + (length run - nleft)\<rparr>"
  obtain r1 sc3 where d1: "dev_write E [PPP_ESCAPE (dh E)] sc2 = (r1, sc3)" by fastforce
  have v: "in_view sc2 = in_view sc" "in_view sc3 = in_view sc"
    using v1 dev_write_in [of E "[PPP_ESCAPE (dh E)]" sc2] d1 by (simp_all add: sc2_def in_view_bytessent)
  have u: "send_bytes E bs sc = (if bs = [] then ([], sc) else
      if length run - nleft < length run then (drop (length run - nleft) bs, sc2)
      else case drop (length run - nleft) bs of
                [] \<Rightarrow> ([], sc2)
              | c # rest \<Rightarrow>
                  if r1 \<noteq> 1 then (drop (length run - nleft) bs, sc3)
                  else let (r2, sc4) = dev_write E [c XOR PPP_TRANS (dh E)] sc3 in
                    if r2 \<noteq> 1 then (drop (length run - nleft) bs, sc4)
                    else send_bytes E rest (sc4\<lparr>sc_bytessent := sc_bytessent sc4 + 2\<rparr>))"
    unfolding send_bytes.simps [of E bs sc] Let_def run_def [symmetric] w prod.case sc2_def [symmetric] d1 ..
  show ?case
  proof (cases "drop (length run - nleft) bs")
    case (Cons c rest)
    obtain r2 sc4 where d2: "dev_write E [c XOR PPP_TRANS (dh E)] sc3 = (r2, sc4)" by fastforce
    have v4: "in_view sc4 = in_view sc" using dev_write_in [of E "[c XOR PPP_TRANS (dh E)]" sc3] d2 v(2) by simp
    have "length rest < length bs" using arg_cong [OF Cons, of length] by simp
    then have "in_view (snd (send_bytes E rest (sc4\<lparr>sc_bytessent := sc_bytessent sc4 + 2\<rparr>))) = in_view sc"
      using 1 v4 by (simp add: in_view_bytessent)
    then show ?thesis using u Cons d2 v v4 by simp
  qed (use u v in simp)
qed

lemma send_chain_in: "in_view (send_chain E ms sc) = in_view sc"
proof (induction ms arbitrary: sc)
  case (Cons m ms)
  have "in_view (snd (send_bytes E (m_dat m) sc)) = in_view sc" by (rule send_bytes_in)
  moreover have "in_view (sc\<lparr>sc_outm := x\<rparr>) = in_view sc" "in_view (sc\<lparr>sc_outfcs := y\<rparr>) = in_view sc" for sc x y
    by (simp_all add: in_view_def rx_view_def)
  ultimately show ?case using Cons.IH dev_write_in by (auto simp: Let_def split: prod.split)
qed simp

lemma start_finish_in: "in_view (start_packet E ms sc) = in_view sc" "in_view (finish_packet sc) = in_view sc"
  by (simp_all add: start_packet_def finish_packet_def Let_def dev_write_def in_view_def rx_view_def)

lemma dequeue_in: "ppp_dequeue E sc = Some (Some (ms, sc')) \<Longrightarrow> in_view sc' = in_view sc"
proof -
  have q: "if_dequeue sc = Some (m, sc1) \<Longrightarrow> in_view sc1 = in_view sc" for m sc1
    by (auto simp: if_dequeue_def in_view_def rx_view_def split: list.splits)
  have v: "vj_out E sc1 m = Some (p, m2, sc2) \<Longrightarrow> in_view sc2 = in_view sc1" for sc1 m p m2 sc2
    by (auto simp: vj_out_def Let_def in_view_def rx_view_def split: list.splits if_splits option.splits)
  assume "ppp_dequeue E sc = Some (Some (ms, sc'))"
  then show ?thesis
    by (auto simp: ppp_dequeue_def Let_def split: option.splits if_splits prod.splits dest!: q v)
qed

lemma wrt_loop_in: "wrt_loop E k sc = Some sc' \<Longrightarrow> in_view sc' = in_view sc"
proof (induction k arbitrary: sc)
  case (Suc k)
  then show ?case
    by (auto split: option.splits simp: send_chain_in start_finish_in dest: dequeue_in)
qed simp

lemma send_packet_in: "in_view (snd (send_packet E fast m sc)) = in_view sc"
  by (simp add: send_packet_def output_bad_def pppasyncstart_def in_view_def rx_view_def split: option.split)

lemma prepend_in: "in_view (snd (prepend_header E hd4 ms sc)) = in_view sc"
  by (simp add: prepend_header_def in_view_def rx_view_def split: list.split option.split)

lemma output_bad_in: "in_view (snd (output_bad e sc)) = in_view sc"
  by (simp add: output_bad_def in_view_def rx_view_def)

lemma with_header_in: "in_view (snd (with_header E fast hd4 ms sc)) = in_view sc"
  using prepend_in [of E hd4 ms sc]
  by (auto simp: with_header_def send_packet_in output_bad_in split: prod.split option.split)

lemma pppoutput_in: "in_view (snd (pppoutput E m dst sc)) = in_view sc"
proof -
  have "in_view (sc\<lparr>sc_ipsent := n\<rparr>) = in_view sc" for n by (simp add: in_view_def rx_view_def)
  then show ?thesis
    by (cases dst) (auto simp: pppoutput_def Let_def with_header_in output_bad_in)
qed

lemma write_mbufs_in: "in_view (snd (write_mbufs E buf n sc)) = in_view sc"
proof (induction E buf n sc rule: write_mbufs.induct)
  case (1 E buf n sc)
  have "in_view (sc\<lparr>calls := calls sc + 1\<rparr>) = in_view sc" by (simp add: in_view_def rx_view_def)
  with 1 show ?case
    by (subst write_mbufs.simps) (auto simp: Let_def case_prod_beta split: option.split)
qed

lemma pppwrite_in: "in_view (snd (pppwrite E buf sc)) = in_view sc"
proof -
  have e: "in_view (sc\<lparr>errno := n\<rparr>) = in_view sc" for sc n by (simp add: in_view_def rx_view_def)
  show ?thesis
    using write_mbufs_in [of E buf "length buf" sc]
    by (auto simp: pppwrite_def Let_def e pppoutput_in split: prod.split option.split list.split)
qed

section \<open>The invariant\<close>

definition drv_inv :: "dev \<Rightarrow> softc \<Rightarrow> bool" where
  "drv_inv E sc \<longleftrightarrow> rx_inv E sc \<and> esc_map_ok sc \<and>
     (\<forall>ms\<in>set (sc_inq sc). int (length (contents ms)) \<le> PPP_MAXMRU (dh E) + 4)"

text \<open>It depends on little of the state.\<close>

lemma drv_inv_cong:
  assumes "sc_m sc' = sc_m sc" "sc_mc sc' = sc_mc sc" "sc_ilen sc' = sc_ilen sc" "sc_mru sc' = sc_mru sc"
    "sc_asyncmap sc' = sc_asyncmap sc" "sc_inq sc' = sc_inq sc" "has sc' (SC_FLUSH (dh E)) = has sc (SC_FLUSH (dh E))"
  shows "drv_inv E sc' = drv_inv E sc"
  using assms have_bytes_cong [OF assms(1-3)] by (simp add: drv_inv_def rx_inv_def esc_map_ok_def)

lemma drv_inv_view: "in_view sc' = in_view sc \<Longrightarrow> drv_inv E sc' = drv_inv E sc"
  by (rule drv_inv_cong) (auto simp: in_view_def rx_view_def)

text \<open>A packet in the input queue is the one that was handed up.\<close>

lemma pass_up_inq: "set (sc_inq (pass_up E proto ms sc)) \<subseteq> insert ms (set (sc_inq sc))"
  "sc_inq (pass_up E (PPP_IP (dh E)) ms sc) = sc_inq sc"
  by (auto simp: pass_up_def Let_def enqueue_def split: option.splits if_splits)

lemma vj_in_inq: "sc_inq (snd (vj_in E proto m n sc)) = sc_inq sc"
  by (simp add: vj_in_def Let_def drop_input_def split: option.split prod.split)

lemma ppppktin_inq: "set (sc_inq (ppppktin E ms sc)) \<subseteq> insert ms (set (sc_inq sc))"
  unfolding ppppktin_def Let_def case_prod_beta
  using pass_up_inq(1) [of E "gs (m_dat (hd ms)) 2" ms "sc\<lparr>if_ipackets := if_ipackets sc + 1\<rparr>"]
  by (auto simp: pass_up_inq(2) vj_in_inq split: option.splits)

lemma rx_step_length:
  assumes "rx_inv E sc" "snd (rx_step (dh E) sc (rx_abs E sc) c) = Some pkt"
  shows "int (length pkt) \<le> PPP_MAXMRU (dh E) + 4"
proof (cases "rx_abs E sc")
  case Flushing
  then show ?thesis using assms(2) by simp
next
  case (Frame e p f)
  then have nf: "\<not> has sc (SC_FLUSH (dh E))" by (auto simp: rx_abs_def split: if_splits)
  then obtain q where q: "have_bytes E sc q" "int (length q) \<le> PPP_MAXMRU (dh E) + 6" using assms(1) by (auto simp: rx_inv_def)
  then have "q = p" using have_bytes_abs [OF q(1) nf] Frame by simp
  moreover have "pkt = take (length p - 2) p \<and> 6 \<le> length p"
    using assms(2) Frame by (auto simp: Let_def split: if_splits)
  ultimately show ?thesis using q(2) by auto
qed

lemma pppinput_inv:
  assumes "rfc1662 (dh E)" "flags_apart (dh E)" "pool_sizes E" "drv_inv E sc"
  shows "drv_inv E (pppinput E sc c)"
proof -
  have i: "rx_inv E sc" using assms(4) by (simp add: drv_inv_def)
  note st = pppinput_step [OF assms(1-3) i, of c]
  have e: "esc_map_ok (pppinput E sc c)" using st assms(4) by (simp add: drv_inv_def esc_map_ok_def same_cfg_def)
  have q: "\<forall>ms\<in>set (sc_inq (pppinput E sc c)). ms \<in> set (sc_inq sc) \<or>
     (\<exists>pkt. snd (rx_step (dh E) sc (rx_abs E sc) c) = Some pkt \<and> contents ms = pkt)"
  proof (cases "snd (rx_step (dh E) sc (rx_abs E sc) c)")
    case None
    then show ?thesis using st by (simp add: received_def same_queues_def)
  next
    case (Some pkt)
    then obtain ms sc1 where m: "contents ms = pkt" "same_queues sc sc1" "pppinput E sc c = pppgetm E (ppppktin E ms sc1)"
      using st by (auto simp: received_def)
    have "sc_inq (pppinput E sc c) = sc_inq (ppppktin E ms sc1)"
      unfolding m(3) by (rule rx_only_fields(5) [OF rx_only_grows [OF getm_grows [OF assms(3)]]])
    then show ?thesis using ppppktin_inq [of E ms sc1] m(1,2) Some by (auto simp: same_queues_def)
  qed
  show ?thesis
    unfolding drv_inv_def using st e q rx_step_length [OF i] assms(4) unfolding drv_inv_def by blast
qed

lemma opened_inv:
  assumes "pool_sizes E" "mru_range (dh E)" "pppopen E = Some sc"
  shows "drv_inv E sc"
proof -
  have s: "sc = pppgetm E (softc_init E)" using assms(3) by (auto simp: pppopen_def Let_def split: if_splits)
  have g: "grows (softc_init E) sc" unfolding s by (rule getm_grows [OF assms(1)])
  have f: "sc_mru sc = DRV_MRU (dh E)" "sc_asyncmap sc = [0xffffffff, 0, 0, 0x60000000, 0, 0, 0, 0]" "sc_inq sc = []" "sc_ilen sc = 0"
    using rx_only_fields [OF rx_only_grows [OF g]] g by (auto simp: softc_init_def grows_def)
  have b: "bufs_ok (sc_m sc)" by (rule grows_bufs [OF g]) (simp add: softc_init_def bufs_ok_def)
  then have "have_bytes E sc []" using f by (simp add: have_bytes_def)
  moreover have "int (length ([] :: bytes)) \<le> PPP_MAXMRU (dh E) + 6" using assms(2) by (simp add: mru_range_def)
  ultimately have "rx_inv E sc" unfolding rx_inv_def using b f(1) assms(2) by (auto simp: mru_range_def)
  then show ?thesis using f by (simp add: drv_inv_def esc_map_ok_def)
qed

text \<open>The controls.\<close>

lemma mru_inv:
  assumes "pool_sizes E" "drv_inv E sc" "0 \<le> mru" "mru \<le> PPP_MAXMRU (dh E)"
  shows "drv_inv E (pppgetm E (sc\<lparr>sc_mru := mru\<rparr>))"
proof -
  let ?s = "sc\<lparr>sc_mru := mru\<rparr>"
  have g: "grows ?s (pppgetm E ?s)" by (rule getm_grows [OF assms(1)])
  note k = rx_only_fields [OF rx_only_grows [OF g]]
  have b: "bufs_ok (sc_m (pppgetm E ?s))" using grows_bufs [OF g] assms(2) by (simp add: drv_inv_def rx_inv_def)
  have h: "have_bytes E (pppgetm E ?s) p" if p: "have_bytes E sc p" for p
  proof -
    have l: "sc_ilen (pppgetm E ?s) = sc_ilen sc" using g by (auto simp: grows_def)
    have "holding E (pppgetm E ?s) p" if "holding E sc p"
    proof -
      have "holding E ?s p" using that by (simp add: holding_def filling_def)
      then show ?thesis unfolding holding_def using grows_filling [OF g] by metis
    qed
    then show ?thesis using p b l by (auto simp: have_bytes_def)
  qed
  show ?thesis using assms k b h by (auto simp: drv_inv_def rx_inv_def esc_map_ok_def)
qed

lemma ioctl_inv:
  assumes "pool_sizes E" "masks_apart (dh E)" "mru_range (dh E)" "drv_inv E sc" "ioctl_ok req"
  shows "drv_inv E (snd (snd (ppptioctl E req sc)))"
proof (cases req)
  case (PPPIOCSFLAGS f)
  let ?M = "SC_MASK (dh E)" let ?F = "SC_FLUSH (dh E)"
  have "\<not> (bit ?M n \<and> bit ?F n)" for n
    using assms(2) by (metis bit_and_iff masks_apart_def bit_0_eq bot_apply bot_bool_def)
  then have "((sc_flags sc AND NOT ?M) OR (f AND ?M)) AND ?F = sc_flags sc AND ?F"
    by (intro bit_word_eqI) (auto simp: bit_simps)
  then show ?thesis unfolding PPPIOCSFLAGS using assms(4) by (subst drv_inv_cong) simp_all
next
  case (PPPIOCSASYNCMAP w)
  then show ?thesis using assms(4) by (auto simp: drv_inv_def rx_inv_def esc_map_ok_def have_bytes_def holding_def filling_def)
next
  case (PPPIOCSXASYNCMAP ws)
  have "(ws ! 2 AND NOT 0x40000000) AND 0x40000000 = 0" "(ws ! 3 OR 0x60000000) AND 0x60000000 = 0x60000000"
    by (rule bit_word_eqI, auto simp: bit_simps)+
  moreover have "length ws = 8" using assms(5) PPPIOCSXASYNCMAP by (simp add: ioctl_ok_def)
  ultimately have "esc_map_ok (snd (snd (ppptioctl E req sc)))"
    using PPPIOCSXASYNCMAP by (simp add: esc_map_ok_def)
  then show ?thesis
    using assms(4) PPPIOCSXASYNCMAP by (auto simp: drv_inv_def rx_inv_def have_bytes_def holding_def filling_def)
next
  case (PPPIOCSMRU mru)
  have d: "drv_inv E (pppgetm E (sc\<lparr>sc_mru := DRV_MRU (dh E)\<rparr>))" "drv_inv E (pppgetm E (sc1\<lparr>sc_mru := DRV_MRU (dh E)\<rparr>))" if "drv_inv E sc1" for sc1
    using mru_inv [OF assms(1)] assms(3,4) that by (auto simp: mru_range_def)
  have u: "drv_inv E (s\<lparr>if_flags := x\<rparr>) = drv_inv E s" for s x by (rule drv_inv_cong) simp_all
  have m: "drv_inv E (pppgetm E (sc\<lparr>sc_mru := mru\<rparr>))" if "DRV_MRU (dh E) \<le> mru" "mru \<le> PPP_MAXMRU (dh E)"
    using mru_inv [OF assms(1,4)] that assms(3) by (simp add: mru_range_def)
  have "drv_inv E (snd (set_mru E mru sc))"
    using assms(4) m d(2) [OF m] by (auto simp: set_mru_def Let_def u not_less)
  then show ?thesis using PPPIOCSMRU by (simp add: case_prod_beta)
qed (use assms(4) in \<open>auto intro: drv_inv_cong [THEN iffD2]\<close>)

section \<open>Every state that is reached\<close>

lemma discard_inv:
  assumes "masks_apart (dh E)"
  shows "drv_inv E (set_flag (SC_DISCARD_PKT (dh E)) sc) = drv_inv E sc" "drv_inv E (clear_flag (SC_DISCARD_PKT (dh E)) sc) = drv_inv E sc"
proof -
  have "SC_DISCARD_PKT (dh E) AND SC_FLUSH (dh E) = 0" using assms by (simp add: masks_apart_def)
  note a = has_or [OF this, of sc] has_clear_other [OF this, of sc]
  show "drv_inv E (set_flag (SC_DISCARD_PKT (dh E)) sc) = drv_inv E sc" "drv_inv E (clear_flag (SC_DISCARD_PKT (dh E)) sc) = drv_inv E sc"
    by (rule drv_inv_cong; use a in \<open>simp add: set_flag_def clear_flag_def\<close>)+
qed

lemma drv_inv_counters: "drv_inv E (sc\<lparr>sc_qlen := n\<rparr>) = drv_inv E sc" "drv_inv E (drop_input sc) = drv_inv E sc"
  by (rule drv_inv_cong; simp add: drop_input_def)+

lemma pppintr_inv: "masks_apart (dh E) \<Longrightarrow> drv_inv E (fst (pppintr E lcp_opened ring_full c sc)) = drv_inv E sc"
  by (simp add: pppintr_def Let_def discard_inv drv_inv_counters)

lemma foldl_inv: "(\<And>s x. P s \<Longrightarrow> P (f s x)) \<Longrightarrow> P s \<Longrightarrow> P (foldl f s xs)"
  by (induction xs arbitrary: s) simp_all

lemma pppread_inv: "drv_inv E sc \<Longrightarrow> drv_inv E (snd (pppread sc))"
proof -
  assume i: "drv_inv E sc"
  have "drv_inv E (sc\<lparr>sc_inq := q\<rparr>)" if "set q \<subseteq> set (sc_inq sc)" for q
    using i that have_bytes_cong [of "sc\<lparr>sc_inq := q\<rparr>" sc] by (auto simp: drv_inv_def rx_inv_def esc_map_ok_def)
  then show ?thesis using i by (cases "sc_inq sc") (simp_all add: pppread_def subset_insertI)
qed

lemma driver_inv:
  assumes "rfc1662 (dh E)" "flags_apart (dh E)" "masks_apart (dh E)" "mru_range (dh E)" "pool_sizes E" "driver E sc"
  shows "drv_inv E sc"
  using assms(6)
proof (induction rule: driver.induct)
  case (opened sc)
  then show ?case by (rule opened_inv [OF assms(5,4)])
next
  case (byte sc c)
  then show ?case using pppinput_inv [OF assms(1,2,5)] by blast
next
  case (intr sc lcp_opened ring_full c)
  then show ?case using pppintr_inv [OF assms(3)] by blast
next
  case (tty_read sc lcp_opened buf n)
  then show ?case
    using foldl_inv [of "drv_inv E" "pppinput E", OF pppinput_inv [OF assms(1,2,5)]] drv_inv_view [OF dev_write_in]
    by (auto simp: ppp_tty_read_def discard_inv [OF assms(3)] drv_inv_counters)
next
  case (ioctl sc req)
  then show ?case using ioctl_inv [OF assms(5,3,4)] by blast
next
  case (if_ioctl sc req2)
  have "in_view (snd (snd (pppioctl E req2 sc))) = in_view sc"
    by (cases req2) (simp_all add: af_inet_only_def in_view_def rx_view_def)
  then show ?case using if_ioctl drv_inv_view by blast
next
  case (up sc)
  then show ?case by (subst drv_inv_cong) (simp_all add: pinit_def)
next
  case (out sc m dst)
  then show ?case using drv_inv_view [OF pppoutput_in] by blast
next
  case (wrote sc buf)
  then show ?case using drv_inv_view [OF pppwrite_in] by blast
next
  case (was_read sc)
  then show ?case using pppread_inv by blast
next
  case (task sc k sc')
  then show ?case using drv_inv_view [OF wrt_loop_in] by blast
qed

text \<open>
  C8. Bounds of the driver: whatever arrives on the line, and however output, controls and the write
  task are interleaved with it, every byte the receiver has stored lies inside its mbuf, and no packet
  that waits for \<open>read\<close> is longer than the largest unit that can be set, plus its header.
\<close>

theorem driver_bounds:
  assumes "rfc1662 (dh E)" "flags_apart (dh E)" "masks_apart (dh E)" "mru_range (dh E)" "pool_sizes E" "driver E sc"
  shows "(\<forall>m\<in>set (sc_m sc). m_off m + length (m_dat m) \<le> m_extSize m) \<and>
    (\<forall>ms\<in>set (sc_inq sc). int (length (contents ms)) \<le> PPP_MAXMRU (dh E) + 4)"
  using driver_inv [OF assms] by (auto simp: drv_inv_def rx_inv_def bufs_ok_def fits_def)

lemma std_ranges: "masks_apart std_drv" "mru_range std_drv" "pool_sizes std_dev"
  by (simp_all add: masks_apart_def mru_range_def pool_sizes_def std_drv_def std_dev_def)

theorem driver_bounds_witness:
  "list_all (\<lambda>m. m_off m + length (m_dat m) \<le> m_extSize m) (sc_m (pppinput std_dev std_sc 0x21)) \<and>
   list_all (\<lambda>ms. int (length (contents ms)) \<le> 65004) (sc_inq (pppinput std_dev std_sc 0x21))"
proof -
  have h: "dh std_dev = std_drv" by (simp add: std_dev_def)
  have "driver std_dev (pppinput std_dev std_sc 0x21)" by (intro driver.byte driver.opened std_opened)
  then show ?thesis
    using driver_bounds [of std_dev "pppinput std_dev std_sc 0x21"] std_rfc1662 std_flags_apart std_ranges h
    by (simp add: list_all_iff) (simp add: std_drv_def)
qed

text \<open>
  C11. The escape map in every state of the driver: the flag and the escape are escaped, and neither
  0x5e nor 0x20 to 0x3f, which escaping would turn into the flag and into control characters.
\<close>

theorem driver_escapes:
  assumes "rfc1662 (dh E)" "flags_apart (dh E)" "masks_apart (dh E)" "mru_range (dh E)" "pool_sizes E" "driver E sc"
  shows "ESCAPE_P sc (PPP_FLAG (dh E)) \<and> ESCAPE_P sc (PPP_ESCAPE (dh E)) \<and> \<not> ESCAPE_P sc 0x5e \<and>
    (\<forall>c. drop_bit 5 c = 1 \<longrightarrow> \<not> ESCAPE_P sc c)"
proof -
  have "esc_map_ok sc" using driver_inv [OF assms] by (simp add: drv_inv_def)
  then show ?thesis
    using escaped_flag escaped_escape plain_5e plain_row1 assms(1) by (auto simp: rfc1662_def)
qed

theorem driver_escapes_witness:
  "ESCAPE_P std_sc (PPP_FLAG std_drv) \<and> ESCAPE_P std_sc (PPP_ESCAPE std_drv) \<and> \<not> ESCAPE_P std_sc 0x5e"
proof -
  have h: "dh std_dev = std_drv" by (simp add: std_dev_def)
  have "driver std_dev std_sc" by (intro driver.opened std_opened)
  then show ?thesis
    using driver_escapes [of std_dev std_sc] std_rfc1662 std_flags_apart std_ranges h by simp
qed

section \<open>Writes that do not take everything\<close>

text \<open>
  C12. A short write: when the device takes only the first bytes of a run, the next call starts at the
  beginning of the run again, so that these bytes are on the line twice, and the run counts as sent.
\<close>

theorem short_write_repeats:
  assumes "d_write E (calls sc) (length run) = int j" "0 < j" "j < length run"
    "d_write E (calls sc + 1) (length run) = int (length run)"
  shows "fst (write_run E run (length run) sc) = 0 \<and> line (snd (write_run E run (length run) sc)) = line sc @ take j run @ run"
proof -
  have z: "write_run E run 0 s = (0, s)" for s by (simp add: write_run.simps)
  have "write_run E run (length run) sc = write_run E run (length run - j) (sc\<lparr>calls := calls sc + 1, line := line sc @ take j run\<rparr>)"
    using assms by (subst write_run.simps) (auto simp: dev_write_def Let_def)
  also have "\<dots> = (0, sc\<lparr>calls := calls sc + 2, line := line sc @ take j run @ run\<rparr>)"
    using assms by (subst write_run.simps) (simp add: dev_write_def Let_def z)
  finally show ?thesis by simp
qed

definition slow_dev :: dev where
  "slow_dev = std_dev\<lparr>d_write := (\<lambda>k n. if k = 0 then 2 else int n)\<rparr>"

theorem short_write_repeats_witness:
  "line (snd (write_run slow_dev [1, 2, 3, 4] 4 (softc_init std_dev))) = [1, 2, 1, 2, 3, 4]"
  using short_write_repeats [of slow_dev "softc_init std_dev" "[1, 2, 3, 4]" 2] by (simp add: slow_dev_def softc_init_def eval_nat_numeral)

section \<open>The receiver as a deframer\<close>

text \<open>
  C9. Each byte of the line: \<open>pppinput\<close>, with its chain of mbufs, its index into it and its flag bits,
  takes the step of a deframer that only knows the bytes received so far and the frame check sequence;
  the packets it hands to \<open>ppppktin\<close> are those of the deframer.
\<close>

theorem pppinput_refines:
  assumes "rfc1662 (dh E)" "flags_apart (dh E)" "pool_ok E" "rx_inv E sc"
  shows "rx_inv E (pppinput E sc c) \<and> rx_abs E (pppinput E sc c) = fst (rx_step (dh E) sc (rx_abs E sc) c) \<and>
    received E sc (pppinput E sc c) (snd (rx_step (dh E) sc (rx_abs E sc) c))"
  using pppinput_step [OF assms(1,2) pool_ok_sizes [OF assms(3)] assms(4), of c] assms(3) by blast

theorem pppinput_refines_witness:
  "rx_abs std_dev (pppinput std_dev std_sc 0x21) = fst (rx_step std_drv std_sc (rx_abs std_dev std_sc) 0x21)"
proof -
  have h: "dh std_dev = std_drv" by (simp add: std_dev_def)
  have "driver std_dev std_sc" by (intro driver.opened std_opened)
  then have i: "rx_inv std_dev std_sc"
    using driver_inv [of std_dev] std_rfc1662 std_flags_apart std_ranges h by (simp add: drv_inv_def)
  have p: "pool_ok std_dev" by (simp add: pool_ok_def std_dev_def)
  show ?thesis using pppinput_refines [OF _ _ p i, where c = "0x21"] std_rfc1662 std_flags_apart h by simp
qed

end
