(* ===== verification/Spec2Isabelle.thy ===== *)
theory Spec2Isabelle
  imports In_Cksum Ip_Reass Ppp_Random Auth_Gate Auth_Spec Daemon_Spec Ppp_Driver
begin

text \<open>
  A verification library for the PPP implementation under \<open>src/netinet/ppp\<close>: option
  negotiation, authentication and the task that drives them, and below them the network
  driver with its framing and the TCP/IP header compression (\<open>src/netinet/sl_compress.c\<close>).

  \<^bold>\<open>The program.\<close> A PPP unit is a task that reads packets from a serial device, runs the LCP
  and IPCP automata, authenticates with PAP or CHAP and configures the network interface.
  \<open>pppLib.c\<close> has the task: signal handlers, the list of timeouts, the dispatch of packets to the
  protocols, \<open>die\<close>. \<open>fsm.c\<close> is the automaton of RFC 1661, shared by \<open>lcp.c\<close> and \<open>ipcp.c\<close>
  through a table of callbacks. When LCP comes up it calls \<open>link_established\<close> (\<open>auth.c\<close>), which
  starts the authentications that were negotiated (\<open>upap.c\<close>, \<open>chap.c\<close>) and, when none is
  pending, opens IPCP. Secrets come from files (\<open>auth.c\<close>, scanned with \<open>getword\<close> of
  \<open>options.c\<close>) or from a table (\<open>pppSecretLib.c\<close>). The device and the kernel are reached
  through \<open>ppp_vxworks.c\<close>, whose \<open>output\<close> and \<open>read_packet\<close> call \<open>pppwrite\<close> and \<open>pppread\<close> of the driver
  \<open>if_ppp.c\<close>. The driver queues packets, compresses their headers, and a task of its own writes
  them as frames; bytes from the line are rebuilt to packets for IP or for \<open>pppread\<close>.

  \<^bold>\<open>How code is modelled.\<close> A C function on the unit's state is an action of \<open>Ppp_Prelude\<close>: it
  returns, ends the task (\<open>exit\<close>) or does not come back. The state is the record \<open>ppp\<close> of
  \<open>Ppp_State\<close>, one field per member of the unit's structure, with the list of all calls to the
  device and the kernel. Their answers are the environment's (\<open>env\<close>), which may fail any of
  them. The headers of the program are not in the repository: the constants and access
  macros are the record \<open>hdr\<close>, and what the sources rely on (\<open>codec_ok\<close>, \<open>codes_ok\<close>,
  \<open>types_ok\<close>) is a hypothesis that the instance with the assigned numbers (\<open>std_hdr\<close>) meets.
  Packets are byte lists with the length the code carries along; 8, 16 and 32 bit fields are
  words, \<open>int\<close> variables are integers (no counter of the protocols comes near \<open>2 ^ 31\<close>).

  \<^bold>\<open>Theories\<close>, and the part of the code each models:
  \<^item> \<open>Ppp_Prelude\<close>: actions, weakest preconditions, buffers. \<open>Ppp_Header\<close>: constants and macros.
  \<^item> \<open>Callout\<close>, \<open>Ppp_State\<close>: the timeouts of \<open>pppLib.c\<close> (\<open>ppp_timeout\<close>, \<open>ppp_untimeout\<close>,
    \<open>adjtimeout\<close>), the records, the calls of \<open>ppp_vxworks.c\<close>, \<open>magic.c\<close>. Shown: the list of
    differences is the sorted list of absolute deadlines; insertion, removal and re-basing.
  \<^item> \<open>Fsm\<close>: all of \<open>fsm.c\<close>. \<open>Fsm_Spec\<close>: the transition table of RFC 1661, the contract a client of
    the automaton has to meet (locale \<open>fsm_client\<close>, interpreted for LCP in \<open>Lcp\<close> and for IPCP in
    \<open>Ipcp\<close>), and that every event follows the table and keeps the restart timer running.
  \<^item> \<open>Conf_Options\<close>, \<open>Lcp_Options\<close>, \<open>Ipcp_Options\<close>: the option macros and the functions that
    write, check, nak, reject and answer requests. \<open>Lcp_Options_Spec\<close>, \<open>Lcp_Reqci_Spec\<close>,
    \<open>Ipcp_Options_Spec\<close>: what they compute, option by option; agreement of two peers; where they
    loop or lose options.
  \<^item> \<open>Auth_Secrets\<close>, \<open>Secrets_Spec\<close>: the word scanner, secrets files and table, passwords,
    addresses. A word longer than the buffer is modelled as truncated; the unchecked store of
    an escaped character behind the buffer (\<open>options.c\<close>) is not.
  \<^item> \<open>Ipcp\<close>, \<open>Lcp\<close>, \<open>Auth\<close>, \<open>Upap\<close>, \<open>Chap\<close>, \<open>Md5\<close>: the protocols. \<open>Md5\<close> proves the digest equal to
    the one of RFC 1321; \<open>Auth_Spec\<close> has the PAP and CHAP exchanges of a client with a server.
  \<^item> \<open>Ppp_Daemon\<close>: the task. \<open>Auth_Gate\<close>: the invariant of the authentication phase over everything
    the task does, with its two locales (\<open>strict\<close>: \<open>die\<close> does not come back; \<open>lcp_gate\<close> and
    \<open>lcp_peer\<close>: what the callbacks of LCP keep), interpreted for the running task.
    \<open>Daemon_Spec\<close>: \<open>die\<close> on a dead device (locale \<open>lost\<close>) and on a passive unit.
  \<^item> \<open>Sl_Compress\<close>: all of \<open>sl_compress.c\<close>; the encoding macros of its header are parameters with their
    documented laws (\<open>vj_ok\<close>, met by \<open>std_vj\<close>). \<open>Vj_Spec\<close>: the circular list of connections is a list
    in order of use. \<open>Vj_Link\<close>: both ends stay in step, so every sequence of segments comes out as
    it went in; and one stream where a flag is wrong.
  \<^item> \<open>If_Ppp\<close>: \<open>if_ppp.c\<close>, with mbufs as buffers of a size, an offset and contents. What the device, the
    pool of buffers and the hooks return is the record \<open>dev\<close>, by the number of the call. \<open>Ppp_Framing\<close>: the
    frame check sequence is the CRC of RFC 1662. \<open>Ppp_Input\<close>: the receiver refines a deframer on bytes and
    stays inside its buffers. \<open>Ppp_Wire\<close>: from \<open>pppwrite\<close> on one side to \<open>pppread\<close> on the other.
    \<open>Ppp_Driver\<close>: the driver as a state machine (\<open>driver\<close>), its invariant, and short writes.
  \<^item> \<open>Ppp_Random\<close>: \<open>random.c\<close>, its state arrays as a memory; the recurrence of the generator, and that a
    state comes back. \<open>In_Cksum\<close>: the portable version of \<open>in_cksum.c\<close>, which is the checksum of RFC 1071 for
    every layout of the bytes in mbufs and on machines of both byte orders.
  \<^item> \<open>Uipc_Mbuf\<close>: the operations on mbuf chains of \<open>uipc_mbuf.c\<close> (\<open>m_prepend\<close>, \<open>m_cat\<close>, \<open>m_adj\<close>, \<open>m_pullup\<close>,
    \<open>m_devget\<close>), each by what it does to the bytes of a chain and to the bounds of its clusters. \<open>Ip_Reass\<close>: the
    fragments of \<open>ip_input.c\<close> (\<open>ipReAssemble\<close>, the queues, their time-out); reassembly is complete and exact,
    and two cases where it goes wrong.
  \<^item> \<open>Samples\<close>: concrete environments and states for the witnesses.

  \<^bold>\<open>Fuel and recursion.\<close> \<open>die\<close> closes LCP, which writes; a failing write calls \<open>die\<close>. The nesting
  is bounded by the argument of \<open>die_fuel\<close> (\<open>Stuck\<close> when it is used up); the invariant of
  \<open>Auth_Gate\<close> holds for every bound, and where no call fails one level is enough. The loop of
  \<open>lcp_nakci\<close> that may not end is a partial function with an explicit result for that case; all
  other loops are total functions with termination proofs. The write task of the driver serves
  its queues until they are empty; \<open>wrt_loop\<close> bounds the number of packets, and \<open>write_read\<close> shows that one
  more than are queued is enough there.

  \<^bold>\<open>Not modelled:\<close> the printing of packets and statistics and the debug output, \<open>syslog\<close>, the
  creation of the task and its descriptors (system calls), the table of option setters of
  \<open>options.c\<close>, the user hooks, attaching the driver to the interface list, the DES of \<open>crypt.c\<close>, and
  the rest of the 4.4BSD stack (in \<open>ip_input.c\<close> the header checks, options and forwarding) and the example programs outside \<open>netinet/ppp\<close>. In the
  protocols random numbers are an arbitrary sequence, so nothing there depends on \<open>random.c\<close>.
\<close>

section \<open>The automaton\<close>





text \<open>
  C22. A peer that never answers does not keep the link: with \<open>k\<close> transmissions left, the
  expiry number \<open>k + 1\<close> of the restart timer stops LCP and marks the link dead, so that the
  main loop of the task ends (neither passive nor restarting).
\<close>

theorem lcp_silence_ends_link:
  assumes "fstate (lcp_fsm s) \<in> {REQSENT, ACKRCVD, ACKSENT}" and "retransmits (lcp_fsm s) = int k"
    and "\<not> opt_passive (lcp_fsm s)" and "\<not> opt_restart (lcp_fsm s)"
  shows "\<exists>t. expire (ok_env h r v d) (lcp_callbacks (ok_env h r v d) A) (k + 1) s = Ret () t \<and>
     fstate (lcp_fsm t) = STOPPED \<and> ppp_phase t = PHASE_DEAD"
proof -
  let ?E = "ok_env h r v d" and ?C = "lcp_callbacks (ok_env h r v d) A"
  have "wp (expire ?E ?C (k + 1) s) (\<lambda>_ t. fstate (lcp_fsm t) = STOPPED \<and> ppp_phase t = PHASE_DEAD) (\<lambda>_. False)"
    using assms
    by (auto intro!: wp_mono [OF lcp.expire_negotiation [where s = s and k = k and X = "\<lambda>_. False"]]
        simp: state_of_def getf_def fsm_timeout_def Let_def lcp_finished_def link_terminated_def
          set_state_def modf_def expire_last simp del: expire.simps)
  then show ?thesis by (auto simp: wp_def split: res.splits)
qed

theorem lcp_silence_ends_link_witness:
  "\<exists>t. expire (sample_env skip) (lcp_callbacks (sample_env skip) sample_auth) 11 (lcp_at REQSENT 10) = Ret () t \<and>
     fstate (lcp_fsm t) = STOPPED \<and> ppp_phase t = PHASE_DEAD"
  using lcp_silence_ends_link [of "lcp_at REQSENT 10" 10 std_hdr "\<lambda>_. 0" "\<lambda>_ _. 0" skip sample_auth]
  by (simp add: fsm_zero_def)




section \<open>Ending the connection\<close>

context fsm_client
begin

lemma wp_close:
  "wp (fsm_close E C s)
     (\<lambda>_ t. state_of C t = rfc_next rb sb Close (state_of C s) \<and> opt_passive (getf C t) = opt_passive (getf C s) \<and>
        opt_silent (getf C t) = opt_silent (getf C s)) X"
  by (cases "state_of C s")
    (auto simp: fsm_close_def state_of_def Let_def after_termreq_def intro!: wp_UNTIMEOUT_FSM wp_termreq
      wp_tame [OF call_tame(2)])

end

text \<open>
  C24. When no call fails, \<open>die\<close> ends the task of a unit that is neither passive nor silent: LCP
  takes the Close transition and the task exits, at any depth of nesting but 0.
\<close>

theorem die_exits:
  assumes "eager s"
  shows "\<exists>t. die_fuel (Suc n) (ok_env h r v d) A s = Exit t \<and>
     fstate (lcp_fsm t) = rfc_next r' sl Close (fstate (lcp_fsm s))"
proof -
  let ?E = "ok_env h r v (die_fuel n (ok_env h r v d) A)"
  have env: "(ok_env h r v d)\<lparr>die_fn := die_fuel n (ok_env h r v d) A\<rparr> = ?E"
    by (simp add: ok_env_def)
  have close: "lcp_close ?E A s = fsm_close ?E (lcp_callbacks ?E A) s"
    using assms by (simp add: lcp_close_def eager_def)
  have "wp (fsm_close ?E (lcp_callbacks ?E A) s)
      (\<lambda>_ t. fstate (lcp_fsm t) = rfc_next r' sl Close (fstate (lcp_fsm s)) \<and> eager t) (\<lambda>_. False)"
    by (rule wp_mono [OF lcp.wp_close [where rb = r' and sb = sl]])
      (use assms in \<open>auto simp: state_of_def getf_def eager_def\<close>)
  then show ?thesis
    by (auto simp: env close wp_def bnd_def eager_def split: res.splits)
qed


theorem die_exits_witness:
  "\<exists>t. die_fuel 1 (sample_env skip) sample_auth (lcp_at OPENED 5) = Exit t \<and> fstate (lcp_fsm t) = CLOSING"
  using die_exits [of "lcp_at OPENED 5" 0 std_hdr "\<lambda>_. 0" "\<lambda>_ _. 0" skip sample_auth False False]
  by (simp add: eager_def fsm_zero_def)

end
